(* ===== verification/Prelude.thy ===== *)
theory Prelude
  imports Main "HOL-Library.Word"
begin

text \<open>
  What every component of the development shares: Go's runtime panics and errors as values, slices
  with their bounds checks, maps with a caller-chosen iteration order, and the reader/writer lock of
  \<^verbatim>\<open>sync\<close>.  A Go function that can panic returns a value of type \<open>'a go\<close>; a function that returns
  an error returns \<open>go_err option\<close> (\<open>None\<close> is Go's \<open>nil\<close>).
\<close>

named_theorems go_defs \<open>unfolding rules of the runtime operations\<close>
named_theorems lock_defs \<open>unfolding rules of the lock operations\<close>

subsection \<open>Panics\<close>

datatype go_panic =
    IndexOutOfRange
  | MakeSliceLen
  | SliceBounds
  | NilDereference
  | NegativeWaitGroup
  | StoreOfNil
  | InconsistentType
  | IncomparableType
  | SendOnClosed
  | CloseOfClosed
  | PanicMsg string

type_synonym 'a go = "go_panic + 'a"

definition go_bind :: "'e + 'a \<Rightarrow> ('a \<Rightarrow> 'e + 'b) \<Rightarrow> 'e + 'b" where
  "go_bind r f = (case r of Inl e \<Rightarrow> Inl e | Inr x \<Rightarrow> f x)"

lemma go_bind_simps [simp]:
  "go_bind (Inl e) f = Inl e"
  "go_bind (Inr x) f = f x"
  by (simp_all add: go_bind_def)

lemma go_bind_Inr_iff:
  "go_bind r f = Inr y \<longleftrightarrow> (\<exists>x. r = Inr x \<and> f x = Inr y)"
  by (cases r) auto

lemma go_bind_assoc: "go_bind (go_bind r f) g = go_bind r (\<lambda>x. go_bind (f x) g)"
  by (cases r) auto

subsection \<open>Errors\<close>

text \<open>
  An error is a message, a sentinel wrapped under a message (\<^verbatim>\<open>fmt.Errorf("...: %w", err)\<close>), or the
  join of several (\<^verbatim>\<open>errors.Join\<close>).
\<close>

datatype go_err =
    Err string
  | ErrWrap string go_err
  | ErrJoin "go_err list"

text \<open>\<^verbatim>\<open>errors.Join\<close> discards the nil errors and is nil when nothing is left.\<close>

fun non_nil :: "go_err option list \<Rightarrow> go_err list" where
  "non_nil [] = []"
| "non_nil (None # es) = non_nil es"
| "non_nil (Some e # es) = e # non_nil es"

definition errors_Join :: "go_err option list \<Rightarrow> go_err option" where
  "errors_Join es = (case non_nil es of [] \<Rightarrow> None | xs \<Rightarrow> Some (ErrJoin xs))"

text \<open>\<^verbatim>\<open>errors.Is\<close> walks the tree of wrapped and joined errors.\<close>

fun err_is :: "go_err \<Rightarrow> go_err \<Rightarrow> bool" where
  "err_is (Err m) t = (Err m = t)"
| "err_is (ErrWrap m e) t = (ErrWrap m e = t \<or> err_is e t)"
| "err_is (ErrJoin es) t = (ErrJoin es = t \<or> (\<exists>e \<in> set es. err_is e t))"

fun errors_Is :: "go_err option \<Rightarrow> go_err \<Rightarrow> bool" where
  "errors_Is None t = False"
| "errors_Is (Some e) t = err_is e t"

lemma err_is_refl [simp]: "err_is e e"
  by (cases e) auto

lemma non_nil_eq: "non_nil es = map the (filter (\<lambda>e. e \<noteq> None) es)"
  by (induction es rule: non_nil.induct) auto

lemma non_nil_map_Some [simp]: "non_nil (map Some es) = es"
  by (induction es) auto

lemma errors_Join_None_iff: "errors_Join es = None \<longleftrightarrow> (\<forall>e \<in> set es. e = None)"
  by (induction es rule: non_nil.induct) (auto simp: errors_Join_def split: list.splits)

lemma errors_Join_Is:
  "errors_Is (errors_Join es) t \<longleftrightarrow>
     (\<exists>e. Some e \<in> set es \<and> err_is e t) \<or> errors_Join es = Some t"
proof -
  have mem: "e \<in> set (non_nil es) \<longleftrightarrow> Some e \<in> set es" for e
    by (induction es rule: non_nil.induct) auto
  show ?thesis
  proof (cases "non_nil es")
    case Nil
    then show ?thesis using mem by (auto simp: errors_Join_def)
  next
    case (Cons a list)
    then have "errors_Join es = Some (ErrJoin (non_nil es))" by (simp add: errors_Join_def)
    then show ?thesis using mem by auto
  qed
qed

subsection \<open>Slices\<close>

text \<open>
  \<^verbatim>\<open>xs[i]\<close>, \<^verbatim>\<open>xs[lo:hi]\<close> (the capacity is the length in every use of this program), \<^verbatim>\<open>make([]T, n)\<close>
  and \<^verbatim>\<open>copy(dst, src)\<close>, with the panics of the runtime.  Go's \<open>int\<close> indices are HOL integers.
\<close>

definition go_index :: "'a list \<Rightarrow> int \<Rightarrow> 'a go" where
  [go_defs]: "go_index xs i =
     (if 0 \<le> i \<and> i < int (length xs) then Inr (xs ! nat i) else Inl IndexOutOfRange)"

definition go_slice :: "'a list \<Rightarrow> int \<Rightarrow> int \<Rightarrow> 'a list go" where
  [go_defs]: "go_slice xs lo hi =
     (if 0 \<le> lo \<and> lo \<le> hi \<and> hi \<le> int (length xs)
      then Inr (take (nat hi - nat lo) (drop (nat lo) xs)) else Inl SliceBounds)"

definition go_make :: "int \<Rightarrow> 'a \<Rightarrow> 'a list go" where
  [go_defs]: "go_make n z = (if 0 \<le> n then Inr (replicate (nat n) z) else Inl MakeSliceLen)"

definition go_copy :: "'a list \<Rightarrow> 'a list \<Rightarrow> 'a list" where
  [go_defs]: "go_copy dst src =
     (let n = min (length dst) (length src) in take n src @ drop n dst)"

definition go_set :: "'a list \<Rightarrow> int \<Rightarrow> 'a \<Rightarrow> 'a list go" where
  [go_defs]: "go_set xs i v =
     (if 0 \<le> i \<and> i < int (length xs) then Inr (xs[nat i := v]) else Inl IndexOutOfRange)"

lemma length_go_copy [simp]: "length (go_copy dst src) = length dst"
  by (simp add: go_copy_def Let_def)

lemma go_copy_replicate: "go_copy (replicate n z) src = take n src @ replicate (n - length src) z"
  by (simp add: go_copy_def min_def Let_def)

lemma go_copy_full: "length dst = length src \<Longrightarrow> go_copy dst src = src"
  by (simp add: go_copy_def)

subsection \<open>Maps and iteration order\<close>

text \<open>
  A Go map is a partial function.  \<^verbatim>\<open>range\<close> over it visits every key once in an order the language
  leaves open: the functions that iterate take the order \<open>ks\<close> as an argument, and their theorems
  hold for every \<open>ks\<close> with \<open>range_order m ks\<close>.  A \<^verbatim>\<open>range\<close> body that may stop early and changes
  variables of its closure is a function from the state to a flag (go on?) and the next state.
\<close>

definition range_order :: "('k \<rightharpoonup> 'v) \<Rightarrow> 'k list \<Rightarrow> bool" where
  "range_order m ks \<longleftrightarrow> distinct ks \<and> set ks = dom m"

fun range_loop :: "('k \<Rightarrow> 's \<Rightarrow> bool \<times> 's) \<Rightarrow> 'k list \<Rightarrow> 's \<Rightarrow> 's" where
  "range_loop f [] s = s"
| "range_loop f (k # ks) s = (let (go_on, s') = f k s in if go_on then range_loop f ks s' else s')"

lemma range_order_finite: "range_order m ks \<Longrightarrow> finite (dom m)"
  unfolding range_order_def by (metis List.finite_set)

lemma range_order_length: "range_order m ks \<Longrightarrow> length ks = card (dom m)"
  unfolding range_order_def by (metis distinct_card)

lemma range_order_exists: "finite (dom m) \<Longrightarrow> \<exists>ks. range_order m ks"
  unfolding range_order_def using finite_distinct_list by metis

lemma range_order_the: "range_order m ks \<Longrightarrow> k \<in> set ks \<Longrightarrow> m k = Some (the (m k))"
  unfolding range_order_def by auto

lemma range_loop_all:
  assumes "\<And>k s. fst (f k s)"
  shows "range_loop f ks s = fold (\<lambda>k s. snd (f k s)) ks s"
  using assms by (induction ks arbitrary: s) (auto simp: case_prod_beta Let_def)

text \<open>A range that stops at the first key whose body says so visits exactly the keys up to it.\<close>

lemma range_loop_stop:
  assumes "\<And>s. \<not> fst (f k s)" and "\<And>j s. j \<in> set ks1 \<Longrightarrow> fst (f j s)"
  shows "range_loop f (ks1 @ k # ks2) s = fold (\<lambda>k s. snd (f k s)) (ks1 @ [k]) s"
  using assms by (induction ks1 arbitrary: s) (auto simp: case_prod_beta Let_def)

subsection \<open>The locks of package sync\<close>

text \<open>
  \<open>sync.RWMutex\<close> as a count of readers and a writer flag; an operation that would have to wait is
  \<open>None\<close>.  \<open>sync.Mutex\<close> is the writer half of it.
\<close>

record rwmutex =
  rw_readers :: nat
  rw_writer :: bool

definition rw_free :: rwmutex where
  [lock_defs]: "rw_free = \<lparr>rw_readers = 0, rw_writer = False\<rparr>"

definition rw_RLock :: "rwmutex \<Rightarrow> rwmutex option" where
  [lock_defs]: "rw_RLock m =
     (if rw_writer m then None else Some (m\<lparr>rw_readers := Suc (rw_readers m)\<rparr>))"

definition rw_RUnlock :: "rwmutex \<Rightarrow> rwmutex" where
  [lock_defs]: "rw_RUnlock m = m\<lparr>rw_readers := rw_readers m - 1\<rparr>"

definition rw_Lock :: "rwmutex \<Rightarrow> rwmutex option" where
  [lock_defs]: "rw_Lock m =
     (if rw_writer m \<or> rw_readers m \<noteq> 0 then None else Some (m\<lparr>rw_writer := True\<rparr>))"

definition rw_Unlock :: "rwmutex \<Rightarrow> rwmutex" where
  [lock_defs]: "rw_Unlock m = m\<lparr>rw_writer := False\<rparr>"

lemma rw_Lock_Unlock: "rw_Lock m = Some m' \<Longrightarrow> rw_Unlock m' = m"
  by (cases m) (auto simp: lock_defs split: if_splits)

lemma rw_RLock_RUnlock: "rw_RLock m = Some m' \<Longrightarrow> rw_RUnlock m' = m"
  by (cases m) (auto simp: lock_defs split: if_splits)

end
