(* ===== verification/Coll_Funcs.thy ===== *)
theory Coll_Funcs
  imports Prelude
begin

text \<open>
  \<^verbatim>\<open>pkg/collection/funcs.go\<close> (\<^verbatim>\<open>FirstOrDefault\<close>, \<^verbatim>\<open>UnwrapError\<close>, \<^verbatim>\<open>JoinOf\<close>), \<^verbatim>\<open>pkg/convert/convert.go\<close>
  (\<^verbatim>\<open>SliceWithFn\<close>) and
  \<^verbatim>\<open>pkg/reflectutil\<close>'s \<^verbatim>\<open>FuncName\<close> (on the name the runtime reports).
\<close>

definition FirstOrDefault :: "'a list \<Rightarrow> 'a \<Rightarrow> 'a" where
  "FirstOrDefault ds df = (let d = df in if length ds > 0 then ds ! 0 else d)"

text \<open>
  \<^verbatim>\<open>errors.As\<close> with a target of an interface type finds the first error of the chain that implements
  it; only a joined error has \<^verbatim>\<open>Unwrap() []error\<close>, and the search stops there.
\<close>

fun as_multi :: "go_err \<Rightarrow> go_err list option" where
  "as_multi (Err m) = None"
| "as_multi (ErrWrap m e) = as_multi e"
| "as_multi (ErrJoin es) = Some es"

definition UnwrapError :: "go_err option \<Rightarrow> go_err option list" where
  "UnwrapError err =
     (let errorSlice = [err] in
      case err of
        None \<Rightarrow> errorSlice
      | Some e \<Rightarrow> (case as_multi e of None \<Rightarrow> errorSlice | Some es \<Rightarrow> map Some es))"

fun JoinOf_loop :: "nat \<Rightarrow> 'a list \<Rightarrow> string \<Rightarrow> ('a \<Rightarrow> string) \<Rightarrow> string \<Rightarrow> string" where
  "JoinOf_loop i [] sep fn b = b"
| "JoinOf_loop i (v # vs) sep fn b =
     (let b1 = (if i > 0 then b @ sep else b)
      in JoinOf_loop (Suc i) vs sep fn (b1 @ fn v))"

definition JoinOf :: "'a list \<Rightarrow> string \<Rightarrow> ('a \<Rightarrow> string) \<Rightarrow> string" where
  "JoinOf t sep fn = JoinOf_loop 0 t sep fn []"

fun SliceWithFn_loop :: "'a list \<Rightarrow> ('a \<Rightarrow> 'b) \<Rightarrow> 'b list \<Rightarrow> 'b list" where
  "SliceWithFn_loop [] fn t = t"
| "SliceWithFn_loop (ee # o') fn t = SliceWithFn_loop o' fn (t @ [fn ee])"

definition SliceWithFn :: "'a list \<Rightarrow> ('a \<Rightarrow> 'b) \<Rightarrow> 'b list" where
  "SliceWithFn xs fn = SliceWithFn_loop xs fn []"

text \<open>The separator stands between consecutive elements and nowhere else.\<close>

fun intersperse_concat :: "string \<Rightarrow> string list \<Rightarrow> string" where
  "intersperse_concat sep [] = []"
| "intersperse_concat sep [x] = x"
| "intersperse_concat sep (x # y # xs) = x @ sep @ intersperse_concat sep (y # xs)"

lemma JoinOf_loop_pos:
  "i > 0 \<Longrightarrow> JoinOf_loop i vs sep fn b = b @ concat (map (\<lambda>v. sep @ fn v) vs)"
  by (induction vs arbitrary: i b) auto

lemma intersperse_concat_Cons:
  "intersperse_concat sep (x # xs) = x @ concat (map (\<lambda>v. sep @ v) xs)"
  by (induction xs arbitrary: x) auto

lemma JoinOf_eq: "JoinOf t sep fn = intersperse_concat sep (map fn t)"
proof (cases t)
  case Nil
  then show ?thesis by (simp add: JoinOf_def)
next
  case (Cons v vs)
  then show ?thesis
    by (simp add: JoinOf_def JoinOf_loop_pos intersperse_concat_Cons comp_def)
qed

lemma SliceWithFn_loop_eq: "SliceWithFn_loop xs fn t = t @ map fn xs"
  by (induction xs arbitrary: t) auto

lemma SliceWithFn_eq: "SliceWithFn xs fn = map fn xs"
  by (simp add: SliceWithFn_def SliceWithFn_loop_eq)

lemma UnwrapError_Join:
  "UnwrapError (errors_Join es) =
     (if \<forall>e \<in> set es. e = None then [None] else filter (\<lambda>e. e \<noteq> None) es)"
proof (cases "errors_Join es")
  case None
  then show ?thesis
    using errors_Join_None_iff [of es] by (simp add: UnwrapError_def)
next
  case (Some e)
  then have "\<not> (\<forall>e \<in> set es. e = None)"
    using errors_Join_None_iff [of es] by simp
  moreover from Some have "e = ErrJoin (non_nil es)"
    by (auto simp: errors_Join_def split: list.splits)
  moreover have "map Some (non_nil es) = filter (\<lambda>e. e \<noteq> None) es"
    by (induction es rule: non_nil.induct) auto
  ultimately show ?thesis
    using Some by (simp add: UnwrapError_def)
qed

subsection \<open>\<^verbatim>\<open>pkg/reflectutil/reflectutil.go\<close>\<close>

text \<open>\<^verbatim>\<open>strings.LastIndex\<close> of a one-character separator.\<close>

fun LastIndex_from :: "int \<Rightarrow> int \<Rightarrow> string \<Rightarrow> char \<Rightarrow> int" where
  "LastIndex_from i best [] c = best"
| "LastIndex_from i best (x # xs) c = LastIndex_from (i + 1) (if x = c then i else best) xs c"

definition FuncName :: "string \<Rightarrow> string go" where
  "FuncName n =
     (let dot = LastIndex_from 0 (-1) n (CHR ''.'') in
      if dot > -1 then go_slice n (dot + 1) (int (length n)) else Inr n)"

lemma LastIndex_from_append:
  "LastIndex_from i best (xs @ ys) c =
     LastIndex_from (i + int (length xs)) (LastIndex_from i best xs c) ys c"
  by (induction xs arbitrary: i best) (auto simp: algebra_simps)

lemma LastIndex_from_absent: "c \<notin> set ys \<Longrightarrow> LastIndex_from i best ys c = best"
  by (induction ys arbitrary: i best) auto

subsection \<open>Properties\<close>

text \<open>Unwrapping what \<^verbatim>\<open>errors.Join\<close> made of a list of errors gives back its non-nil members, in order;
  of a list without any it gives the single nil error, not an empty slice.\<close>

theorem UnwrapError_of_Join:
  "UnwrapError (errors_Join es) =
     (if filter (\<lambda>e. e \<noteq> None) es = [] then [None] else filter (\<lambda>e. e \<noteq> None) es)"
  by (auto simp: UnwrapError_Join filter_empty_conv)

text \<open>The short name of a function is what follows the last dot of its full name, the whole name
  when it has no dot, and the slice expression that cuts it never panics.\<close>

theorem FuncName_last_segment:
  assumes "CHR ''.'' \<notin> set nm"
  shows "FuncName nm = Inr nm \<and> FuncName (pkg @ ''.'' @ nm) = Inr nm"
proof -
  have "LastIndex_from 0 (-1) (pkg @ ''.'' @ nm) (CHR ''.'') = int (length pkg)"
    by (simp add: LastIndex_from_append LastIndex_from_absent [OF assms])
  moreover have "nat (int (length pkg) + 1) = Suc (length pkg)" by simp
  ultimately show ?thesis
    by (simp add: LastIndex_from_absent [OF assms] FuncName_def go_slice_def Let_def)
qed

theorem FuncName_last_segment_witness:
  "FuncName ''main.(*T).Run'' = Inr ''Run''"
  using FuncName_last_segment [of "''Run''" "''main.(*T)''"] by simp

end
