(* ===== verification/Coll_Set.thy ===== *)
theory Coll_Set
  imports Prelude
begin

text \<open>
  \<^verbatim>\<open>pkg/collection/set.go\<close>: \<^verbatim>\<open>Set[T]\<close>, a \<^verbatim>\<open>map[T]void\<close>.  \<open>Values\<close> and \<open>Range\<close> take the order in which
  the runtime iterates as an argument, \<open>Values\<close> also the zero value of \<open>T\<close>.
\<close>

type_synonym 'a GoSet = "'a \<rightharpoonup> unit"

definition Set_Add :: "'a \<Rightarrow> 'a GoSet \<Rightarrow> 'a GoSet" where
  "Set_Add t s = s(t \<mapsto> ())"

fun NewSetFn_loop :: "'b list \<Rightarrow> ('b \<Rightarrow> 'a) \<Rightarrow> 'a GoSet \<Rightarrow> 'a GoSet" where
  "NewSetFn_loop [] fn s = s"
| "NewSetFn_loop (v # vs) fn s = NewSetFn_loop vs fn (Set_Add (fn v) s)"

definition NewSetFn :: "'b list \<Rightarrow> ('b \<Rightarrow> 'a) \<Rightarrow> 'a GoSet" where
  "NewSetFn values fn = NewSetFn_loop values fn Map.empty"

definition NewSet :: "'a list \<Rightarrow> 'a GoSet" where
  "NewSet values = NewSetFn values (\<lambda>v. v)"

definition Set_Has :: "'a \<Rightarrow> 'a GoSet \<Rightarrow> bool" where
  "Set_Has t s = (case s t of None \<Rightarrow> False | Some _ \<Rightarrow> True)"

definition Set_Delete :: "'a \<Rightarrow> 'a GoSet \<Rightarrow> bool \<times> 'a GoSet" where
  "Set_Delete t s = (let r = Set_Has t s in (r, s(t := None)))"

definition Set_Size :: "'a GoSet \<Rightarrow> nat" where
  "Set_Size s = card (dom s)"

definition Set_Range :: "'a GoSet \<Rightarrow> 'a list \<Rightarrow> ('a \<Rightarrow> 's \<Rightarrow> bool \<times> 's) \<Rightarrow> 's \<Rightarrow> 's" where
  "Set_Range s ks fn st = range_loop fn ks st"

definition Set_Values :: "'a GoSet \<Rightarrow> 'a list \<Rightarrow> 'a \<Rightarrow> 'a list go" where
  "Set_Values s ks z =
     go_bind (go_make (int (Set_Size s)) z) (\<lambda>vals0.
       fst (Set_Range s ks
              (\<lambda>t (vals, i). (True, (go_bind vals (\<lambda>vs. go_set vs i t), i + 1)))
              (Inr vals0, 0)))"

lemma NewSetFn_loop_dom: "dom (NewSetFn_loop vs fn s) = dom s \<union> fn ` set vs"
  by (induction vs arbitrary: s) (auto simp: Set_Add_def)

lemma dom_NewSetFn: "dom (NewSetFn vs fn) = fn ` set vs"
  by (simp add: NewSetFn_def NewSetFn_loop_dom)

lemma Set_Has_iff: "Set_Has t s \<longleftrightarrow> t \<in> dom s"
  by (auto simp: Set_Has_def split: option.splits)

lemma Values_fill:
  assumes "length pre = j" and "length ks \<le> length rest"
  shows "fold (\<lambda>t (vals, i). (go_bind vals (\<lambda>vs. go_set vs i t), i + 1)) ks (Inr (pre @ rest), int j)
       = (Inr (pre @ ks @ drop (length ks) rest), int (j + length ks))"
  using assms
proof (induction ks arbitrary: pre rest j)
  case Nil
  then show ?case by simp
next
  case (Cons k ks)
  then obtain r rest' where rest: "rest = r # rest'"
    by (cases rest) auto
  have set1: "go_set (pre @ rest) (int j) k = Inr ((pre @ [k]) @ rest')"
    using Cons.prems rest by (simp add: go_set_def list_update_append)
  have "fold (\<lambda>t (vals, i). (go_bind vals (\<lambda>vs. go_set vs i t), i + 1)) ks
          (Inr ((pre @ [k]) @ rest'), int (Suc j))
      = (Inr ((pre @ [k]) @ ks @ drop (length ks) rest'), int (Suc j + length ks))"
    by (rule Cons.IH) (use Cons.prems rest in auto)
  then show ?case
    using set1 rest by (simp add: add.commute)
qed

text \<open>The loop of \<open>Values\<close> never indexes out of range, and leaves no zero value behind.\<close>

lemma Set_Values_order:
  assumes "range_order s ks"
  shows "Set_Values s ks z = Inr ks"
proof -
  have len: "length ks = Set_Size s"
    using range_order_length [OF assms] by (simp add: Set_Size_def)
  have "fold (\<lambda>t (vals, i). (go_bind vals (\<lambda>vs. go_set vs i t), i + 1)) ks
          (Inr (replicate (Set_Size s) z), 0) = (Inr ks, int (length ks))"
    using Values_fill [of "[]" 0 ks "replicate (Set_Size s) z"] len by simp
  then show ?thesis
    by (simp add: Set_Values_def Set_Range_def go_make_def range_loop_all case_prod_unfold)
qed

lemma NewSet_order:
  assumes "range_order (NewSet xs) ks"
  shows "Set_Values (NewSet xs) ks z = Inr ks \<and> set ks = set xs \<and> distinct ks"
  using assms Set_Values_order [OF assms]
  by (simp add: NewSet_def dom_NewSetFn range_order_def)

text \<open>A set built from a list of values (with repetitions or not) holds exactly the values of the list;
  \<^verbatim>\<open>Values\<close> lists each of them once, in the runtime's iteration order, its index never leaves the slice
  it allocates, and \<^verbatim>\<open>Size\<close> is the number of different values.\<close>

theorem NewSetFn_Values:
  assumes "range_order (NewSetFn xs fn) ks"
  shows "Set_Values (NewSetFn xs fn) ks z = Inr ks \<and> set ks = fn ` set xs \<and> distinct ks \<and>
         Set_Size (NewSetFn xs fn) = card (fn ` set xs) \<and>
         (\<forall>t. Set_Has t (NewSetFn xs fn) = (t \<in> fn ` set xs))"
  using assms Set_Values_order [OF assms]
  by (simp add: dom_NewSetFn range_order_def Set_Size_def Set_Has_iff)

theorem NewSetFn_Values_witness:
  "Set_Values (NewSetFn [3, 1, 3 :: int] (\<lambda>x. x + 1)) [2, 4] 0 = Inr [2, 4]"
proof -
  have "range_order (NewSetFn [3, 1, 3 :: int] (\<lambda>x. x + 1)) [2, 4]"
    by (auto simp: range_order_def dom_NewSetFn)
  from NewSetFn_Values [OF this] show ?thesis by blast
qed

end
