(* ===== verification/KV_Interface.thy ===== *)
theory KV_Interface
  imports Prelude
begin

text \<open>
  The contracts the containers of \<^verbatim>\<open>pkg/collection\<close> and the cache share, as locales.  \<open>kv_store\<close> is a
  key/value store seen through a lookup function; \<open>fifo\<close> is a queue seen as the list of its
  elements.  Each is interpreted on the model's own operations in the theory of the component that
  provides it.
\<close>

datatype ('k, 'v) kv_op = KvStore 'k 'v | KvDelete 'k

fun kv_spec :: "('k, 'v) kv_op \<Rightarrow> ('k \<rightharpoonup> 'v) \<Rightarrow> ('k \<rightharpoonup> 'v)" where
  "kv_spec (KvStore k v) m = m(k \<mapsto> v)"
| "kv_spec (KvDelete k) m = m(k := None)"

locale kv_store =
  fixes lookup :: "'s \<Rightarrow> 'k \<Rightarrow> 'v option"
    and store :: "'k \<Rightarrow> 'v \<Rightarrow> 's \<Rightarrow> 's"
    and delete :: "'k \<Rightarrow> 's \<Rightarrow> 's"
    and inv :: "'s \<Rightarrow> bool"
  assumes lookup_store: "inv s \<Longrightarrow> lookup (store k v s) = (lookup s)(k \<mapsto> v)"
    and lookup_delete: "inv s \<Longrightarrow> lookup (delete k s) = (lookup s)(k := None)"
    and inv_store: "inv s \<Longrightarrow> inv (store k v s)"
    and inv_delete: "inv s \<Longrightarrow> inv (delete k s)"
begin

definition apply_op :: "('k, 'v) kv_op \<Rightarrow> 's \<Rightarrow> 's" where
  "apply_op c s = (case c of KvStore k v \<Rightarrow> store k v s | KvDelete k \<Rightarrow> delete k s)"

lemma apply_op_refines: "inv s \<Longrightarrow> lookup (apply_op c s) = kv_spec c (lookup s) \<and> inv (apply_op c s)"
  by (cases c) (simp_all add: apply_op_def lookup_store lookup_delete inv_store inv_delete)

lemma run_refines: "inv s \<Longrightarrow> lookup (fold apply_op cs s) = fold kv_spec cs (lookup s)"
  by (induction cs arbitrary: s) (simp_all add: apply_op_refines)

lemma run_inv: "inv s \<Longrightarrow> inv (fold apply_op cs s)"
  by (induction cs arbitrary: s) (simp_all add: apply_op_refines)

lemma last_write_wins:
  assumes "inv s" and "\<And>c. c \<in> set cs \<Longrightarrow> (case c of KvStore k' v' \<Rightarrow> k' \<noteq> k | KvDelete k' \<Rightarrow> k' \<noteq> k)"
  shows "lookup (fold apply_op (KvStore k v # cs) s) k = Some v"
proof -
  have frame: "fold kv_spec cs m k = m k" for m
    using assms(2)
  proof (induction cs arbitrary: m)
    case (Cons c cs)
    have "kv_spec c m k = m k"
      using Cons.prems [of c] by (cases c) auto
    with Cons show ?case by simp
  qed simp
  show ?thesis
    by (simp only: run_refines [OF assms(1)]) (simp add: frame)
qed

end

locale fifo =
  fixes elems :: "'q \<Rightarrow> 'a list"
    and enq :: "'a \<Rightarrow> 'q \<Rightarrow> 'q"
    and deq_n :: "nat \<Rightarrow> 'q \<Rightarrow> 'a list \<times> 'q"
    and inv :: "'q \<Rightarrow> bool"
  assumes elems_enq: "inv q \<Longrightarrow> elems (enq x q) = elems q @ [x]"
    and deq_fst: "inv q \<Longrightarrow> fst (deq_n n q) = take n (elems q)"
    and deq_snd: "inv q \<Longrightarrow> elems (snd (deq_n n q)) = drop n (elems q)"
    and inv_enq: "inv q \<Longrightarrow> inv (enq x q)"
    and inv_deq: "inv q \<Longrightarrow> inv (snd (deq_n n q))"
begin

lemma enq_all: "inv q \<Longrightarrow> elems (fold enq xs q) = elems q @ xs \<and> inv (fold enq xs q)"
  by (induction xs arbitrary: q) (simp_all add: elems_enq inv_enq)

text \<open>Two batches taken one after the other are the one batch of their sizes' sum.\<close>

lemma deq_deq:
  assumes "inv q"
  shows "fst (deq_n m q) @ fst (deq_n n (snd (deq_n m q))) = fst (deq_n (m + n) q)"
    and "elems (snd (deq_n n (snd (deq_n m q)))) = elems (snd (deq_n (m + n) q))"
  using assms by (simp_all add: deq_fst deq_snd inv_deq take_add add.commute)

text \<open>What was queued comes out in order, after what was there.\<close>

lemma enq_deq:
  assumes "inv q" and "length (elems q) \<le> m"
  shows "fst (deq_n m (fold enq xs q)) = elems q @ take (m - length (elems q)) xs"
  using assms by (simp add: deq_fst enq_all)

end

end
