(* ===== verification/Coll_SyncMap.thy ===== *)
theory Coll_SyncMap
  imports KV_Interface
begin

text \<open>
  \<^verbatim>\<open>pkg/collection/syncmap.go\<close>: \<^verbatim>\<open>SyncMap\<close>, a map under a \<^verbatim>\<open>sync.RWMutex\<close>.  Every method takes the lock,
  works on the map and releases the lock on return (the deferred unlock).  \<open>None\<close> is a call that
  waits for ever: a method called by the goroutine that already holds the lock.
\<close>

record ('k, 'v) SyncMap =
  sm_lock :: rwmutex
  sm_map :: "'k \<rightharpoonup> 'v"

definition NewSyncMap :: "('k, 'v) SyncMap" where
  "NewSyncMap = \<lparr>sm_lock = rw_free, sm_map = Map.empty\<rparr>"

definition SyncMap_Swap :: "'k \<Rightarrow> 'v \<Rightarrow> ('k, 'v) SyncMap \<Rightarrow> ('k, 'v) SyncMap option" where
  "SyncMap_Swap k v s =
     (case rw_Lock (sm_lock s) of
        None \<Rightarrow> None
      | Some l \<Rightarrow>
          (let m1 = (sm_map s)(k := None);
               m2 = m1(k \<mapsto> v)
           in Some (s\<lparr>sm_map := m2, sm_lock := rw_Unlock l\<rparr>)))"

definition SyncMap_LoadOrStore ::
    "'k \<Rightarrow> 'v \<Rightarrow> ('k, 'v) SyncMap \<Rightarrow> ('k, 'v) SyncMap option \<times> 'v" where
  "SyncMap_LoadOrStore k v s =
     (case rw_Lock (sm_lock s) of
        None \<Rightarrow> (None, v)
      | Some l \<Rightarrow>
          (case sm_map s k of
             None \<Rightarrow> (Some (s\<lparr>sm_map := (sm_map s)(k \<mapsto> v), sm_lock := rw_Unlock l\<rparr>), v)
           | Some va \<Rightarrow> (Some (s\<lparr>sm_lock := rw_Unlock l\<rparr>), va)))"

definition SyncMap_Store :: "'k \<Rightarrow> 'v \<Rightarrow> ('k, 'v) SyncMap \<Rightarrow> ('k, 'v) SyncMap option" where
  "SyncMap_Store k v s = SyncMap_Swap k v s"

text \<open>\<open>Load\<close> answers the value, or the zero value \<open>z\<close>, and whether the key was present.\<close>

definition SyncMap_Load ::
    "'v \<Rightarrow> 'k \<Rightarrow> ('k, 'v) SyncMap \<Rightarrow> (('k, 'v) SyncMap \<times> 'v \<times> bool) option" where
  "SyncMap_Load z k s =
     (case rw_RLock (sm_lock s) of
        None \<Rightarrow> None
      | Some l \<Rightarrow>
          (let s' = s\<lparr>sm_lock := rw_RUnlock l\<rparr>
           in Some (case sm_map s k of None \<Rightarrow> (s', z, False) | Some v \<Rightarrow> (s', v, True))))"

definition SyncMap_Delete :: "'k \<Rightarrow> ('k, 'v) SyncMap \<Rightarrow> ('k, 'v) SyncMap option" where
  "SyncMap_Delete k s =
     (case rw_Lock (sm_lock s) of
        None \<Rightarrow> None
      | Some l \<Rightarrow> Some (s\<lparr>sm_map := (sm_map s)(k := None), sm_lock := rw_Unlock l\<rparr>))"

text \<open>
  \<open>Range\<close> holds the read lock while it calls \<open>f\<close>, which may itself use the map: \<open>f\<close> is a function of
  the map it is called on and of the rest of the world, \<open>None\<close> when the call never returns.
\<close>

fun SyncMap_Range_loop ::
    "('k \<Rightarrow> 'v \<Rightarrow> ('k, 'v) SyncMap \<times> 'w \<Rightarrow> (bool \<times> ('k, 'v) SyncMap \<times> 'w) option) \<Rightarrow>
     'k list \<Rightarrow> ('k, 'v) SyncMap \<times> 'w \<Rightarrow> (('k, 'v) SyncMap \<times> 'w) option" where
  "SyncMap_Range_loop f [] sw = Some sw"
| "SyncMap_Range_loop f (k # ks) sw =
     (case sm_map (fst sw) k of
        None \<Rightarrow> SyncMap_Range_loop f ks sw
      | Some v \<Rightarrow>
          (case f k v sw of
             None \<Rightarrow> None
           | Some (go_on, sw') \<Rightarrow> if \<not> go_on then Some sw' else SyncMap_Range_loop f ks sw'))"

definition SyncMap_Range ::
    "('k \<Rightarrow> 'v \<Rightarrow> ('k, 'v) SyncMap \<times> 'w \<Rightarrow> (bool \<times> ('k, 'v) SyncMap \<times> 'w) option) \<Rightarrow>
     'k list \<Rightarrow> ('k, 'v) SyncMap \<times> 'w \<Rightarrow> (('k, 'v) SyncMap \<times> 'w) option" where
  "SyncMap_Range f ks sw =
     (case rw_RLock (sm_lock (fst sw)) of
        None \<Rightarrow> None
      | Some l \<Rightarrow>
          (case SyncMap_Range_loop f ks ((fst sw)\<lparr>sm_lock := l\<rparr>, snd sw) of
             None \<Rightarrow> None
           | Some (s', w') \<Rightarrow> Some (s'\<lparr>sm_lock := rw_RUnlock (sm_lock s')\<rparr>, w')))"

text \<open>A map no goroutine holds: the state between two calls.\<close>

definition sm_idle :: "('k, 'v) SyncMap \<Rightarrow> bool" where
  "sm_idle s \<longleftrightarrow> sm_lock s = rw_free"

named_theorems syncmap_defs \<open>the methods of SyncMap\<close>

lemmas SyncMap_defs [syncmap_defs] =
  NewSyncMap_def SyncMap_Swap_def SyncMap_LoadOrStore_def SyncMap_Store_def SyncMap_Load_def
  SyncMap_Delete_def sm_idle_def

lemma SyncMap_Store_idle:
  "sm_idle s \<Longrightarrow> SyncMap_Store k v s = Some (s\<lparr>sm_map := (sm_map s)(k \<mapsto> v)\<rparr>)"
  by (cases s) (simp add: syncmap_defs lock_defs)

lemma SyncMap_Delete_idle:
  "sm_idle s \<Longrightarrow> SyncMap_Delete k s = Some (s\<lparr>sm_map := (sm_map s)(k := None)\<rparr>)"
  by (cases s) (simp add: syncmap_defs lock_defs)

lemma SyncMap_Load_idle:
  "sm_idle s \<Longrightarrow> SyncMap_Load z k s =
     Some (case sm_map s k of None \<Rightarrow> (s, z, False) | Some v \<Rightarrow> (s, v, True))"
  by (cases s) (auto simp: syncmap_defs lock_defs split: option.splits)

lemma SyncMap_LoadOrStore_idle:
  "sm_idle s \<Longrightarrow> SyncMap_LoadOrStore k v s =
     (case sm_map s k of
        None \<Rightarrow> (Some (s\<lparr>sm_map := (sm_map s)(k \<mapsto> v)\<rparr>), v)
      | Some va \<Rightarrow> (Some s, va))"
  by (cases s) (auto simp: syncmap_defs lock_defs split: option.splits)

text \<open>The sequential store: calls that find the lock free always return.\<close>

definition sm_lookup :: "('k, 'v) SyncMap \<Rightarrow> 'k \<Rightarrow> 'v option" where
  "sm_lookup s k =
     (case SyncMap_Load undefined k s of Some (_, v, True) \<Rightarrow> Some v | _ \<Rightarrow> None)"

definition sm_store :: "'k \<Rightarrow> 'v \<Rightarrow> ('k, 'v) SyncMap \<Rightarrow> ('k, 'v) SyncMap" where
  "sm_store k v s = the (SyncMap_Store k v s)"

definition sm_delete :: "'k \<Rightarrow> ('k, 'v) SyncMap \<Rightarrow> ('k, 'v) SyncMap" where
  "sm_delete k s = the (SyncMap_Delete k s)"

lemma sm_lookup_idle: "sm_idle s \<Longrightarrow> sm_lookup s = sm_map s"
  by (rule ext) (simp add: sm_lookup_def SyncMap_Load_idle split: option.splits)

interpretation sm: kv_store sm_lookup sm_store sm_delete sm_idle
proof unfold_locales
  fix s :: "('a, 'b) SyncMap" and k v
  assume idle: "sm_idle s"
  have upd: "sm_idle (s\<lparr>sm_map := m\<rparr>)" for m
    using idle by (simp add: sm_idle_def)
  show "sm_lookup (sm_store k v s) = (sm_lookup s)(k \<mapsto> v)"
    using idle upd by (simp add: sm_store_def SyncMap_Store_idle sm_lookup_idle)
  show "sm_lookup (sm_delete k s) = (sm_lookup s)(k := None)"
    using idle upd by (simp add: sm_delete_def SyncMap_Delete_idle sm_lookup_idle)
  show "sm_idle (sm_store k v s)"
    using idle upd by (simp add: sm_store_def SyncMap_Store_idle)
  show "sm_idle (sm_delete k s)"
    using idle upd by (simp add: sm_delete_def SyncMap_Delete_idle)
qed

text \<open>Re-entrance: a callback of \<open>Range\<close> may read the map, and waits for ever if it writes to it.\<close>

lemma Range_loop_reader:
  assumes "\<And>k v w. \<exists>w'. f k v (s, w) = Some (True, s, w')"
  shows "\<exists>w'. SyncMap_Range_loop f ks (s, w) = Some (s, w')"
proof (induction ks arbitrary: w)
  case (Cons k ks)
  show ?case
  proof (cases "sm_map s k")
    case (Some v)
    then show ?thesis using assms [of k v w] Cons.IH by auto
  qed (use Cons.IH in auto)
qed simp

lemma Store_under_read_lock:
  "rw_readers (sm_lock s) \<noteq> 0 \<Longrightarrow> SyncMap_Store k v s = None"
  by (simp add: SyncMap_Store_def SyncMap_Swap_def rw_Lock_def)

subsection \<open>Properties\<close>

text \<open>A sequence of calls by goroutines that release the lock between them.\<close>

fun SyncMap_run :: "('k, 'v) kv_op list \<Rightarrow> ('k, 'v) SyncMap \<Rightarrow> ('k, 'v) SyncMap option" where
  "SyncMap_run [] s = Some s"
| "SyncMap_run (KvStore k v # cs) s =
     (case SyncMap_Store k v s of None \<Rightarrow> None | Some s' \<Rightarrow> SyncMap_run cs s')"
| "SyncMap_run (KvDelete k # cs) s =
     (case SyncMap_Delete k s of None \<Rightarrow> None | Some s' \<Rightarrow> SyncMap_run cs s')"

lemma SyncMap_run_fold: "sm_idle s \<Longrightarrow> SyncMap_run cs s = Some (fold sm.apply_op cs s)"
proof (induction cs arbitrary: s)
  case (Cons c cs)
  have "SyncMap_Store k v s = Some (sm_store k v s)" "SyncMap_Delete k s = Some (sm_delete k s)" for k v
    using Cons.prems
    by (simp_all add: sm_store_def sm_delete_def SyncMap_Store_idle SyncMap_Delete_idle)
  then show ?case
    using Cons.IH sm.inv_store [OF Cons.prems] sm.inv_delete [OF Cons.prems]
    by (cases c) (simp_all add: sm.apply_op_def)
qed simp


text \<open>\<^verbatim>\<open>Range\<close> holds the read lock during its callbacks: with a callback that writes to the same map it
  never returns, as soon as the map has an entry; with one that only reads it returns and releases the
  lock.\<close>

theorem Range_callback_write_blocks:
  assumes "sm_idle s" and "ks \<noteq> []" and "set ks \<subseteq> dom (sm_map s)"
  shows "SyncMap_Range (\<lambda>k v (s1, w). map_option (\<lambda>s2. (True, s2, w)) (SyncMap_Store k v s1)) ks (s, w)
           = None \<and>
         SyncMap_Range (\<lambda>k v (s1, w). map_option (\<lambda>(s2, v2, ok). (True, s2, w))
           (SyncMap_Load v k s1)) ks (s, w) = Some (s, w)"
proof
  from assms obtain k ks' v where ks: "ks = k # ks'" and v: "sm_map s k = Some v"
    by (cases ks) auto
  then show "SyncMap_Range (\<lambda>k v (s1, w). map_option (\<lambda>s2. (True, s2, w)) (SyncMap_Store k v s1)) ks (s, w)
      = None"
    using assms(1)
    by (auto simp: SyncMap_Range_def sm_idle_def rw_free_def rw_RLock_def Store_under_read_lock)
  let ?l = "s\<lparr>sm_lock := \<lparr>rw_readers = 1, rw_writer = False\<rparr>\<rparr>"
  have load: "\<exists>v'. SyncMap_Load v k ?l = Some (?l, v', sm_map s k \<noteq> None)" for v k
    by (auto simp: SyncMap_Load_def lock_defs Let_def split: option.splits)
  have "SyncMap_Range_loop (\<lambda>k v (s1, w). map_option (\<lambda>(s2, v2, ok). (True, s2, w))
           (SyncMap_Load v k s1)) js (?l, w) = Some (?l, w)" for js
  proof (induction js)
    case (Cons j js)
    show ?case
    proof (cases "sm_map s j")
      case (Some v)
      with load [of v j] obtain v' where "SyncMap_Load v j ?l = Some (?l, v', True)" by auto
      with Some Cons.IH show ?thesis by simp
    qed (use Cons.IH in simp)
  qed simp
  then show "SyncMap_Range (\<lambda>k v (s1, w). map_option (\<lambda>(s2, v2, ok). (True, s2, w))
           (SyncMap_Load v k s1)) ks (s, w) = Some (s, w)"
    using assms(1) by (cases s) (simp add: SyncMap_Range_def sm_idle_def lock_defs)
qed

theorem Range_callback_write_blocks_witness:
  "SyncMap_Range (\<lambda>k v (s1, w). map_option (\<lambda>s2. (True, s2, w)) (SyncMap_Store k v s1)) [1]
     (\<lparr>sm_lock = rw_free, sm_map = [1 :: nat \<mapsto> True]\<rparr>, ()) = None"
  using Range_callback_write_blocks [of "\<lparr>sm_lock = rw_free, sm_map = [1 :: nat \<mapsto> True]\<rparr>" "[1]" "()"]
  by (simp add: sm_idle_def)

end
