(* ===== verification/Coll_SyncQueue.thy ===== *)
theory Coll_SyncQueue
  imports KV_Interface
begin

text \<open>
  \<^verbatim>\<open>pkg/collection/syncqueue.go\<close>: \<^verbatim>\<open>SyncQueue\<close>, a slice under a \<^verbatim>\<open>sync.Mutex\<close>.  A method's critical
  section is a function of the slice (\<open>*_body\<close>), run between \<open>Lock\<close> and the deferred \<open>Unlock\<close>, which
  is also executed when the body panics.  \<open>DequeueAll\<close> and \<open>Peek\<close> take the lock twice; the last
  part models what other goroutines may do between their two critical sections.
\<close>

record 'a SyncQueue =
  sq_data :: "'a list"
  sq_mutex :: rwmutex

definition NewSyncQueue :: "'a SyncQueue" where
  "NewSyncQueue = \<lparr>sq_data = [], sq_mutex = rw_free\<rparr>"

definition sq_section ::
    "('a list \<Rightarrow> 'a list \<times> 'r go) \<Rightarrow> 'a SyncQueue \<Rightarrow> ('a SyncQueue \<times> 'r go) option" where
  "sq_section body s =
     (case rw_Lock (sq_mutex s) of
        None \<Rightarrow> None
      | Some m \<Rightarrow>
          (case body (sq_data s) of
             (d, r) \<Rightarrow> Some (s\<lparr>sq_data := d, sq_mutex := rw_Unlock m\<rparr>, r)))"

definition Queue_body :: "'a \<Rightarrow> 'a list \<Rightarrow> 'a list \<times> unit go" where
  "Queue_body t data = (data @ [t], Inr ())"

definition Dequeue_body :: "'a list \<Rightarrow> 'a list \<times> 'a go" where
  "Dequeue_body data =
     (case go_index data 0 of
        Inl p \<Rightarrow> (data, Inl p)
      | Inr d \<Rightarrow>
          (case go_slice data 1 (int (length data)) of
             Inl p \<Rightarrow> (data, Inl p)
           | Inr data' \<Rightarrow> (data', Inr d)))"

definition DequeueN_body :: "'a \<Rightarrow> int \<Rightarrow> 'a list \<Rightarrow> 'a list \<times> 'a list go" where
  "DequeueN_body z n0 data =
     (let n = (if n0 > int (length data) then int (length data) else n0) in
      case go_make n z of
        Inl p \<Rightarrow> (data, Inl p)
      | Inr newq0 \<Rightarrow>
          (let newq = go_copy newq0 data in
           if n > int (length data) then ([], Inr newq)
           else (case go_slice data n (int (length data)) of
                   Inl p \<Rightarrow> (data, Inl p)
                 | Inr data' \<Rightarrow> (data', Inr newq))))"

definition PeekSlice_body :: "'a \<Rightarrow> int \<Rightarrow> 'a list \<Rightarrow> 'a list \<times> 'a list go" where
  "PeekSlice_body z n0 data =
     (if n0 < -1 then (data, Inr [])
      else
        (let n1 = (if n0 = -1 then int (length data) else n0);
             n = (if n1 > int (length data) then int (length data) else n1)
         in case go_make n z of
              Inl p \<Rightarrow> (data, Inl p)
            | Inr newq \<Rightarrow> (data, Inr (go_copy newq data))))"

definition Size_body :: "'a list \<Rightarrow> 'a list \<times> int go" where
  "Size_body data = (data, Inr (int (length data)))"

definition Clear_body :: "'a list \<Rightarrow> 'a list \<times> unit go" where
  "Clear_body data = ([], Inr ())"

definition SyncQueue_Queue :: "'a \<Rightarrow> 'a SyncQueue \<Rightarrow> ('a SyncQueue \<times> unit go) option" where
  "SyncQueue_Queue t s = sq_section (Queue_body t) s"

definition SyncQueue_Dequeue :: "'a SyncQueue \<Rightarrow> ('a SyncQueue \<times> 'a go) option" where
  "SyncQueue_Dequeue s = sq_section Dequeue_body s"

definition SyncQueue_DequeueN :: "'a \<Rightarrow> int \<Rightarrow> 'a SyncQueue \<Rightarrow> ('a SyncQueue \<times> 'a list go) option" where
  "SyncQueue_DequeueN z n s = sq_section (DequeueN_body z n) s"

definition SyncQueue_PeekSlice :: "'a \<Rightarrow> int \<Rightarrow> 'a SyncQueue \<Rightarrow> ('a SyncQueue \<times> 'a list go) option" where
  "SyncQueue_PeekSlice z n s = sq_section (PeekSlice_body z n) s"

definition SyncQueue_Size :: "'a SyncQueue \<Rightarrow> ('a SyncQueue \<times> int go) option" where
  "SyncQueue_Size s = sq_section Size_body s"

definition SyncQueue_Clear :: "'a SyncQueue \<Rightarrow> ('a SyncQueue \<times> unit go) option" where
  "SyncQueue_Clear s = sq_section Clear_body s"

definition SyncQueue_DequeueAll :: "'a \<Rightarrow> 'a SyncQueue \<Rightarrow> ('a SyncQueue \<times> 'a list go) option" where
  "SyncQueue_DequeueAll z s =
     (case SyncQueue_Size s of
        None \<Rightarrow> None
      | Some (s1, Inl p) \<Rightarrow> Some (s1, Inl p)
      | Some (s1, Inr n) \<Rightarrow> SyncQueue_DequeueN z n s1)"

definition SyncQueue_Peek :: "'a \<Rightarrow> 'a SyncQueue \<Rightarrow> ('a SyncQueue \<times> 'a go) option" where
  "SyncQueue_Peek z s =
     (case SyncQueue_Size s of
        None \<Rightarrow> None
      | Some (s1, Inl p) \<Rightarrow> Some (s1, Inl p)
      | Some (s1, Inr n) \<Rightarrow>
          (if n = 0 then Some (s1, Inr z)
           else (case SyncQueue_PeekSlice z 1 s1 of
                   None \<Rightarrow> None
                 | Some (s2, r) \<Rightarrow> Some (s2, go_bind r (\<lambda>xs. go_index xs 0)))))"

named_theorems queue_bodies \<open>the critical sections of SyncQueue\<close>

lemmas SyncQueue_bodies [queue_bodies] =
  Queue_body_def Dequeue_body_def DequeueN_body_def PeekSlice_body_def Size_body_def Clear_body_def

definition sq_idle :: "'a SyncQueue \<Rightarrow> bool" where
  "sq_idle s \<longleftrightarrow> sq_mutex s = rw_free"

lemma sq_section_idle:
  "sq_idle s \<Longrightarrow> sq_section body s = Some (s\<lparr>sq_data := fst (body (sq_data s))\<rparr>, snd (body (sq_data s)))"
  by (cases s) (simp add: sq_section_def sq_idle_def lock_defs split_beta)

subsection \<open>What each critical section does\<close>

lemma Dequeue_Nil [simp]: "Dequeue_body [] = ([], Inl IndexOutOfRange)"
  by (simp add: Dequeue_body_def go_index_def)

lemma Dequeue_Cons [simp]: "Dequeue_body (x # xs) = (xs, Inr x)"
  by (simp add: Dequeue_body_def go_index_def go_slice_def)

lemma DequeueN_eq:
  "DequeueN_body z n data =
     (if n < 0 then (data, Inl MakeSliceLen) else (drop (nat n) data, Inr (take (nat n) data)))"
proof (cases "n < 0")
  case True
  then show ?thesis by (simp add: DequeueN_body_def go_make_def)
next
  case False
  then show ?thesis
    by (cases "int (length data) < n")
       (auto simp: DequeueN_body_def go_make_def go_slice_def go_copy_replicate Let_def)
qed

lemma PeekSlice_eq:
  "PeekSlice_body z n data =
     (data, Inr (if n < -1 then [] else if n = -1 then data else take (nat n) data))"
  by (auto simp: PeekSlice_body_def go_make_def go_copy_replicate Let_def)

subsection \<open>The queue contract\<close>

text \<open>The sequential view: calls that find the mutex free.\<close>

definition sq_enq :: "'a \<Rightarrow> 'a SyncQueue \<Rightarrow> 'a SyncQueue" where
  "sq_enq x s = fst (the (SyncQueue_Queue x s))"

definition sq_deq_n :: "nat \<Rightarrow> 'a SyncQueue \<Rightarrow> 'a list \<times> 'a SyncQueue" where
  "sq_deq_n n s =
     (case the (SyncQueue_DequeueN undefined (int n) s) of
        (s', Inr xs) \<Rightarrow> (xs, s')
      | (s', Inl p) \<Rightarrow> ([], s'))"

lemma sq_deq_n_idle:
  "sq_idle s \<Longrightarrow> sq_deq_n n s = (take n (sq_data s), s\<lparr>sq_data := drop n (sq_data s)\<rparr>)"
  by (simp add: sq_deq_n_def SyncQueue_DequeueN_def sq_section_idle DequeueN_eq)

lemma sq_enq_idle:
  "sq_idle s \<Longrightarrow> sq_enq x s = s\<lparr>sq_data := sq_data s @ [x]\<rparr>"
  by (simp add: sq_enq_def SyncQueue_Queue_def sq_section_idle Queue_body_def)

interpretation sq: fifo sq_data sq_enq sq_deq_n sq_idle
  by unfold_locales (simp_all add: sq_enq_idle sq_deq_n_idle sq_idle_def)

lemma DequeueAll_idle:
  "sq_idle s \<Longrightarrow> SyncQueue_DequeueAll z s = Some (s\<lparr>sq_data := []\<rparr>, Inr (sq_data s))"
  by (simp add: SyncQueue_DequeueAll_def SyncQueue_Size_def SyncQueue_DequeueN_def sq_section_idle
      Size_body_def DequeueN_eq sq_idle_def)

lemma Peek_idle:
  "sq_idle s \<Longrightarrow> SyncQueue_Peek z s = Some (s, Inr (case sq_data s of [] \<Rightarrow> z | x # _ \<Rightarrow> x))"
  by (cases s; cases "sq_data s")
     (simp_all add: SyncQueue_Peek_def SyncQueue_Size_def SyncQueue_PeekSlice_def sq_section_idle
      Size_body_def PeekSlice_eq sq_idle_def go_index_def)

subsection \<open>Interleaving\<close>

text \<open>
  One step of another goroutine between two critical sections: any complete critical section of the
  queue.  \<open>others data data'\<close> relates the slices before and after; \<open>others_queue\<close> allows \<open>Queue\<close> only.
\<close>

inductive others :: "'a list \<Rightarrow> 'a list \<Rightarrow> bool" where
  others_Queue: "others data (fst (Queue_body t data))"
| others_Dequeue: "others data (fst (Dequeue_body data))"
| others_DequeueN: "others data (fst (DequeueN_body z n data))"
| others_Clear: "others data (fst (Clear_body data))"

inductive others_queue :: "'a list \<Rightarrow> 'a list \<Rightarrow> bool" where
  others_queue: "others_queue data (fst (Queue_body t data))"

text \<open>
  \<open>Peek\<close> and \<open>DequeueAll\<close> as programs of two critical sections: \<open>peek_run env z d d' r\<close> relates the
  slice when \<open>Peek\<close> is called, the slice when it returns, and its result, when the other goroutines
  take the steps \<open>env\<close> before, between and after its critical sections.
\<close>

inductive peek_run ::
    "('a list \<Rightarrow> 'a list \<Rightarrow> bool) \<Rightarrow> 'a \<Rightarrow> 'a list \<Rightarrow> 'a list \<Rightarrow> 'a go \<Rightarrow> bool"
  for env z where
  peek_empty: "env\<^sup>*\<^sup>* d d1 \<Longrightarrow> snd (Size_body d1) = Inr 0 \<Longrightarrow> env\<^sup>*\<^sup>* d1 d2 \<Longrightarrow>
     peek_run env z d d2 (Inr z)"
| peek_head: "env\<^sup>*\<^sup>* d d1 \<Longrightarrow> snd (Size_body d1) = Inr n \<Longrightarrow> n \<noteq> 0 \<Longrightarrow> env\<^sup>*\<^sup>* d1 d2 \<Longrightarrow>
     PeekSlice_body z 1 d2 = (d3, r) \<Longrightarrow> env\<^sup>*\<^sup>* d3 d4 \<Longrightarrow>
     peek_run env z d d4 (go_bind r (\<lambda>xs. go_index xs 0))"

inductive dequeueAll_run ::
    "('a list \<Rightarrow> 'a list \<Rightarrow> bool) \<Rightarrow> 'a \<Rightarrow> 'a list \<Rightarrow> 'a list \<Rightarrow> 'a list go \<Rightarrow> bool"
  for env z where
  dequeueAll: "env\<^sup>*\<^sup>* d d1 \<Longrightarrow> snd (Size_body d1) = Inr n \<Longrightarrow> env\<^sup>*\<^sup>* d1 d2 \<Longrightarrow>
     DequeueN_body z n d2 = (d3, r) \<Longrightarrow> env\<^sup>*\<^sup>* d3 d4 \<Longrightarrow> dequeueAll_run env z d d4 r"

inductive_cases peek_runE: "peek_run env z d d' r"
inductive_cases dequeueAll_runE: "dequeueAll_run env z d d' r"

lemma others_queue_prefix: "others_queue\<^sup>*\<^sup>* d d' \<Longrightarrow> \<exists>xs. d' = d @ xs"
proof (induction rule: rtranclp_induct)
  case (step y z)
  then show ?case by (auto simp: Queue_body_def elim!: others_queue.cases)
qed simp

lemma dequeueAll_no_panic: "dequeueAll_run env z d d' r \<Longrightarrow> \<exists>xs. r = Inr xs"
  by (auto elim!: dequeueAll_runE simp: Size_body_def DequeueN_eq)

lemma dequeueAll_queue_only:
  assumes "dequeueAll_run others_queue z d d' r"
  shows "\<exists>xs ys. r = Inr (d @ xs) \<and> d' = ys"
proof -
  from assms obtain d1 d2 d3 n where
    e1: "others_queue\<^sup>*\<^sup>* d d1" and n: "snd (Size_body d1) = Inr n" and
    e2: "others_queue\<^sup>*\<^sup>* d1 d2" and dq: "DequeueN_body z n d2 = (d3, r)"
    by (auto elim: dequeueAll_runE)
  from others_queue_prefix [OF e1] others_queue_prefix [OF e2] n dq show ?thesis
    by (auto simp: Size_body_def DequeueN_eq)
qed

lemma peek_queue_only:
  assumes "peek_run others_queue z d d' r"
  shows "r \<noteq> Inl p"
  using assms
proof (cases rule: peek_run.cases)
  case (peek_head d1 n d2 d3 r')
  from others_queue_prefix [OF peek_head(5)] peek_head show ?thesis
    by (cases d1) (auto simp: Size_body_def PeekSlice_eq go_index_def)
qed simp

lemma peek_race:
  "peek_run others z [x] [] (Inl IndexOutOfRange)"
proof -
  have "others\<^sup>*\<^sup>* [x] []"
    using others_Dequeue [of "[x]"] by auto
  then have "peek_run others z [x] [] (go_bind (Inr []) (\<lambda>xs. go_index xs 0))"
    by (intro peek_head [of others "[x]" "[x]" 1 "[]" z "[]" "Inr []"])
       (auto simp: Size_body_def PeekSlice_eq)
  then show ?thesis by (simp add: go_index_def)
qed

subsection \<open>Properties\<close>



text \<open>\<^verbatim>\<open>Peek\<close> reads the size and the head in two critical sections.  While other goroutines only add
  elements it does not panic; but a \<^verbatim>\<open>Dequeue\<close> between the two makes it index an empty slice and panic.\<close>

theorem Peek_concurrent:
  "(\<forall>d d' p. \<not> peek_run others_queue z d d' (Inl p)) \<and>
   peek_run others z [x] [] (Inl IndexOutOfRange)"
  using peek_queue_only [of z] peek_race [of z x] by blast

end
