(* ===== verification/Bytes.thy ===== *)
theory Bytes
  imports Prelude "HOL-Library.List_Lexorder" "HOL-Library.Sublist"
begin

text \<open>
  Bytes and Go strings.  A Go string is a sequence of bytes, which is what HOL's \<open>string\<close> is (a
  \<open>char\<close> has eight bits); a \<^verbatim>\<open>[]byte\<close> is a list of 8-bit words.  Byte slices are compared as
  \<^verbatim>\<open>bytes.Compare\<close> does, lexicographically by unsigned value: the order \<open>HOL-Library.List_Lexorder\<close>
  puts on lists.
\<close>

type_synonym byte = "8 word"
type_synonym bytes = "byte list"

definition byte_of :: "char \<Rightarrow> byte" where
  "byte_of c = word_of_nat (of_char c)"

definition char_of_byte :: "byte \<Rightarrow> char" where
  "char_of_byte w = char_of (unat w)"

definition bytes_of :: "string \<Rightarrow> bytes" where
  "bytes_of s = map byte_of s"

definition string_of :: "bytes \<Rightarrow> string" where
  "string_of b = map char_of_byte b"

lemma char_of_byte_of [simp]: "char_of_byte (byte_of c) = c"
proof -
  have "of_char c < (256 :: nat)" by (rule nat_of_char_less_256)
  then show ?thesis
    by (simp add: char_of_byte_def byte_of_def unat_of_nat)
qed

lemma byte_of_char_of [simp]: "byte_of (char_of_byte w) = w"
proof -
  have "unat w < 256" using unsigned_less [of w] by simp
  then show ?thesis
    by (simp add: char_of_byte_def byte_of_def)
qed

lemma byte_of_inj [simp]: "byte_of c = byte_of d \<longleftrightarrow> c = d"
  by (metis char_of_byte_of)

lemma bytes_of_Nil [simp]: "bytes_of [] = []"
  by (simp add: bytes_of_def)

lemma bytes_of_Cons: "bytes_of (c # s) = byte_of c # bytes_of s"
  by (simp add: bytes_of_def)

lemma bytes_of_append [simp]: "bytes_of (s @ t) = bytes_of s @ bytes_of t"
  by (simp add: bytes_of_def)

lemma string_of_bytes_of [simp]: "string_of (bytes_of s) = s"
  by (simp add: string_of_def bytes_of_def comp_def)

lemma bytes_of_string_of [simp]: "bytes_of (string_of b) = b"
  by (simp add: string_of_def bytes_of_def comp_def)

lemma bytes_of_inj [simp]: "bytes_of s = bytes_of t \<longleftrightarrow> s = t"
  by (metis string_of_bytes_of)

lemma length_bytes_of [simp]: "length (bytes_of s) = length s"
  by (simp add: bytes_of_def)

subsection \<open>Order facts\<close>

lemma append_le_append_iff [simp]: "(xs @ ys \<le> xs @ zs) = (ys \<le> (zs :: 'a::linorder list))"
  by (induction xs) auto

lemma append_less_append_iff [simp]: "(xs @ ys < xs @ zs) = (ys < (zs :: 'a::linorder list))"
  by (induction xs) auto

lemma le_append [simp]: "(xs :: 'a::linorder list) \<le> xs @ ys"
  by (induction xs) auto

lemma prefix_imp_le: "prefix p k \<Longrightarrow> (p :: 'a::linorder list) \<le> k"
  by (auto simp: prefix_def)

lemma byte_less_Suc_iff: "(x :: byte) + 1 \<noteq> 0 \<Longrightarrow> y < x + 1 \<longleftrightarrow> y \<le> x"
  using unatSuc [of x] by (simp add: add.commute word_less_nat_alt word_le_nat_alt less_Suc_eq_le)

end
