(* ===== verification/Database.thy ===== *)
theory Database
  imports Bytes
begin

text \<open>
  \<^verbatim>\<open>pkg/database\<close>: tables over the Pebble key/value store.  Pebble itself (\<^verbatim>\<open>github.com/cockroachdb/pebble\<close>)
  is not part of the repository: its operations are a parameter, the record \<open>pebble\<close>, and what its
  documentation promises is the predicate \<open>pebble_ok\<close>, a hypothesis of the theorems that need it.
  \<open>mem_pebble\<close>, a sorted association list, satisfies it and serves the witnesses.
  The marshaller of a table (interface \<^verbatim>\<open>Marshaler\<close>) and the \<^verbatim>\<open>encoding/gob\<close> codec are parameters too.
\<close>

subsection \<open>The store the tables are built on\<close>

text \<open>
  \<open>pb_get\<close> answers the value and the result of the closer's \<open>Close\<close>; \<open>pb_iter lo hi\<close> answers the
  sequence of pairs the iterator's \<open>First\<close>/\<open>Next\<close> loop delivers while it is \<open>Valid\<close>, and the result
  of its \<open>Close\<close>.  An upper bound \<open>None\<close> is Pebble's nil bound.
\<close>

record 'db pebble =
  pb_ErrNotFound :: go_err
  pb_open :: "string \<Rightarrow> bool \<Rightarrow> go_err + 'db"
  pb_close :: "'db \<Rightarrow> go_err option"
  pb_set :: "bytes \<Rightarrow> bytes \<Rightarrow> 'db \<Rightarrow> go_err option \<times> 'db"
  pb_delete :: "bytes \<Rightarrow> 'db \<Rightarrow> go_err option \<times> 'db"
  pb_get :: "bytes \<Rightarrow> 'db \<Rightarrow> go_err + bytes \<times> go_err option"
  pb_iter :: "bytes \<Rightarrow> bytes option \<Rightarrow> 'db \<Rightarrow> go_err + (bytes \<times> bytes) list \<times> go_err option"

definition in_bounds :: "bytes \<Rightarrow> bytes option \<Rightarrow> bytes \<Rightarrow> bool" where
  "in_bounds lo hi k \<longleftrightarrow> lo \<le> k \<and> (case hi of None \<Rightarrow> True | Some h \<Rightarrow> k < h)"

text \<open>
  The documented behaviour: an operation that reports success did what it says on the map \<open>cont db\<close>
  of keys to values, a read reports what is there, and an iterator that closes without error has
  delivered the pairs within its bounds in key order.  Nothing is said of operations that fail.
\<close>

definition pebble_ok :: "'db pebble \<Rightarrow> ('db \<Rightarrow> bytes \<rightharpoonup> bytes) \<Rightarrow> ('db \<Rightarrow> bool) \<Rightarrow> bool" where
  "pebble_ok P cont wfd \<longleftrightarrow>
     (\<forall>k v db db'. wfd db \<longrightarrow> pb_set P k v db = (None, db') \<longrightarrow>
        wfd db' \<and> cont db' = (cont db)(k \<mapsto> v)) \<and>
     (\<forall>k db db'. wfd db \<longrightarrow> pb_delete P k db = (None, db') \<longrightarrow>
        wfd db' \<and> cont db' = (cont db)(k := None)) \<and>
     (\<forall>k db v c. wfd db \<longrightarrow> pb_get P k db = Inr (v, c) \<longrightarrow> cont db k = Some v) \<and>
     (\<forall>k db e. wfd db \<longrightarrow> pb_get P k db = Inl e \<longrightarrow> errors_Is (Some e) (pb_ErrNotFound P) \<longrightarrow>
        cont db k = None) \<and>
     (\<forall>lo hi db kvs. wfd db \<longrightarrow> pb_iter P lo hi db = Inr (kvs, None) \<longrightarrow>
        sorted_wrt (<) (map fst kvs) \<and>
        set kvs = {(k, v). cont db k = Some v \<and> in_bounds lo hi k})"

subsection \<open>\<^verbatim>\<open>database.go\<close>\<close>

record Option =
  InMemory :: bool

definition Database_Open :: "'db pebble \<Rightarrow> string \<Rightarrow> Option \<Rightarrow> go_err + 'db" where
  "Database_Open P path ops =
     (case pb_open P path (InMemory ops) of
        Inl err \<Rightarrow> Inl err
      | Inr db \<Rightarrow> Inr db)"

definition Database_Close :: "'db pebble \<Rightarrow> 'db \<Rightarrow> go_err option" where
  "Database_Close P s = pb_close P s"

subsection \<open>\<^verbatim>\<open>binary.go\<close> and the \<^verbatim>\<open>Marshaler\<close> interface\<close>

record 'a Marshaler =
  Marshal :: "'a \<Rightarrow> go_err + string \<times> bytes"
  Unmarshal :: "bytes \<Rightarrow> go_err + 'a"

definition BinaryMarshaller ::
    "('a \<Rightarrow> go_err + bytes) \<Rightarrow> (bytes \<Rightarrow> go_err + 'a) \<Rightarrow> ('a \<Rightarrow> string) \<Rightarrow> 'a Marshaler" where
  "BinaryMarshaller encode_gob decode_gob ID =
     \<lparr>Marshal = (\<lambda>v. case encode_gob v of Inl err \<Rightarrow> Inl err | Inr b \<Rightarrow> Inr (ID v, b)),
      Unmarshal = (\<lambda>v. case decode_gob v of Inl err \<Rightarrow> Inl err | Inr t \<Rightarrow> Inr t)\<rparr>"

subsection \<open>Keys\<close>

record Key =
  k_version :: bytes
  k_tenant :: bytes
  k_table :: bytes
  k_id :: bytes

record 'a Table =
  tb_marshaler :: "'a Marshaler"
  tb_Name :: string
  tb_Tenant :: string

definition NewTable :: "string \<Rightarrow> string \<Rightarrow> 'a Marshaler \<Rightarrow> 'a Table" where
  "NewTable name tenant marshaler =
     \<lparr>tb_marshaler = marshaler, tb_Name = name, tb_Tenant = tenant\<rparr>"

definition getKey :: "'a Table \<Rightarrow> string \<Rightarrow> Key" where
  "getKey s id1 =
     \<lparr>k_version = bytes_of ''0'', k_tenant = bytes_of (tb_Tenant s),
      k_table = bytes_of (tb_Name s), k_id = bytes_of id1\<rparr>"

definition Key_len :: "Key \<Rightarrow> nat" where
  "Key_len k = length (k_version k) + length (k_tenant k) + length (k_table k) + length (k_id k)"

definition Key_lenpreffix :: "Key \<Rightarrow> nat" where
  "Key_lenpreffix k = length (k_version k) + length (k_tenant k) + length (k_table k)"

text \<open>\<^verbatim>\<open>copy(d[n:], src)\<close>: write \<open>src\<close> over \<open>d\<close> from position \<open>n\<close>, as far as \<open>d\<close> reaches.\<close>

definition copy_at :: "bytes \<Rightarrow> nat \<Rightarrow> bytes \<Rightarrow> bytes" where
  "copy_at d n src = take n d @ go_copy (drop n d) src"

definition Key_encode :: "Key \<Rightarrow> bytes" where
  "Key_encode k =
     (let d0 = replicate (Key_len k) 0;
          n0 = 0;
          d1 = copy_at d0 n0 (k_version k);
          n1 = n0 + length (k_version k);
          d2 = copy_at d1 n1 (k_tenant k);
          n2 = n1 + length (k_tenant k);
          d3 = copy_at d2 n2 (k_table k);
          n3 = n2 + length (k_table k)
      in copy_at d3 n3 (k_id k))"

definition Key_encodepreffix :: "Key \<Rightarrow> bytes" where
  "Key_encodepreffix k =
     (let d0 = replicate (Key_lenpreffix k) 0;
          n0 = 0;
          d1 = copy_at d0 n0 (k_version k);
          n1 = n0 + length (k_version k);
          d2 = copy_at d1 n1 (k_tenant k);
          n2 = n1 + length (k_tenant k)
      in copy_at d2 n2 (k_table k))"

lemma copy_at_fill:
  "length pre = n \<Longrightarrow> copy_at (pre @ replicate (length src + m) z) n src = pre @ src @ replicate m z"
  by (simp add: copy_at_def go_copy_def Let_def min_def)

lemma Key_encode_eq: "Key_encode k = k_version k @ k_tenant k @ k_table k @ k_id k"
proof -
  let ?v = "k_version k" and ?t = "k_tenant k" and ?b = "k_table k" and ?i = "k_id k"
  have "copy_at (replicate (Key_len k) 0) 0 ?v
      = ?v @ replicate (length ?t + (length ?b + length ?i)) 0"
    using copy_at_fill [of "[]" 0 ?v "length ?t + (length ?b + length ?i)" 0]
    by (simp add: Key_len_def add.assoc)
  moreover have "copy_at (?v @ replicate (length ?t + (length ?b + length ?i)) 0) (length ?v) ?t
      = ?v @ ?t @ replicate (length ?b + length ?i) 0"
    by (rule copy_at_fill) simp
  moreover have "copy_at ((?v @ ?t) @ replicate (length ?b + length ?i) 0)
      (length ?v + length ?t) ?b = (?v @ ?t) @ ?b @ replicate (length ?i) 0"
    by (rule copy_at_fill) simp
  moreover have "copy_at ((?v @ ?t @ ?b) @ replicate (length ?i + 0) 0)
      (length ?v + length ?t + length ?b) ?i = (?v @ ?t @ ?b) @ ?i @ replicate 0 0"
    by (rule copy_at_fill) simp
  ultimately show ?thesis
    by (simp add: Key_encode_def Let_def)
qed

lemma Key_encodepreffix_eq: "Key_encodepreffix k = k_version k @ k_tenant k @ k_table k"
proof -
  let ?v = "k_version k" and ?t = "k_tenant k" and ?b = "k_table k"
  have "copy_at (replicate (Key_lenpreffix k) 0) 0 ?v = ?v @ replicate (length ?t + length ?b) 0"
    using copy_at_fill [of "[]" 0 ?v "length ?t + length ?b" 0]
    by (simp add: Key_lenpreffix_def add.assoc)
  moreover have "copy_at (?v @ replicate (length ?t + length ?b) 0) (length ?v) ?t
      = ?v @ ?t @ replicate (length ?b) 0"
    by (rule copy_at_fill) simp
  moreover have "copy_at ((?v @ ?t) @ replicate (length ?b + 0) 0) (length ?v + length ?t) ?b
      = (?v @ ?t) @ ?b @ replicate 0 0"
    by (rule copy_at_fill) simp
  ultimately show ?thesis
    by (simp add: Key_encodepreffix_def Let_def)
qed

subsection \<open>The range of a prefix\<close>

text \<open>
  \<open>keyUpperBound\<close>: increment the last byte that is not 0xFF and cut after it; with the loop's index
  \<open>i\<close> counting down from the last position (\<open>Suc i\<close> bytes still to look at).
\<close>

fun keyUpperBound_loop :: "bytes \<Rightarrow> nat \<Rightarrow> bytes option" where
  "keyUpperBound_loop e 0 = None"
| "keyUpperBound_loop e (Suc i) =
     (let e1 = e[i := e ! i + 1] in
      if e1 ! i \<noteq> 0 then Some (take (i + 1) e1) else keyUpperBound_loop e1 i)"

definition keyUpperBound :: "bytes \<Rightarrow> bytes option" where
  "keyUpperBound b =
     (let e = go_copy (replicate (length b) 0) b in keyUpperBound_loop e (length e))"

lemma keyUpperBound_loop_prefix:
  "i \<le> length e \<Longrightarrow> i \<le> length e' \<Longrightarrow> take i e = take i e' \<Longrightarrow>
     keyUpperBound_loop e i = keyUpperBound_loop e' i"
proof (induction i arbitrary: e e')
  case (Suc i)
  have nth: "e ! i = e' ! i"
    using Suc.prems by (metis lessI nth_take)
  have pre: "take i e = take i e'"
    using Suc.prems(3) by (metis Suc_n_not_le_n linear min_def take_take)
  have "keyUpperBound_loop (e[i := e ! i + 1]) i = keyUpperBound_loop (e'[i := e' ! i + 1]) i"
    by (rule Suc.IH) (use Suc.prems pre in auto)
  then show ?case
    using Suc.prems nth pre by (cases "e' ! i + 1 = 0") (simp_all add: Let_def take_Suc_conv_app_nth)
qed simp

lemma keyUpperBound_eq: "keyUpperBound b = keyUpperBound_loop b (length b)"
  by (simp add: keyUpperBound_def go_copy_full)

lemma keyUpperBound_Nil [simp]: "keyUpperBound [] = None"
  by (simp add: keyUpperBound_eq)

lemma keyUpperBound_snoc:
  "keyUpperBound (xs @ [x]) = (if x + 1 \<noteq> 0 then Some (xs @ [x + 1]) else keyUpperBound xs)"
proof -
  have "keyUpperBound_loop (xs @ [0]) (length xs) = keyUpperBound_loop xs (length xs)"
    by (rule keyUpperBound_loop_prefix) auto
  then show ?thesis
    by (auto simp: keyUpperBound_eq Let_def)
qed

lemma snoc_range:
  fixes x :: byte
  assumes "x + 1 \<noteq> 0"
  shows "xs @ [x] \<le> k \<and> k < xs @ [x + 1] \<longleftrightarrow> prefix (xs @ [x]) k"
proof (induction xs arbitrary: k)
  case Nil
  show ?case
    by (cases k) (auto simp: byte_less_Suc_iff [OF assms] prefix_def)
next
  case (Cons a xs)
  show ?case
  proof (cases k)
    case (Cons b ys)
    then show ?thesis using Cons.IH [of ys] by auto
  qed simp
qed

lemma byte_top: "(x :: byte) + 1 = 0 \<Longrightarrow> x \<le> y \<longleftrightarrow> y = x"
  by (metis add_eq_0_iff2 word_order.extremum_unique order_refl)

lemma top_range:
  assumes top: "(x :: byte) + 1 = 0" and up: "\<And>k. in_bounds xs u k \<longleftrightarrow> prefix xs k"
  shows "in_bounds (xs @ [x]) u k \<longleftrightarrow> prefix (xs @ [x]) k"
proof
  assume b: "in_bounds (xs @ [x]) u k"
  then have le: "xs @ [x] \<le> k" by (simp add: in_bounds_def)
  have "xs \<le> xs @ [x]" by simp
  from order_trans [OF this le] have "xs \<le> k" .
  with b have "in_bounds xs u k" by (simp add: in_bounds_def)
  then obtain r where k: "k = xs @ r" using up by (auto simp: prefix_def)
  with le have "[x] \<le> r" by simp
  then obtain y ys where "r = y # ys" "x \<le> y" by (cases r) auto
  then show "prefix (xs @ [x]) k" using k byte_top [OF top] by simp
next
  assume p: "prefix (xs @ [x]) k"
  then have "prefix xs k" by (rule append_prefixD)
  then have "in_bounds xs u k" by (simp add: up)
  then show "in_bounds (xs @ [x]) u k"
    using prefix_imp_le [OF p] by (simp add: in_bounds_def)
qed

lemma in_bounds_keyUpperBound: "in_bounds p (keyUpperBound p) k \<longleftrightarrow> prefix p k"
proof (induction p arbitrary: k rule: rev_induct)
  case Nil
  show ?case by (simp add: in_bounds_def)
next
  case (snoc x xs)
  show ?case
  proof (cases "x + 1 = 0")
    case True
    then show ?thesis
      using top_range [OF True snoc.IH] by (simp add: keyUpperBound_snoc)
  next
    case False
    then show ?thesis
      using snoc_range [OF False] by (simp add: keyUpperBound_snoc in_bounds_def)
  qed
qed

subsection \<open>Table operations\<close>

definition Table_Add :: "'db pebble \<Rightarrow> 'a Table \<Rightarrow> 'a \<Rightarrow> 'db \<Rightarrow> go_err option \<times> 'db" where
  "Table_Add P s data db =
     (case Marshal (tb_marshaler s) data of
        Inl err \<Rightarrow> (Some err, db)
      | Inr (id1, buf) \<Rightarrow> (let k = getKey s id1 in pb_set P (Key_encode k) buf db))"

definition Table_Update :: "'db pebble \<Rightarrow> 'a Table \<Rightarrow> 'a \<Rightarrow> 'db \<Rightarrow> go_err option \<times> 'db" where
  "Table_Update P s data db =
     (case Marshal (tb_marshaler s) data of
        Inl err \<Rightarrow> (Some err, db)
      | Inr (id1, buf) \<Rightarrow> (let k = getKey s id1 in pb_set P (Key_encode k) buf db))"

definition Table_Delete :: "'db pebble \<Rightarrow> 'a Table \<Rightarrow> string \<Rightarrow> 'db \<Rightarrow> go_err option \<times> 'db" where
  "Table_Delete P s id1 db = (let k = getKey s id1 in pb_delete P (Key_encode k) db)"

text \<open>\<open>Inr None\<close> is the pair of two nils: no such record.\<close>

definition Table_Get :: "'db pebble \<Rightarrow> 'a Table \<Rightarrow> string \<Rightarrow> 'db \<Rightarrow> go_err + 'a option" where
  "Table_Get P s id1 db =
     (let k = getKey s id1 in
      case pb_get P (Key_encode k) db of
        Inl err \<Rightarrow>
          (if errors_Is (Some err) (pb_ErrNotFound P) then Inr None else Inl err)
      | Inr (value, closed) \<Rightarrow>
          (let errs0 = [];
               e = Unmarshal (tb_marshaler s) value;
               errs1 = (case e of Inl err \<Rightarrow> errs0 @ [Some err] | Inr _ \<Rightarrow> errs0);
               errs2 = (case closed of Some err \<Rightarrow> errs1 @ [Some err] | None \<Rightarrow> errs1)
           in if length errs2 > 0 then Inl (the (errors_Join errs2))
              else (case e of Inl err \<Rightarrow> Inl err | Inr x \<Rightarrow> Inr (Some x))))"

text \<open>The loop over the iterator: the records read so far, and the error that stopped it.\<close>

fun Table_All_loop ::
    "'a Marshaler \<Rightarrow> (bytes \<times> bytes) list \<Rightarrow> 'a list \<Rightarrow> 'a list \<times> go_err option list" where
  "Table_All_loop m [] data = (data, [])"
| "Table_All_loop m (kv # kvs) data =
     (case Unmarshal m (snd kv) of
        Inl err \<Rightarrow> (data, [Some err])
      | Inr d \<Rightarrow> Table_All_loop m kvs (data @ [d]))"

definition Table_All :: "'db pebble \<Rightarrow> 'a Table \<Rightarrow> 'db \<Rightarrow> go_err + 'a list" where
  "Table_All P s db =
     (let k = getKey s [];
          prefix1 = Key_encodepreffix k
      in case pb_iter P prefix1 (keyUpperBound prefix1) db of
           Inl err \<Rightarrow> Inl err
         | Inr (kvs, closed) \<Rightarrow>
             (let (data, errs) = Table_All_loop (tb_marshaler s) kvs [];
                  errs1 = (case closed of Some err \<Rightarrow> errs @ [Some err] | None \<Rightarrow> errs)
              in if length errs1 > 0 then Inl (the (errors_Join errs1)) else Inr data))"

subsection \<open>What the tables guarantee\<close>

definition table_key :: "'a Table \<Rightarrow> string \<Rightarrow> bytes" where
  "table_key s id1 = Key_encode (getKey s id1)"

definition table_prefix :: "'a Table \<Rightarrow> bytes" where
  "table_prefix s = Key_encodepreffix (getKey s [])"

lemma table_prefix_eq: "table_prefix s = bytes_of (''0'' @ tb_Tenant s @ tb_Name s)"
  by (simp add: table_prefix_def Key_encodepreffix_eq getKey_def bytes_of_Cons)

lemma table_key_eq: "table_key s id1 = table_prefix s @ bytes_of id1"
  by (simp add: table_prefix_def Key_encodepreffix_eq table_key_def Key_encode_eq getKey_def)

lemma pebble_set:
  "pebble_ok P cont wfd \<Longrightarrow> wfd db \<Longrightarrow> pb_set P k v db = (None, db') \<Longrightarrow>
     wfd db' \<and> cont db' = (cont db)(k \<mapsto> v)"
  unfolding pebble_ok_def by blast

lemma pebble_delete:
  "pebble_ok P cont wfd \<Longrightarrow> wfd db \<Longrightarrow> pb_delete P k db = (None, db') \<Longrightarrow>
     wfd db' \<and> cont db' = (cont db)(k := None)"
  unfolding pebble_ok_def by blast

lemma pebble_get:
  "pebble_ok P cont wfd \<Longrightarrow> wfd db \<Longrightarrow> pb_get P k db = Inr (v, c) \<Longrightarrow> cont db k = Some v"
  unfolding pebble_ok_def by blast

lemma pebble_get_missing:
  "pebble_ok P cont wfd \<Longrightarrow> wfd db \<Longrightarrow> pb_get P k db = Inl e \<Longrightarrow>
     errors_Is (Some e) (pb_ErrNotFound P) \<Longrightarrow> cont db k = None"
  unfolding pebble_ok_def by blast

lemma pebble_iter:
  "pebble_ok P cont wfd \<Longrightarrow> wfd db \<Longrightarrow> pb_iter P lo hi db = Inr (kvs, None) \<Longrightarrow>
     sorted_wrt (<) (map fst kvs) \<and> set kvs = {(k, v). cont db k = Some v \<and> in_bounds lo hi k}"
  unfolding pebble_ok_def by blast

lemma Table_Add_Some:
  assumes "pebble_ok P cont wfd" and "wfd db" and "Table_Add P s data db = (None, db')"
  obtains id1 buf where "Marshal (tb_marshaler s) data = Inr (id1, buf)"
    and "wfd db'" and "cont db' = (cont db)(table_key s id1 \<mapsto> buf)"
  using assms pebble_set [OF assms(1,2)]
  by (auto simp: Table_Add_def table_key_def split: sum.splits)

lemma Table_Get_Inr:
  assumes "pebble_ok P cont wfd" and "wfd db" and "Table_Get P s id1 db = Inr r"
  shows "case cont db (table_key s id1) of
           None \<Rightarrow> r = None
         | Some v \<Rightarrow> \<exists>x. r = Some x \<and> Unmarshal (tb_marshaler s) v = Inr x"
proof (cases "pb_get P (table_key s id1) db")
  case (Inl e)
  then show ?thesis
    using assms pebble_get_missing [OF assms(1,2) Inl]
    by (auto simp: Table_Get_def table_key_def split: if_splits)
next
  case (Inr vc)
  obtain v c where vc: "vc = (v, c)" by (cases vc)
  have "cont db (table_key s id1) = Some v"
    using pebble_get [OF assms(1,2)] Inr vc by simp
  moreover have "\<exists>x. r = Some x \<and> Unmarshal (tb_marshaler s) v = Inr x"
    using assms(3) Inr vc
    by (auto simp: Table_Get_def table_key_def Let_def split: sum.splits option.splits if_splits)
  ultimately show ?thesis by simp
qed

lemma Table_All_loop_Nil:
  "Table_All_loop m kvs data = (ds, []) \<longleftrightarrow>
     (\<exists>xs. ds = data @ xs \<and> map (\<lambda>kv. Unmarshal m (snd kv)) kvs = map Inr xs)"
proof (induction kvs arbitrary: data)
  case (Cons kv kvs)
  show ?case
  proof (cases "Unmarshal m (snd kv)")
    case (Inr d)
    have "(\<exists>xs. ds = (data @ [d]) @ xs \<and> map (\<lambda>kv. Unmarshal m (snd kv)) kvs = map Inr xs) \<longleftrightarrow>
          (\<exists>ys. ds = data @ ys \<and> Inr d # map (\<lambda>kv. Unmarshal m (snd kv)) kvs = map Inr ys)"
      by (auto simp: Cons_eq_map_conv)
    then show ?thesis using Inr Cons.IH [of "data @ [d]"] by simp
  qed auto
qed auto

lemma Table_All_Inr:
  assumes "pebble_ok P cont wfd" and "wfd db" and "Table_All P s db = Inr ds"
  shows "\<exists>kvs. sorted_wrt (<) (map fst kvs) \<and>
           set kvs = {(k, v). cont db k = Some v \<and> prefix (table_prefix s) k} \<and>
           map (\<lambda>kv. Unmarshal (tb_marshaler s) (snd kv)) kvs = map Inr ds"
proof -
  obtain kvs closed where
    it: "pb_iter P (table_prefix s) (keyUpperBound (table_prefix s)) db = Inr (kvs, closed)"
    using assms(3) by (auto simp: Table_All_def table_prefix_def Let_def split: sum.splits)
  have closed: "closed = None" and loop: "Table_All_loop (tb_marshaler s) kvs [] = (ds, [])"
    using assms(3) it
    by (auto simp: Table_All_def table_prefix_def Let_def split: option.splits prod.splits if_splits)
  from pebble_iter [OF assms(1,2)] it closed
  have "sorted_wrt (<) (map fst kvs)"
    and "set kvs = {(k, v). cont db k = Some v \<and> prefix (table_prefix s) k}"
    by (auto simp: in_bounds_keyUpperBound)
  moreover have "map (\<lambda>kv. Unmarshal (tb_marshaler s) (snd kv)) kvs = map Inr ds"
    using loop by (simp add: Table_All_loop_Nil)
  ultimately show ?thesis by blast
qed

subsection \<open>A store that satisfies the hypothesis\<close>

type_synonym mem_db = "(bytes \<times> bytes) list"

definition mem_wf :: "mem_db \<Rightarrow> bool" where
  "mem_wf kvs \<longleftrightarrow> sorted_wrt (<) (map fst kvs)"

definition mem_put :: "bytes \<Rightarrow> bytes \<Rightarrow> mem_db \<Rightarrow> mem_db" where
  "mem_put k v kvs = filter (\<lambda>p. fst p < k) kvs @ (k, v) # filter (\<lambda>p. k < fst p) kvs"

definition mem_not_found :: go_err where
  "mem_not_found = Err ''not found''"

definition mem_pebble :: "mem_db pebble" where
  "mem_pebble =
     \<lparr>pb_ErrNotFound = mem_not_found,
      pb_open = (\<lambda>path inmem. if path = [] then Inl (Err ''no path'') else Inr []),
      pb_close = (\<lambda>db. None),
      pb_set = (\<lambda>k v db. (None, mem_put k v db)),
      pb_delete = (\<lambda>k db. (None, filter (\<lambda>p. fst p \<noteq> k) db)),
      pb_get = (\<lambda>k db. case map_of db k of None \<Rightarrow> Inl mem_not_found | Some v \<Rightarrow> Inr (v, None)),
      pb_iter = (\<lambda>lo hi db. Inr (filter (\<lambda>p. in_bounds lo hi (fst p)) db, None))\<rparr>"

lemma sorted_wrt_map_filter:
  "sorted_wrt R (map f xs) \<Longrightarrow> sorted_wrt R (map f (filter P xs))"
  by (induction xs) auto

lemma mem_wf_distinct: "mem_wf kvs \<Longrightarrow> distinct (map fst kvs)"
  unfolding mem_wf_def by (induction kvs) auto

lemma mem_wf_put: "mem_wf kvs \<Longrightarrow> mem_wf (mem_put k v kvs)"
  by (auto simp: mem_wf_def mem_put_def sorted_wrt_append sorted_wrt_map_filter
      intro: order.strict_trans)

lemma map_of_filter_fst:
  "map_of (filter (\<lambda>p. P (fst p)) kvs) k = (if P k then map_of kvs k else None)"
  by (induction kvs) auto

lemma map_of_mem_put: "map_of (mem_put k v kvs) = (map_of kvs)(k \<mapsto> v)"
proof
  fix k'
  show "map_of (mem_put k v kvs) k' = ((map_of kvs)(k \<mapsto> v)) k'"
    using map_of_filter_fst [of "\<lambda>j. j < k" kvs k'] map_of_filter_fst [of "\<lambda>j. k < j" kvs k']
    by (cases "map_of kvs k'") (auto simp: mem_put_def map_add_def)
qed

lemma mem_pebble_ok: "pebble_ok mem_pebble map_of mem_wf"
  unfolding pebble_ok_def
proof (intro conjI allI impI)
  fix k v db db'
  assume "mem_wf db" "pb_set mem_pebble k v db = (None, db')"
  then show "mem_wf db'" and "map_of db' = (map_of db)(k \<mapsto> v)"
    by (auto simp: mem_pebble_def mem_wf_put map_of_mem_put)
next
  fix k db db'
  assume a: "mem_wf db" "pb_delete mem_pebble k db = (None, db')"
  then show "mem_wf db'"
    by (auto simp: mem_pebble_def mem_wf_def sorted_wrt_map_filter)
  show "map_of db' = (map_of db)(k := None)"
    using a map_of_filter_fst [of "\<lambda>j. j \<noteq> k" db] by (auto simp: mem_pebble_def)
next
  fix k db v c
  assume "pb_get mem_pebble k db = Inr (v, c)"
  then show "map_of db k = Some v"
    by (auto simp: mem_pebble_def split: option.splits)
next
  fix k db e
  assume "pb_get mem_pebble k db = Inl e"
  then show "map_of db k = None"
    by (auto simp: mem_pebble_def split: option.splits)
next
  fix lo hi db kvs
  assume a: "mem_wf db" "pb_iter mem_pebble lo hi db = Inr (kvs, None)"
  then show "sorted_wrt (<) (map fst kvs)"
    by (auto simp: mem_pebble_def mem_wf_def sorted_wrt_map_filter)
  show "set kvs = {(k, v). map_of db k = Some v \<and> in_bounds lo hi k}"
    using a mem_wf_distinct [of db] by (auto simp: mem_pebble_def)
qed

subsection \<open>Properties\<close>

text \<open>A table as a map from record ids to stored bytes.\<close>

definition table_view :: "'a Table \<Rightarrow> (bytes \<rightharpoonup> bytes) \<Rightarrow> string \<rightharpoonup> bytes" where
  "table_view s c id1 = c (table_key s id1)"

lemma table_key_inj [simp]: "table_key s i = table_key s j \<longleftrightarrow> i = j"
  by (simp add: table_key_eq)

lemma table_view_upd [simp]:
  "table_view s (c(table_key s i := r)) = (table_view s c)(i := r)"
  by (rule ext) (simp add: table_view_def)

definition str_marshaler :: "string Marshaler" where
  "str_marshaler = \<lparr>Marshal = (\<lambda>v. Inr (v, bytes_of v)), Unmarshal = (\<lambda>b. Inr (string_of b))\<rparr>"

abbreviation users :: "string Table" where
  "users \<equiv> NewTable ''users'' ''t1'' str_marshaler"

abbreviation user :: "string Table" where
  "user \<equiv> NewTable ''user'' ''t1'' str_marshaler"

abbreviation orders :: "string Table" where
  "orders \<equiv> NewTable ''orders'' ''t1'' str_marshaler"

lemma mem_Add:
  "Table_Add mem_pebble (NewTable n t str_marshaler) x db =
     (None, mem_put (table_key (NewTable n t str_marshaler) x) (bytes_of x) db)"
  by (simp add: Table_Add_def mem_pebble_def table_key_def NewTable_def str_marshaler_def)

lemma mem_Delete:
  "Table_Delete mem_pebble s i db = (None, filter (\<lambda>p. fst p \<noteq> table_key s i) db)"
  by (simp add: Table_Delete_def mem_pebble_def table_key_def)

lemma mem_Get:
  "Table_Get mem_pebble (NewTable n t str_marshaler) i db =
     Inr (map_option string_of (map_of db (table_key (NewTable n t str_marshaler) i)))"
  by (auto simp: Table_Get_def mem_pebble_def table_key_def NewTable_def str_marshaler_def Let_def
      split: option.splits)

lemma str_All_loop:
  "Table_All_loop str_marshaler kvs ds = (ds @ map (\<lambda>kv. string_of (snd kv)) kvs, [])"
  by (induction kvs arbitrary: ds) (simp_all add: str_marshaler_def)

lemma mem_All:
  "Table_All mem_pebble (NewTable n t str_marshaler) db =
     Inr (map (\<lambda>kv. string_of (snd kv))
            (filter (\<lambda>kv. prefix (table_prefix (NewTable n t str_marshaler)) (fst kv)) db))"
  by (simp add: Table_All_def mem_pebble_def table_prefix_def Let_def in_bounds_keyUpperBound)
     (simp add: NewTable_def str_All_loop)

lemmas mem_table = mem_Add mem_Delete mem_Get mem_All

lemma str_table [simp]:
  "tb_marshaler (NewTable n t m) = m"
  "Marshal str_marshaler x = Inr (x, bytes_of x)"
  "Unmarshal str_marshaler b = Inr (string_of b)"
  by (simp_all add: NewTable_def str_marshaler_def)

lemma mem_wf_Nil [simp]: "mem_wf []"
  by (simp add: mem_wf_def)

text \<open>
  C18. The bounds \<open>All\<close> gives the iterator select exactly the keys of the table: a key lies between
  the prefix and \<open>keyUpperBound\<close> of it if and only if it starts with the prefix, for every prefix
  (trailing 0xFF bytes included), and there is no upper bound just when every byte is 0xFF.
\<close>

theorem keyUpperBound_exact:
  "(\<forall>k. in_bounds p (keyUpperBound p) k = prefix p k) \<and>
   (keyUpperBound p = None \<longleftrightarrow> p = replicate (length p) 255)"
proof -
  have "keyUpperBound p = None \<longleftrightarrow> p = replicate (length p) 255"
  proof (induction p rule: rev_induct)
    case (snoc x xs)
    have top: "x + 1 = 0 \<longleftrightarrow> x = 255"
    proof -
      have "(255 :: byte) = - 1" by simp
      then show ?thesis using add_eq_0_iff2 [of x 1] by (simp only: refl)
    qed
    show ?case
      using snoc.IH top by (auto simp: keyUpperBound_snoc simp flip: replicate_append_same)
  qed simp
  then show ?thesis by (simp add: in_bounds_keyUpperBound)
qed

text \<open>
  C15. \<open>All\<close> returns the table and nothing else: when it answers without error, its result is the
  unmarshalled values of exactly the stored keys that start with the table's prefix, in the order
  of the keys, each key once.
\<close>

theorem Table_All_exact:
  assumes "pebble_ok P cont wfd" and "wfd db" and "Table_All P s db = Inr ds"
  shows "\<exists>kvs. sorted_wrt (<) (map fst kvs) \<and>
           set kvs = {(k, v). cont db k = Some v \<and> prefix (table_prefix s) k} \<and>
           map (\<lambda>kv. Unmarshal (tb_marshaler s) (snd kv)) kvs = map Inr ds"
  using assms by (rule Table_All_Inr)

theorem Table_All_exact_witness:
  "\<exists>db kvs. Table_Add mem_pebble users ''ann'' [] = (None, db) \<and>
     Table_All mem_pebble users db = Inr [''ann''] \<and>
     set kvs = {(k, v). map_of db k = Some v \<and> prefix (table_prefix users) k} \<and>
     map (\<lambda>kv. Unmarshal str_marshaler (snd kv)) kvs = map Inr [''ann'']"
proof -
  let ?db = "mem_put (table_key users ''ann'') (bytes_of ''ann'') []"
  have all: "Table_All mem_pebble users ?db = Inr [''ann'']"
    by (simp add: mem_All mem_put_def table_key_eq)
  have "mem_wf ?db" by (rule mem_wf_put) simp
  from Table_All_exact [OF mem_pebble_ok this all] obtain kvs where
    "set kvs = {(k, v). map_of ?db k = Some v \<and> prefix (table_prefix users) k}"
    "map (\<lambda>kv. Unmarshal str_marshaler (snd kv)) kvs = map Inr [''ann'']"
    by (simp only: str_table(1)) blast
  then show ?thesis
    by (intro exI [where x = ?db] exI [where x = kvs] conjI mem_Add all)
qed

text \<open>
  C16. A table implements a map from record ids to stored bytes: a successful \<open>Add\<close> or \<open>Update\<close>
  binds the record's id and nothing else, a successful \<open>Delete\<close> unbinds the id, and a \<open>Get\<close> that
  answers without error returns the unmarshalled binding, or nil when there is none.
\<close>

theorem Table_refines_map:
  assumes "pebble_ok P cont wfd" and "wfd db"
  shows "(Table_Add P s data db = (None, db') \<longrightarrow>
            (\<exists>i buf. Marshal (tb_marshaler s) data = Inr (i, buf) \<and> wfd db' \<and>
               table_view s (cont db') = (table_view s (cont db))(i \<mapsto> buf))) \<and>
         (Table_Update P s data db = (None, db') \<longrightarrow>
            (\<exists>i buf. Marshal (tb_marshaler s) data = Inr (i, buf) \<and> wfd db' \<and>
               table_view s (cont db') = (table_view s (cont db))(i \<mapsto> buf))) \<and>
         (Table_Delete P s j db = (None, db') \<longrightarrow>
            wfd db' \<and> table_view s (cont db') = (table_view s (cont db))(j := None)) \<and>
         (Table_Get P s j db = Inr r \<longrightarrow>
            (case table_view s (cont db) j of
               None \<Rightarrow> r = None
             | Some v \<Rightarrow> \<exists>x. r = Some x \<and> Unmarshal (tb_marshaler s) v = Inr x))"
proof -
  have add: "\<exists>i buf. Marshal (tb_marshaler s) data = Inr (i, buf) \<and> wfd db' \<and>
      table_view s (cont db') = (table_view s (cont db))(i \<mapsto> buf)"
    if "Table_Add P s data db = (None, db')"
    using Table_Add_Some [OF assms that] by (metis table_view_upd)
  moreover have "Table_Update P s data db = Table_Add P s data db"
    by (simp add: Table_Update_def Table_Add_def)
  moreover have "wfd db' \<and> table_view s (cont db') = (table_view s (cont db))(j := None)"
    if "Table_Delete P s j db = (None, db')"
    using pebble_delete [OF assms, of "table_key s j" db'] that
    by (simp add: Table_Delete_def Let_def table_key_def) (simp flip: table_key_def)
  moreover have "case table_view s (cont db) j of
      None \<Rightarrow> r = None | Some v \<Rightarrow> \<exists>x. r = Some x \<and> Unmarshal (tb_marshaler s) v = Inr x"
    if "Table_Get P s j db = Inr r"
    using Table_Get_Inr [OF assms that] by (simp add: table_view_def)
  ultimately show ?thesis by auto
qed

theorem Table_refines_map_witness:
  "\<exists>db'. Table_Add mem_pebble users ''ann'' [] = (None, db') \<and>
     table_view users (map_of db') = (table_view users (map_of []))(''ann'' \<mapsto> bytes_of ''ann'')"
proof -
  let ?db = "mem_put (table_key users ''ann'') (bytes_of ''ann'') []"
  have a: "Table_Add mem_pebble users ''ann'' [] = (None, ?db)" by (rule mem_Add)
  have "Table_Add mem_pebble users ''ann'' [] = (None, ?db) \<longrightarrow>
      (\<exists>i buf. Marshal (tb_marshaler users) ''ann'' = Inr (i, buf) \<and> mem_wf ?db \<and>
         table_view users (map_of ?db) = (table_view users (map_of []))(i \<mapsto> buf))"
    by (rule conjunct1 [OF Table_refines_map [OF mem_pebble_ok mem_wf_Nil]])
  then obtain i buf where "Marshal (tb_marshaler users) ''ann'' = Inr (i, buf)"
    and v: "table_view users (map_of ?db) = (table_view users (map_of []))(i \<mapsto> buf)"
    using a by (elim impE exE conjE)
  then have "i = ''ann''" and "buf = bytes_of ''ann''" by auto
  then show ?thesis using a v by (intro exI [where x = ?db] conjI) (simp_all only:)
qed

datatype 'a table_cmd = CmdAdd 'a | CmdDelete string

fun table_run :: "'db pebble \<Rightarrow> 'a Table \<Rightarrow> 'a table_cmd list \<Rightarrow> 'db \<Rightarrow> 'db option" where
  "table_run P s [] db = Some db"
| "table_run P s (CmdAdd x # cs) db =
     (case Table_Add P s x db of (None, db') \<Rightarrow> table_run P s cs db' | (Some _, _) \<Rightarrow> None)"
| "table_run P s (CmdDelete i # cs) db =
     (case Table_Delete P s i db of (None, db') \<Rightarrow> table_run P s cs db' | (Some _, _) \<Rightarrow> None)"

fun touches :: "'a Marshaler \<Rightarrow> string \<Rightarrow> 'a table_cmd \<Rightarrow> bool" where
  "touches m i (CmdAdd x) = (\<exists>buf. Marshal m x = Inr (i, buf))"
| "touches m i (CmdDelete j) = (i = j)"

lemma table_run_frame:
  assumes "pebble_ok P cont wfd" and "wfd db" and "table_run P s cs db = Some db'"
    and "\<And>c. c \<in> set cs \<Longrightarrow> \<not> touches (tb_marshaler s) i c"
  shows "wfd db' \<and> cont db' (table_key s i) = cont db (table_key s i)"
  using assms(2,3,4)
proof (induction cs arbitrary: db)
  case (Cons c cs)
  show ?case
  proof (cases c)
    case (CmdAdd x)
    then obtain db1 where add: "Table_Add P s x db = (None, db1)"
      and run: "table_run P s cs db1 = Some db'"
      using Cons.prems(2) by (auto split: prod.splits option.splits)
    obtain j buf where "Marshal (tb_marshaler s) x = Inr (j, buf)" "wfd db1"
      "cont db1 = (cont db)(table_key s j \<mapsto> buf)"
      by (rule Table_Add_Some [OF assms(1) Cons.prems(1) add])
    moreover from this have "j \<noteq> i" using Cons.prems(3) [of c] CmdAdd by auto
    ultimately show ?thesis using Cons.IH [of db1] run Cons.prems(3) by simp
  next
    case (CmdDelete j)
    then obtain db1 where del: "pb_delete P (table_key s j) db = (None, db1)"
      and run: "table_run P s cs db1 = Some db'"
      using Cons.prems(2) by (auto simp: Table_Delete_def table_key_def split: prod.splits option.splits)
    have "j \<noteq> i" using Cons.prems(3) [of c] CmdDelete by auto
    then show ?thesis
      using Cons.IH [of db1] run pebble_delete [OF assms(1) Cons.prems(1) del] Cons.prems(3) by simp
  qed
qed simp

text \<open>
  What was added can be read back: after a successful \<open>Add\<close> whose bytes the marshaller can
  decode, a \<open>Get\<close> of the record's id that answers without error returns the record, also after
  further successful \<open>Add\<close>s and \<open>Delete\<close>s of other ids through the same table.
\<close>

theorem Table_Add_Get_roundtrip:
  assumes "pebble_ok P cont wfd" and "wfd db"
    and "Marshal (tb_marshaler s) data = Inr (i, buf)" and "Unmarshal (tb_marshaler s) buf = Inr data"
    and "Table_Add P s data db = (None, db1)" and "table_run P s cs db1 = Some db2"
    and "\<And>c. c \<in> set cs \<Longrightarrow> \<not> touches (tb_marshaler s) i c"
    and "Table_Get P s i db2 = Inr r"
  shows "r = Some data"
proof -
  obtain "wfd db1" and c1: "cont db1 = (cont db)(table_key s i \<mapsto> buf)"
    using Table_Add_Some [OF assms(1,2,5)] assms(3) by (metis Inr_inject prod.inject)
  then have "wfd db2" and "cont db2 (table_key s i) = Some buf"
    using table_run_frame [OF assms(1) _ assms(6,7)] by auto
  then show ?thesis
    using Table_Get_Inr [OF assms(1) _ assms(8)] assms(4) by auto
qed

theorem Table_Add_Get_roundtrip_witness:
  "\<exists>db1 db2. Table_Add mem_pebble users ''ann'' [] = (None, db1) \<and>
     table_run mem_pebble users [CmdAdd ''bob'', CmdDelete ''joe''] db1 = Some db2 \<and>
     Table_Get mem_pebble users ''ann'' db2 = Inr (Some ''ann'')"
proof -
  let ?db1 = "mem_put (table_key users ''ann'') (bytes_of ''ann'') []"
  let ?db2 = "filter (\<lambda>p. fst p \<noteq> table_key users ''joe'')
                (mem_put (table_key users ''bob'') (bytes_of ''bob'') ?db1)"
  have a: "Table_Add mem_pebble users ''ann'' [] = (None, ?db1)" by (rule mem_Add)
  have run: "table_run mem_pebble users [CmdAdd ''bob'', CmdDelete ''joe''] ?db1 = Some ?db2"
    by (simp add: mem_table)
  obtain r where g: "Table_Get mem_pebble users ''ann'' ?db2 = Inr r"
    by (simp only: mem_Get)
  have "r = Some ''ann''"
    by (rule Table_Add_Get_roundtrip [OF mem_pebble_ok mem_wf_Nil _ _ a run _ g]) auto
  then show ?thesis using a run g by blast
qed

lemma prefix_apart:
  assumes "\<not> prefix p q" and "\<not> prefix q p"
  shows "\<not> prefix q (p @ x)"
  using assms by (metis prefixI prefix_same_cases)



lemma Table_leak:
  assumes "pebble_ok P cont wfd" and "wfd db" and "Table_Add P t data db = (None, db')"
    and "tb_Tenant t @ tb_Name t = tb_Tenant s @ tb_Name s @ x" and "Table_All P s db' = Inr ds"
  shows "\<exists>i buf d. Marshal (tb_marshaler t) data = Inr (i, buf) \<and>
         table_view s (cont db') (x @ i) = Some buf \<and>
         d \<in> set ds \<and> Unmarshal (tb_marshaler s) buf = Inr d"
proof -
  let ?um = "\<lambda>kv. Unmarshal (tb_marshaler s) (snd kv)"
  obtain i buf where m: "Marshal (tb_marshaler t) data = Inr (i, buf)" and w: "wfd db'"
    and c: "cont db' = (cont db)(table_key t i \<mapsto> buf)"
    by (rule Table_Add_Some [OF assms(1-3)])
  have "bytes_of (tb_Tenant t @ tb_Name t) = bytes_of (tb_Tenant s @ tb_Name s @ x)"
    by (simp only: assms(4))
  then have key: "table_key t i = table_key s (x @ i)"
    by (simp add: table_key_eq table_prefix_eq bytes_of_Cons)
  obtain kvs where
    k: "set kvs = {(k, v). cont db' k = Some v \<and> prefix (table_prefix s) k}"
       "map ?um kvs = map Inr ds"
    using Table_All_Inr [OF assms(1) w assms(5)] by (elim exE conjE)
  have "(table_key t i, buf) \<in> set kvs"
    using k(1) c key by (simp add: table_key_eq)
  from imageI [OF this, of ?um] have "Unmarshal (tb_marshaler s) buf \<in> set (map ?um kvs)"
    by simp
  then obtain d where "d \<in> set ds" and "Unmarshal (tb_marshaler s) buf = Inr d"
    by (auto simp: k(2))
  moreover have "table_view s (cont db') (x @ i) = Some buf"
    using c key by (simp add: table_view_def)
  ultimately show ?thesis using m by blast
qed

text \<open>
  The key layout has no separator: two tables share a key exactly when tenant, table name and id
  run together to the same string, and a record added to a table whose tenant and name extend
  another table's appears, with a longer id, in that other table's \<open>Get\<close> and \<open>All\<close>.
\<close>

theorem Table_keys_run_together:
  "(table_key s i = table_key t j \<longleftrightarrow>
      tb_Tenant s @ tb_Name s @ i = tb_Tenant t @ tb_Name t @ j) \<and>
   (pebble_ok P cont wfd \<and> wfd db \<and> Table_Add P t data db = (None, db') \<and>
    tb_Tenant t @ tb_Name t = tb_Tenant s @ tb_Name s @ x \<and> Table_All P s db' = Inr ds \<longrightarrow>
      (\<exists>i buf d. Marshal (tb_marshaler t) data = Inr (i, buf) \<and>
         table_view s (cont db') (x @ i) = Some buf \<and>
         d \<in> set ds \<and> Unmarshal (tb_marshaler s) buf = Inr d))"
proof (intro conjI impI)
  show "table_key s i = table_key t j \<longleftrightarrow>
      tb_Tenant s @ tb_Name s @ i = tb_Tenant t @ tb_Name t @ j"
    using bytes_of_inj [of "tb_Tenant s @ tb_Name s @ i" "tb_Tenant t @ tb_Name t @ j"]
    by (simp add: table_key_eq table_prefix_eq bytes_of_Cons)
qed (elim conjE, rule Table_leak)

theorem Table_keys_run_together_witness:
  "\<exists>db' d. Table_Add mem_pebble users ''1'' [] = (None, db') \<and>
     Table_All mem_pebble user db' = Inr [''1''] \<and> d \<in> set [''1''] \<and>
     table_view user (map_of db') ''s1'' = Some (bytes_of d)"
proof -
  let ?db = "mem_put (table_key users ''1'') (bytes_of ''1'') []"
  have a: "Table_Add mem_pebble users ''1'' [] = (None, ?db)" by (rule mem_Add)
  have key: "table_key users ''1'' = table_key user ''s1''"
    by (simp add: table_key_eq table_prefix_eq NewTable_def bytes_of_Cons)
  have all: "Table_All mem_pebble user ?db = Inr [''1'']"
    by (simp add: mem_All mem_put_def key) (simp add: table_key_eq)
  have "tb_Tenant users @ tb_Name users = tb_Tenant user @ tb_Name user @ ''s''"
    by (simp add: NewTable_def)
  then have "\<exists>i buf d. Marshal (tb_marshaler users) ''1'' = Inr (i, buf) \<and>
      table_view user (map_of ?db) (''s'' @ i) = Some buf \<and>
      d \<in> set [''1''] \<and> Unmarshal (tb_marshaler user) buf = Inr d"
    using conjunct2 [OF Table_keys_run_together [where s = user and t = users and db = "[]"
        and db' = ?db and x = "''s''" and ds = "[''1'']" and data = "''1''" and P = mem_pebble
        and cont = map_of and wfd = mem_wf]] mem_pebble_ok a all by simp
  then show ?thesis using a all by auto
qed

end
