(* ===== verification/Go_Strings.thy ===== *)
theory Go_Strings
  imports Prelude "HOL-Library.Sublist"
begin

text \<open>
  The functions of Go's packages \<^verbatim>\<open>strings\<close>, \<^verbatim>\<open>strconv\<close> and \<^verbatim>\<open>path/filepath\<close> the repository calls, on
  strings as byte sequences.  Only what the source uses: \<open>SplitN\<close> with a positive count,
  separators that are not empty, \<open>Atoi\<close> for a 64-bit \<^verbatim>\<open>int\<close>, paths with \<^verbatim>\<open>/\<close> as the separator.
\<close>

subsection \<open>strings\<close>

definition strings_HasPrefix :: "string \<Rightarrow> string \<Rightarrow> bool" where
  "strings_HasPrefix s p = (length s \<ge> length p \<and> take (length p) s = p)"

definition strings_HasSuffix :: "string \<Rightarrow> string \<Rightarrow> bool" where
  "strings_HasSuffix s p = (length s \<ge> length p \<and> drop (length s - length p) s = p)"

definition strings_CutPrefix :: "string \<Rightarrow> string \<Rightarrow> string \<times> bool" where
  "strings_CutPrefix s p =
     (if strings_HasPrefix s p then (drop (length p) s, True) else (s, False))"

fun strings_Index :: "string \<Rightarrow> string \<Rightarrow> nat option" where
  "strings_Index [] sep = (if sep = [] then Some 0 else None)"
| "strings_Index (c # s) sep =
     (if strings_HasPrefix (c # s) sep then Some 0 else map_option Suc (strings_Index s sep))"

fun strings_SplitN :: "string \<Rightarrow> string \<Rightarrow> nat \<Rightarrow> string list" where
  "strings_SplitN s sep 0 = []"
| "strings_SplitN s sep (Suc 0) = [s]"
| "strings_SplitN s sep (Suc (Suc n)) =
     (case strings_Index s sep of
        None \<Rightarrow> [s]
      | Some i \<Rightarrow> take i s # strings_SplitN (drop (i + length sep) s) sep (Suc n))"

text \<open>\<^verbatim>\<open>Split\<close>: no limit; a string of length \<open>n\<close> has at most \<open>n\<close> separators.\<close>

definition strings_Split :: "string \<Rightarrow> string \<Rightarrow> string list" where
  "strings_Split s sep = strings_SplitN s sep (length s + 1)"

text \<open>\<^verbatim>\<open>strings.Replace(s, old, new, 1)\<close>\<close>

definition strings_Replace1 :: "string \<Rightarrow> string \<Rightarrow> string \<Rightarrow> string" where
  "strings_Replace1 s old new1 =
     (case strings_Index s old of
        None \<Rightarrow> s
      | Some i \<Rightarrow> take i s @ new1 @ drop (i + length old) s)"

text \<open>
  \<^verbatim>\<open>TrimSpace\<close>: the UTF-8 encodings of the code points \<^verbatim>\<open>unicode.IsSpace\<close> accepts, removed from the
  left end and then from the right end as long as one is there.
\<close>

definition space_runes :: "string list" where
  "space_runes =
     [[CHR 0x09], [CHR 0x0A], [CHR 0x0B], [CHR 0x0C], [CHR 0x0D], [CHR 0x20],
      [CHR 0xC2, CHR 0x85], [CHR 0xC2, CHR 0xA0], [CHR 0xE1, CHR 0x9A, CHR 0x80],
      [CHR 0xE2, CHR 0x80, CHR 0x80], [CHR 0xE2, CHR 0x80, CHR 0x81],
      [CHR 0xE2, CHR 0x80, CHR 0x82], [CHR 0xE2, CHR 0x80, CHR 0x83],
      [CHR 0xE2, CHR 0x80, CHR 0x84], [CHR 0xE2, CHR 0x80, CHR 0x85],
      [CHR 0xE2, CHR 0x80, CHR 0x86], [CHR 0xE2, CHR 0x80, CHR 0x87],
      [CHR 0xE2, CHR 0x80, CHR 0x88], [CHR 0xE2, CHR 0x80, CHR 0x89],
      [CHR 0xE2, CHR 0x80, CHR 0x8A], [CHR 0xE2, CHR 0x80, CHR 0xA8],
      [CHR 0xE2, CHR 0x80, CHR 0xA9], [CHR 0xE2, CHR 0x80, CHR 0xAF],
      [CHR 0xE2, CHR 0x81, CHR 0x9F], [CHR 0xE3, CHR 0x80, CHR 0x80]]"

fun trim_left_n :: "nat \<Rightarrow> string \<Rightarrow> string" where
  "trim_left_n 0 s = s"
| "trim_left_n (Suc n) s =
     (case find (\<lambda>r. strings_HasPrefix s r) space_runes of
        None \<Rightarrow> s
      | Some r \<Rightarrow> trim_left_n n (drop (length r) s))"

fun trim_right_n :: "nat \<Rightarrow> string \<Rightarrow> string" where
  "trim_right_n 0 s = s"
| "trim_right_n (Suc n) s =
     (case find (\<lambda>r. strings_HasSuffix s r) space_runes of
        None \<Rightarrow> s
      | Some r \<Rightarrow> trim_right_n n (take (length s - length r) s))"

definition strings_TrimSpace :: "string \<Rightarrow> string" where
  "strings_TrimSpace s = (let s1 = trim_left_n (length s) s in trim_right_n (length s1) s1)"

lemma HasPrefix_prefix [simp]: "strings_HasPrefix s p \<longleftrightarrow> prefix p s"
proof
  assume "strings_HasPrefix s p"
  then have "s = p @ drop (length p) s"
    unfolding strings_HasPrefix_def by (metis append_take_drop_id)
  then show "prefix p s" by (metis prefixI)
qed (auto simp: strings_HasPrefix_def prefix_def)

lemma CutPrefix_append [simp]: "strings_CutPrefix (p @ s) p = (s, True)"
  by (simp add: strings_CutPrefix_def)

lemma Index_char_None: "c \<notin> set s \<Longrightarrow> strings_Index s [c] = None"
  by (induction s) auto

lemma Index_char_append: "c \<notin> set s \<Longrightarrow> strings_Index (s @ c # t) [c] = Some (length s)"
  by (induction s) auto

lemma SplitN_2_None: "c \<notin> set s \<Longrightarrow> strings_SplitN s [c] 2 = [s]"
  by (simp add: numeral_2_eq_2 Index_char_None)

lemma SplitN_2_append: "c \<notin> set s \<Longrightarrow> strings_SplitN (s @ c # t) [c] 2 = [s, t]"
  by (simp add: numeral_2_eq_2 Index_char_append)

subsection \<open>strconv\<close>

definition digit_of :: "char \<Rightarrow> int option" where
  "digit_of c = (let d = of_char c - 48 in if 0 \<le> d \<and> d \<le> (9 :: int) then Some d else None)"

fun digits_val :: "string \<Rightarrow> int \<Rightarrow> int option" where
  "digits_val [] n = Some n"
| "digits_val (c # s) n =
     (case digit_of c of None \<Rightarrow> None | Some d \<Rightarrow> digits_val s (n * 10 + d))"

definition err_syntax :: go_err where
  "err_syntax = Err ''invalid syntax''"

definition err_range :: go_err where
  "err_range = Err ''value out of range''"

definition strconv_Atoi :: "string \<Rightarrow> go_err + int" where
  "strconv_Atoi s =
     (let (neg, ds) =
        (case s of
           c # s' \<Rightarrow> if c = CHR ''-'' then (True, s') else if c = CHR ''+'' then (False, s') else (False, s)
         | [] \<Rightarrow> (False, s))
      in if ds = [] then Inl err_syntax
         else (case digits_val ds 0 of
                 None \<Rightarrow> Inl err_syntax
               | Some n \<Rightarrow>
                   (let v = (if neg then - n else n)
                    in if - (2 ^ 63) \<le> v \<and> v < 2 ^ 63 then Inr v else Inl err_range)))"

definition strconv_ParseBool :: "string \<Rightarrow> go_err + bool" where
  "strconv_ParseBool s =
     (if s \<in> {''1'', ''t'', ''T'', ''TRUE'', ''true'', ''True''} then Inr True
      else if s \<in> {''0'', ''f'', ''F'', ''FALSE'', ''false'', ''False''} then Inr False
      else Inl err_syntax)"

lemma strconv_Atoi_range: "strconv_Atoi s = Inr v \<Longrightarrow> - (2 ^ 63) \<le> v \<and> v < 2 ^ 63"
  by (auto simp: strconv_Atoi_def Let_def split: list.splits if_splits option.splits prod.splits)

subsection \<open>path/filepath\<close>

fun path_comps :: "string \<Rightarrow> string \<Rightarrow> string list" where
  "path_comps [] cur = [cur]"
| "path_comps (c # s) cur =
     (if c = CHR ''/'' then cur # path_comps s [] else path_comps s (cur @ [c]))"

fun clean_comps :: "bool \<Rightarrow> string list \<Rightarrow> string list \<Rightarrow> string list" where
  "clean_comps rooted [] out = out"
| "clean_comps rooted (c # cs) out =
     (if c = [] \<or> c = ''.'' then clean_comps rooted cs out
      else if c = ''..'' then
        (if out \<noteq> [] \<and> last out \<noteq> ''..'' then clean_comps rooted cs (butlast out)
         else if rooted then clean_comps rooted cs out
         else clean_comps rooted cs (out @ [''..'']))
      else clean_comps rooted cs (out @ [c]))"

fun slash_join :: "string list \<Rightarrow> string" where
  "slash_join [] = []"
| "slash_join [x] = x"
| "slash_join (x # y # xs) = x @ ''/'' @ slash_join (y # xs)"

definition filepath_Clean :: "string \<Rightarrow> string" where
  "filepath_Clean p =
     (if p = [] then ''.''
      else
        (let rooted = (hd p = CHR ''/'');
             out = slash_join (clean_comps rooted (path_comps p []) [])
         in if rooted then ''/'' @ out else if out = [] then ''.'' else out))"

definition filepath_Join :: "string list \<Rightarrow> string" where
  "filepath_Join es =
     (case dropWhile (\<lambda>e. e = []) es of
        [] \<Rightarrow> []
      | es' \<Rightarrow> filepath_Clean (slash_join es'))"

end
