(* ===== verification/Env.thy ===== *)
theory Env
  imports Go_Strings "HOL-Library.Word"
begin

text \<open>
  \<^verbatim>\<open>pkg/env\<close>: environment variables set from the command line (\<^verbatim>\<open>args.go\<close>), from dotenv files
  (\<^verbatim>\<open>env.go\<close>) and read with defaults (\<^verbatim>\<open>getters.go\<close>).  The process environment is a map from names
  to values, passed from call to call.  \<^verbatim>\<open>godotenv\<close> is not part of the repository: its \<open>Load\<close> and
  \<open>Overload\<close> are a parameter, with their documented behaviour as the predicate \<open>dotenv_ok\<close>;
  \<^verbatim>\<open>time.ParseDuration\<close> is a parameter of \<open>Duration\<close>.
\<close>

type_synonym environ = "string \<rightharpoonup> string"

subsection \<open>The process environment\<close>

definition err_EINVAL :: go_err where
  "err_EINVAL = ErrWrap ''setenv'' (Err ''invalid argument'')"

definition os_Setenv :: "string \<Rightarrow> string \<Rightarrow> environ \<Rightarrow> go_err option \<times> environ" where
  "os_Setenv k v e =
     (if k = [] \<or> CHR ''='' \<in> set k \<or> CHR 0x00 \<in> set k \<or> CHR 0x00 \<in> set v
      then (Some err_EINVAL, e) else (None, e(k \<mapsto> v)))"

definition os_LookupEnv :: "string \<Rightarrow> environ \<Rightarrow> string option" where
  "os_LookupEnv k e = (if k = [] then None else e k)"

definition os_Getenv :: "string \<Rightarrow> environ \<Rightarrow> string" where
  "os_Getenv k e = (case os_LookupEnv k e of None \<Rightarrow> [] | Some v \<Rightarrow> v)"

subsection \<open>\<^verbatim>\<open>args.go\<close>\<close>

fun parse_loop :: "string list \<Rightarrow> environ \<Rightarrow> environ" where
  "parse_loop [] m = m"
| "parse_loop (arg # args) m =
     (case strings_CutPrefix arg ''--env:'' of
        (v, ok) \<Rightarrow>
          if ok then
            (let vs = strings_SplitN v ''='' 2 in
             if length vs = 2 then parse_loop args (m(vs ! 0 \<mapsto> vs ! 1)) else parse_loop args m)
          else
            (case strings_CutPrefix arg ''-e:'' of
               (v', ok') \<Rightarrow>
                 if ok' then
                   (let vs = strings_SplitN v' ''='' 2 in
                    if length vs < 2 then parse_loop args m
                    else parse_loop args (m(vs ! 0 \<mapsto> vs ! 1)))
                 else parse_loop args m))"

definition parse_args :: "string list \<Rightarrow> environ" where
  "parse_args args = parse_loop args Map.empty"

text \<open>The range over the parsed map visits its keys in the order \<open>ks\<close> and stops at the first error.\<close>

fun setEnvs_loop :: "environ \<Rightarrow> string list \<Rightarrow> environ \<Rightarrow> go_err option \<times> environ" where
  "setEnvs_loop m [] e = (None, e)"
| "setEnvs_loop m (k # ks) e =
     (case os_Setenv k (the (m k)) e of
        (Some err, e') \<Rightarrow> (Some err, e')
      | (None, e') \<Rightarrow> setEnvs_loop m ks e')"

definition setEnvs :: "string list \<Rightarrow> string list \<Rightarrow> environ \<Rightarrow> go_err option \<times> environ" where
  "setEnvs args ks e =
     (if length args > 0 then setEnvs_loop (parse_args args) ks e else (None, e))"

text \<open>\<^verbatim>\<open>os.Args\<close> holds the program's name first; slicing off the name panics on an empty \<^verbatim>\<open>os.Args\<close>.\<close>

definition setEnvsUsingCommandLineArgs ::
    "string list \<Rightarrow> string list \<Rightarrow> environ \<Rightarrow> (go_err option \<times> environ) go" where
  "setEnvsUsingCommandLineArgs os_Args ks e =
     go_bind (go_slice os_Args 1 (int (length os_Args))) (\<lambda>args. Inr (setEnvs args ks e))"

subsection \<open>\<^verbatim>\<open>getters.go\<close>\<close>

definition VarEnviroment :: string where
  "VarEnviroment = ''APP_ENV''"

definition VarWorkDir :: string where
  "VarWorkDir = ''workdir''"

definition VarBaseDir :: string where
  "VarBaseDir = ''basedir''"

definition defaultValue :: "'a list \<Rightarrow> 'a \<Rightarrow> 'a" where
  "defaultValue values default1 = (if length values = 0 then default1 else values ! 0)"

definition env_String :: "string \<Rightarrow> string list \<Rightarrow> environ \<Rightarrow> string" where
  "env_String key defs e =
     (case os_LookupEnv key e of None \<Rightarrow> defaultValue defs [] | Some s \<Rightarrow> s)"

definition env_StringOrNil :: "string \<Rightarrow> environ \<Rightarrow> string option" where
  "env_StringOrNil key e = (case os_LookupEnv key e of None \<Rightarrow> None | Some s \<Rightarrow> Some s)"

definition Workdir :: "environ \<Rightarrow> string" where
  "Workdir e = env_String VarWorkDir [''./''] e"

definition Basedir :: "environ \<Rightarrow> string" where
  "Basedir e = env_String VarBaseDir [''./''] e"

definition WorkdirPlus :: "string list \<Rightarrow> environ \<Rightarrow> string" where
  "WorkdirPlus elem e = filepath_Join (Workdir e # elem)"

definition env_Duration ::
    "(string \<Rightarrow> go_err + int) \<Rightarrow> string \<Rightarrow> int list \<Rightarrow> environ \<Rightarrow> int option" where
  "env_Duration ParseDuration key values e =
     (let def = (\<lambda>v. if length v = 0 then None else Some (v ! 0)) in
      case env_StringOrNil key e of
        None \<Rightarrow> def values
      | Some s \<Rightarrow>
          (case ParseDuration s of
             Inl err \<Rightarrow> def values
           | Inr r \<Rightarrow> Some r))"

text \<open>
  \<^verbatim>\<open>Int[T ~int | ~int32 | ~int8 | ~int64]\<close>: the type parameter is the width of the word, and the
  conversion \<^verbatim>\<open>T(v)\<close> keeps the low bits.
\<close>

definition env_Int :: "string \<Rightarrow> 'w::len word list \<Rightarrow> environ \<Rightarrow> 'w word" where
  "env_Int key value e =
     (case os_LookupEnv key e of
        None \<Rightarrow> defaultValue value 0
      | Some s \<Rightarrow>
          (case strconv_Atoi s of
             Inl err \<Rightarrow> defaultValue value 0
           | Inr v \<Rightarrow> word_of_int v))"

definition env_Bool :: "string \<Rightarrow> bool list \<Rightarrow> environ \<Rightarrow> bool" where
  "env_Bool key value e =
     (case os_LookupEnv key e of
        None \<Rightarrow> defaultValue value False
      | Some s \<Rightarrow>
          (case strconv_ParseBool s of
             Inl err \<Rightarrow> defaultValue value False
           | Inr v \<Rightarrow> v))"

definition env_Array :: "string \<Rightarrow> string \<Rightarrow> environ \<Rightarrow> string list" where
  "env_Array key def e = (let v = env_String key [def] e in strings_Split v '','')"

subsection \<open>\<^verbatim>\<open>env.go\<close>\<close>

record dotenv =
  de_Load :: "string \<Rightarrow> environ \<Rightarrow> go_err option \<times> environ"
  de_Overload :: "string \<Rightarrow> environ \<Rightarrow> go_err option \<times> environ"

definition environments :: "string list" where
  "environments = [''development'', ''production'', ''test'']"

fun load_files :: "dotenv \<Rightarrow> bool \<Rightarrow> string list \<Rightarrow> environ \<Rightarrow> go_err option \<times> environ" where
  "load_files D override [] e = (None, e)"
| "load_files D override (f # fs) e =
     (case (if override then de_Overload D (filepath_Join [Basedir e, f]) e
            else de_Load D (filepath_Join [Basedir e, f]) e) of
        (Some err, e') \<Rightarrow> (Some err, e')
      | (None, e') \<Rightarrow> load_files D override fs e')"

text \<open>One of the five attempts of \<open>Load\<close>: the flag is set when the file was loaded.\<close>

definition try_load :: "dotenv \<Rightarrow> bool \<Rightarrow> string \<Rightarrow> bool \<times> environ \<Rightarrow> bool \<times> environ" where
  "try_load D override f le =
     (case le of (loaded, e) \<Rightarrow>
        (case load_files D override [f] e of
           (None, e') \<Rightarrow> (True, e')
         | (Some err, e') \<Rightarrow> (loaded, e')))"

text \<open>The five attempts, in the order of the code.\<close>

definition load_env_files :: "dotenv \<Rightarrow> string \<Rightarrow> string \<Rightarrow> environ \<Rightarrow> bool \<times> environ" where
  "load_env_files D name environment e =
     (let s1 = try_load D True (''.env.'' @ environment @ ''.local'') (False, e);
          s2 = (if environment \<noteq> ''test'' then try_load D True ''.env.local'' s1 else s1);
          s3 = try_load D False (''.env.'' @ environment) s2;
          s4 = try_load D False (''.env.'' @ name) s3
      in try_load D False ''.env'' s4)"

definition Load ::
    "dotenv \<Rightarrow> string list \<Rightarrow> string list \<Rightarrow> string \<Rightarrow> environ \<Rightarrow>
     ((bool \<times> string \<times> go_err option) \<times> environ) go" where
  "Load D os_Args ks name e0 =
     go_bind (setEnvsUsingCommandLineArgs os_Args ks e0) (\<lambda>(err, e).
       case err of
         Some er \<Rightarrow> Inr ((False, [], Some er), e)
       | None \<Rightarrow>
           (let environment0 = os_Getenv VarEnviroment e;
                blank = (strings_TrimSpace environment0 = []);
                environment = (if blank then ''development'' else environment0)
            in if \<not> blank \<and> environment \<notin> set environments
               then Inr ((False, [], Some (Err (''invalid environment '' @ environment))), e)
               else
                 (case load_env_files D name environment e of
                    (loaded, e') \<Rightarrow> Inr ((loaded, environment, None), e'))))"

subsection \<open>Parsing the command line\<close>

text \<open>What one argument binds: everything after the first \<^verbatim>\<open>=\<close> is the value.\<close>

definition arg_binding :: "string \<Rightarrow> (string \<times> string) option" where
  "arg_binding arg =
     (let body = (if prefix ''--env:'' arg then Some (drop (length ''--env:'') arg)
                  else if prefix ''-e:'' arg then Some (drop (length ''-e:'') arg) else None)
      in case body of
           None \<Rightarrow> None
         | Some v \<Rightarrow>
             (let k = takeWhile (\<lambda>c. c \<noteq> CHR ''='') v in
              if k = v then None else Some (k, drop (Suc (length k)) v)))"

lemma SplitN_2_takeWhile:
  "strings_SplitN v [c] 2 =
     (let k = takeWhile (\<lambda>d. d \<noteq> c) v in
      if k = v then [v] else [k, drop (Suc (length k)) v])"
proof (cases "c \<in> set v")
  case True
  then obtain k t where v: "v = k @ c # t" and k: "c \<notin> set k"
    by (metis split_list_first)
  then have "takeWhile (\<lambda>d. d \<noteq> c) v = k"
    by (auto simp: takeWhile_append)
  then show ?thesis using v k by (simp add: SplitN_2_append)
next
  case False
  then have "takeWhile (\<lambda>d. d \<noteq> c) v = v" by auto
  then show ?thesis using False by (simp add: SplitN_2_None)
qed

definition split_binding :: "string \<Rightarrow> (string \<times> string) option" where
  "split_binding v =
     (let k = takeWhile (\<lambda>c. c \<noteq> CHR ''='') v in
      if k = v then None else Some (k, drop (Suc (length k)) v))"

lemma SplitN_2_binding:
  "strings_SplitN v ''='' 2 = (case split_binding v of None \<Rightarrow> [v] | Some (k, w) \<Rightarrow> [k, w])"
  by (simp add: SplitN_2_takeWhile split_binding_def Let_def del: takeWhile_eq_all_conv)

lemma arg_binding_cases:
  "arg_binding arg =
     (if prefix ''--env:'' arg then split_binding (drop (length ''--env:'') arg)
      else if prefix ''-e:'' arg then split_binding (drop (length ''-e:'') arg) else None)"
  by (simp add: arg_binding_def split_binding_def)

lemma parse_loop_binding:
  "parse_loop (arg # args) m =
     parse_loop args (case arg_binding arg of None \<Rightarrow> m | Some (k, v) \<Rightarrow> m(k \<mapsto> v))"
proof -
  note step = strings_CutPrefix_def SplitN_2_binding arg_binding_cases Let_def
  consider "prefix ''--env:'' arg" | "\<not> prefix ''--env:'' arg" "prefix ''-e:'' arg"
    | "\<not> prefix ''--env:'' arg" "\<not> prefix ''-e:'' arg"
    by blast
  then show ?thesis
  proof cases
    case 1
    then show ?thesis
      by (cases "split_binding (drop (length ''--env:'') arg)") (simp_all add: step split_beta)
  next
    case 2
    then show ?thesis
      by (cases "split_binding (drop (length ''-e:'') arg)") (simp_all add: step split_beta)
  qed (simp add: step)
qed

lemma parse_loop_map_of:
  "parse_loop args m = m ++ map_of (rev (List.map_filter arg_binding args))"
proof (induction args arbitrary: m)
  case (Cons arg args)
  show ?case
    by (cases "arg_binding arg")
       (auto simp: parse_loop_binding Cons.IH map_filter_simps simp del: parse_loop.simps)
qed (simp add: map_filter_simps)

lemma arg_binding_env: "CHR ''='' \<notin> set k \<Longrightarrow> arg_binding (''--env:'' @ k @ ''='' @ v) = Some (k, v)"
  by (auto simp: arg_binding_def Let_def takeWhile_append)

lemma arg_binding_e: "CHR ''='' \<notin> set k \<Longrightarrow> arg_binding (''-e:'' @ k @ ''='' @ v) = Some (k, v)"
  by (auto simp: arg_binding_def Let_def takeWhile_append)

subsection \<open>Setting the parsed variables\<close>

definition bad_var :: "string \<Rightarrow> string \<Rightarrow> bool" where
  "bad_var k v \<longleftrightarrow> k = [] \<or> CHR ''='' \<in> set k \<or> CHR 0x00 \<in> set k \<or> CHR 0x00 \<in> set v"

lemma os_Setenv_eq:
  "os_Setenv k v e = (if bad_var k v then (Some err_EINVAL, e) else (None, e(k \<mapsto> v)))"
  by (simp add: os_Setenv_def bad_var_def)

lemma setEnvs_loop_ok:
  "\<forall>k \<in> set ks. \<not> bad_var k (the (m k)) \<Longrightarrow>
     setEnvs_loop m ks e = (None, e ++ ((\<lambda>k. Some (the (m k))) |` set ks))"
proof (induction ks arbitrary: e)
  case Nil
  then show ?case by (simp add: fun_eq_iff map_add_def)
next
  case (Cons k ks)
  then have "setEnvs_loop m ks (e(k \<mapsto> the (m k))) =
      (None, e(k \<mapsto> the (m k)) ++ ((\<lambda>k. Some (the (m k))) |` set ks))"
    by auto
  moreover have "e(k \<mapsto> the (m k)) ++ ((\<lambda>k. Some (the (m k))) |` set ks) =
      e ++ ((\<lambda>k. Some (the (m k))) |` set (k # ks))"
    by (auto simp: fun_eq_iff map_add_def restrict_map_def)
  ultimately show ?case using Cons.prems by (simp add: os_Setenv_eq)
qed

lemma setEnvs_loop_bad:
  "\<exists>k \<in> set ks. bad_var k (the (m k)) \<Longrightarrow> fst (setEnvs_loop m ks e) = Some err_EINVAL"
  by (induction ks arbitrary: e) (auto simp: os_Setenv_eq)

lemma restrict_dom_the: "set ks = dom m \<Longrightarrow> (\<lambda>k. Some (the (m k))) |` set ks = m"
  by (auto simp: fun_eq_iff restrict_map_def dom_def)

lemma setEnvs_ok:
  assumes "range_order (parse_args args) ks" and "\<And>k v. parse_args args k = Some v \<Longrightarrow> \<not> bad_var k v"
  shows "setEnvs args ks e = (None, e ++ parse_args args)"
proof (cases "args = []")
  case True
  then show ?thesis by (simp add: setEnvs_def parse_args_def)
next
  case False
  have dom: "set ks = dom (parse_args args)"
    using assms(1) by (simp add: range_order_def)
  have "\<forall>k \<in> set ks. \<not> bad_var k (the (parse_args args k))"
    using assms(2) dom by auto
  from setEnvs_loop_ok [OF this, of e] show ?thesis
    using False by (simp add: setEnvs_def restrict_dom_the [OF dom])
qed

subsection \<open>The order in which \<open>Load\<close> applies the files\<close>

definition dotenv_ok :: "dotenv \<Rightarrow> (string \<Rightarrow> go_err + environ) \<Rightarrow> bool" where
  "dotenv_ok D files \<longleftrightarrow>
     (\<forall>p e. de_Load D p e =
        (case files p of Inl err \<Rightarrow> (Some err, e) | Inr c \<Rightarrow> (None, c ++ e))) \<and>
     (\<forall>p e. de_Overload D p e =
        (case files p of Inl err \<Rightarrow> (Some err, e) | Inr c \<Rightarrow> (None, e ++ c)))"

definition file_vars :: "(string \<Rightarrow> go_err + environ) \<Rightarrow> string \<Rightarrow> string \<Rightarrow> environ" where
  "file_vars files base f =
     (case files (filepath_Join [base, f]) of Inl err \<Rightarrow> Map.empty | Inr c \<Rightarrow> c)"

definition file_there :: "(string \<Rightarrow> go_err + environ) \<Rightarrow> string \<Rightarrow> string \<Rightarrow> bool" where
  "file_there files base f =
     (case files (filepath_Join [base, f]) of Inl err \<Rightarrow> False | Inr c \<Rightarrow> True)"

lemma try_load_eq:
  assumes "dotenv_ok D files"
  shows "try_load D override f (l, e) =
     (l \<or> file_there files (Basedir e) f,
      if override then e ++ file_vars files (Basedir e) f else file_vars files (Basedir e) f ++ e)"
  using assms
  by (auto simp: try_load_def dotenv_ok_def file_vars_def file_there_def split: sum.splits)

lemma Basedir_cong: "e VarBaseDir = e' VarBaseDir \<Longrightarrow> Basedir e = Basedir e'"
  by (simp add: Basedir_def env_String_def os_LookupEnv_def VarBaseDir_def)

definition keeps_basedir :: "(string \<Rightarrow> go_err + environ) \<Rightarrow> bool" where
  "keeps_basedir files \<longleftrightarrow> (\<forall>p c. files p = Inr c \<longrightarrow> c VarBaseDir = None)"

lemma file_vars_basedir:
  assumes "keeps_basedir files"
  shows "file_vars files b f VarBaseDir = None"
  using assms by (auto simp: keeps_basedir_def file_vars_def split: sum.splits)

lemma Basedir_add:
  assumes "keeps_basedir files"
  shows "Basedir (e ++ file_vars files b f) = Basedir e"
    and "Basedir (file_vars files b f ++ e) = Basedir e"
  using file_vars_basedir [OF assms]
  by (auto intro!: Basedir_cong simp: map_add_def split: option.splits)

definition env_of :: "environ \<Rightarrow> string" where
  "env_of e =
     (if strings_TrimSpace (os_Getenv VarEnviroment e) = [] then ''development''
      else os_Getenv VarEnviroment e)"

lemma load_env_files_eq:
  assumes "dotenv_ok D files" and "keeps_basedir files"
  shows "load_env_files D name E e1 =
     (let F = file_vars files (Basedir e1); T = file_there files (Basedir e1) in
      (T ''.env'' \<or> T (''.env.'' @ name) \<or> T (''.env.'' @ E) \<or>
         T (''.env.'' @ E @ ''.local'') \<or> (E \<noteq> ''test'' \<and> T ''.env.local''),
       F ''.env'' ++ (F (''.env.'' @ name) ++ (F (''.env.'' @ E) ++
         ((e1 ++ F (''.env.'' @ E @ ''.local'')) ++
            (if E \<noteq> ''test'' then F ''.env.local'' else Map.empty))))))"
  by (cases "E = ''test''")
     (auto simp: load_env_files_def try_load_eq [OF assms(1)] Basedir_add [OF assms(2)] Let_def
       simp del: map_add_assoc)

lemma Load_Inr:
  assumes "Load D os_Args ks name e0 = Inr ((loaded, E, None), e)"
  shows "\<exists>e1. setEnvs (tl os_Args) ks e0 = (None, e1) \<and> E = env_of e1 \<and> E \<in> set environments \<and>
     load_env_files D name E e1 = (loaded, e)"
proof -
  from assms obtain e1 where cmd: "setEnvsUsingCommandLineArgs os_Args ks e0 = Inr (None, e1)"
    by (auto simp: Load_def go_bind_Inr_iff split: option.splits)
  then have "setEnvs (tl os_Args) ks e0 = (None, e1)"
    by (cases os_Args) (auto simp: setEnvsUsingCommandLineArgs_def go_slice_def)
  moreover have "''development'' \<in> set environments" by (simp add: environments_def)
  ultimately show ?thesis
    using assms cmd
    by (intro exI [where x = e1])
       (auto simp: Load_def env_of_def Let_def split: prod.splits if_splits)
qed


definition read_dotenv :: "(string \<Rightarrow> go_err + environ) \<Rightarrow> dotenv" where
  "read_dotenv files =
     \<lparr>de_Load = (\<lambda>p e. case files p of Inl err \<Rightarrow> (Some err, e) | Inr c \<Rightarrow> (None, c ++ e)),
      de_Overload = (\<lambda>p e. case files p of Inl err \<Rightarrow> (Some err, e) | Inr c \<Rightarrow> (None, e ++ c))\<rparr>"

definition demo_files :: "string \<Rightarrow> go_err + environ" where
  "demo_files p =
     (if p = ''.env.local'' then Inr [''k'' \<mapsto> ''local'']
      else if p = ''.env.development.local'' then Inr [''k'' \<mapsto> ''development.local'']
      else if p = ''.env'' then Inr [''k'' \<mapsto> ''env'', ''j'' \<mapsto> ''env'']
      else Inl (Err ''no such file''))"

lemma read_dotenv_ok: "dotenv_ok (read_dotenv files) files"
  by (simp add: dotenv_ok_def read_dotenv_def)

lemma demo_keeps_basedir: "keeps_basedir demo_files"
  by (auto simp: keeps_basedir_def demo_files_def VarBaseDir_def split: if_splits)

lemma Load_no_args:
  assumes "strings_TrimSpace (os_Getenv VarEnviroment e0) = []"
  shows "Load D [arg0] ks name e0 =
     (case load_env_files D name ''development'' e0 of
        (loaded, e') \<Rightarrow> Inr ((loaded, ''development'', None), e'))"
  using assms
  by (simp add: Load_def setEnvsUsingCommandLineArgs_def go_slice_def setEnvs_def Let_def)


text \<open>
  C25. The command line: the last argument that binds a variable wins, \<^verbatim>\<open>--env:k=v\<close> and \<^verbatim>\<open>-e:k=v\<close> both
  bind \<open>k\<close> to \<open>v\<close> with everything after the first \<^verbatim>\<open>=\<close> in the value, and any other argument
  binds nothing.
\<close>

theorem parse_args_bindings:
  "parse_args args = map_of (rev (List.map_filter arg_binding args)) \<and>
   (CHR ''='' \<notin> set k \<longrightarrow>
      arg_binding (''--env:'' @ k @ ''='' @ v) = Some (k, v) \<and>
      arg_binding (''-e:'' @ k @ ''='' @ v) = Some (k, v)) \<and>
   (\<not> prefix ''--env:'' arg \<and> \<not> prefix ''-e:'' arg \<longrightarrow> arg_binding arg = None)"
  using arg_binding_env [of k v] arg_binding_e [of k v]
  by (auto simp: parse_args_def parse_loop_map_of arg_binding_cases)

theorem parse_args_bindings_witness:
  "arg_binding (''--env:'' @ ''k'' @ ''='' @ ''a=b'') = Some (''k'', ''a=b'') \<and>
   arg_binding ''-v'' = None \<and>
   parse_args [''--env:k=a=b'', ''-v'', ''-e:k=c''] ''k'' = Some ''c''"
  using parse_args_bindings [of "[]" "''k''" "''a=b''" "''-v''"]
    parse_args_bindings [of "[''--env:k=a=b'', ''-v'', ''-e:k=c'']"]
    arg_binding_env [of "''k''" "''a=b''"] arg_binding_e [of "''k''" "''c''"]
  by (simp add: map_filter_simps)

text \<open>
  Setting the parsed variables: when every name is one the system accepts, all of them are set
  whatever the order of the map's iteration; when one is not, the call reports the system's error,
  again in every order.
\<close>

theorem setEnvs_all_or_error:
  assumes "range_order (parse_args args) ks"
  shows "if \<exists>k v. parse_args args k = Some v \<and> bad_var k v
         then fst (setEnvs args ks e) = Some err_EINVAL
         else setEnvs args ks e = (None, e ++ parse_args args)"
proof (cases "\<exists>k v. parse_args args k = Some v \<and> bad_var k v")
  case True
  then obtain k v where "parse_args args k = Some v" and "bad_var k v" by blast
  then have "k \<in> set ks" and "bad_var k (the (parse_args args k))"
    using assms by (auto simp: range_order_def)
  then have "fst (setEnvs_loop (parse_args args) ks e) = Some err_EINVAL"
    by (intro setEnvs_loop_bad) blast
  moreover have "args \<noteq> []"
    using True by (auto simp: parse_args_def)
  ultimately show ?thesis using True by (simp add: setEnvs_def)
next
  case False
  then show ?thesis using setEnvs_ok [OF assms] by auto
qed

theorem setEnvs_all_or_error_witness:
  "setEnvs [''--env:k=v''] [''k''] Map.empty = (None, Map.empty ++ parse_args [''--env:k=v''])"
proof -
  have p: "parse_args [''--env:k=v''] = [''k'' \<mapsto> ''v'']"
    using arg_binding_env [of "''k''" "''v''"]
    by (simp add: parse_args_def parse_loop_map_of map_filter_simps)
  then have "range_order (parse_args [''--env:k=v'']) [''k'']"
    by (simp add: range_order_def)
  from setEnvs_all_or_error [OF this, of Map.empty] show ?thesis
    by (simp add: p bad_var_def split: if_splits)
qed

text \<open>
  C39. \<open>Int\<close> at a width of \<open>w\<close> bits (at most 64): a number in the environment comes back as itself
  when it is in the range of the type, and as a different number, the low \<open>w\<close> bits of it, when it is
  not; what is not a number gives the default.
\<close>

theorem env_Int_wraps:
  "(os_LookupEnv key e = Some s \<and> strconv_Atoi s = Inr v \<longrightarrow>
      sint (env_Int key ds e :: 'w::len word) = signed_take_bit (LENGTH('w) - 1) v \<and>
      (sint (env_Int key ds e :: 'w word) = v \<longleftrightarrow>
         - (2 ^ (LENGTH('w) - 1)) \<le> v \<and> v < 2 ^ (LENGTH('w) - 1))) \<and>
   (os_LookupEnv key e = None \<or> os_LookupEnv key e = Some s \<and> strconv_Atoi s = Inl err \<longrightarrow>
      env_Int key ds e = (case ds of [] \<Rightarrow> 0 | d # _ \<Rightarrow> d))"
proof (intro conjI impI)
  assume h: "os_LookupEnv key e = Some s \<and> strconv_Atoi s = Inr v"
  then have i: "(env_Int key ds e :: 'w word) = word_of_int v"
    by (simp add: env_Int_def)
  show "sint (env_Int key ds e :: 'w word) = signed_take_bit (LENGTH('w) - 1) v"
    unfolding i by transfer simp
  then show "sint (env_Int key ds e :: 'w word) = v \<longleftrightarrow>
         - (2 ^ (LENGTH('w) - 1)) \<le> v \<and> v < 2 ^ (LENGTH('w) - 1)"
    by (simp add: signed_take_bit_int_eq_self_iff)
next
  assume "os_LookupEnv key e = None \<or> os_LookupEnv key e = Some s \<and> strconv_Atoi s = Inl err"
  then show "env_Int key ds e = (case ds of [] \<Rightarrow> 0 | d # _ \<Rightarrow> d)"
    by (auto simp: env_Int_def defaultValue_def split: list.splits)
qed

theorem env_Int_wraps_witness:
  "sint (env_Int ''log.level'' [1] [''log.level'' \<mapsto> ''257''] :: 8 word) = 1 \<and>
   sint (env_Int ''log.level'' [1] [''log.level'' \<mapsto> ''257''] :: 16 word) = 257"
proof -
  have a: "strconv_Atoi ''257'' = Inr 257"
    by (simp add: strconv_Atoi_def digit_of_def)
  have l: "os_LookupEnv ''log.level'' [''log.level'' \<mapsto> ''257''] = Some ''257''"
    by (simp add: os_LookupEnv_def)
  show ?thesis
    using env_Int_wraps [of "''log.level''" "[''log.level'' \<mapsto> ''257'']" "''257''" 257 "[1 :: 8 word]"]
      env_Int_wraps [of "''log.level''" "[''log.level'' \<mapsto> ''257'']" "''257''" 257 "[1 :: 16 word]"]
      a l by (simp add: signed_take_bit_int_eq_self_iff)
qed

end
