(* ===== verification/Syncutil.thy ===== *)
theory Syncutil
  imports Prelude
begin

text \<open>
  \<^verbatim>\<open>pkg/syncutil\<close>: \<^verbatim>\<open>GValue\<close> (\<^verbatim>\<open>gvalue.go\<close>), a typed \<^verbatim>\<open>atomic.Value\<close>, and \<^verbatim>\<open>OnceDisposable\<close> (\<^verbatim>\<open>once.go\<close>),
  which runs an initialiser at most once and a disposer at most once.  \<^verbatim>\<open>OnceDisposable\<close> is a step
  relation over any number of goroutines: each load, store, lock and unlock of \<open>Do\<close> and \<open>Dispose\<close> is
  a step, and the callbacks' results are the environment's choice.
\<close>

subsection \<open>\<^verbatim>\<open>gvalue.go\<close>\<close>

text \<open>
  What \<^verbatim>\<open>atomic.Value\<close> needs to know of the type parameter: its zero value, which values are nil
  interfaces, the dynamic type of a value, and whether values of it can be compared.
\<close>

record 'a gotype =
  gt_zero :: 'a
  gt_nil :: "'a \<Rightarrow> bool"
  gt_type :: "'a \<Rightarrow> string"
  gt_comparable :: "'a \<Rightarrow> bool"

type_synonym 'a GValue = "'a option"

definition GValue_Load :: "'a gotype \<Rightarrow> 'a GValue \<Rightarrow> 'a" where
  "GValue_Load T v = (case v of None \<Rightarrow> gt_zero T | Some val \<Rightarrow> val)"

definition GValue_Store :: "'a gotype \<Rightarrow> 'a \<Rightarrow> 'a GValue \<Rightarrow> 'a GValue go" where
  "GValue_Store T val v =
     (if gt_nil T val then Inl StoreOfNil
      else (case v of
              None \<Rightarrow> Inr (Some val)
            | Some cur \<Rightarrow>
                if gt_type T cur \<noteq> gt_type T val then Inl InconsistentType else Inr (Some val)))"

definition NewGValue :: "'a gotype \<Rightarrow> 'a \<Rightarrow> 'a GValue go" where
  "NewGValue T t = GValue_Store T t None"

definition GValue_Swap :: "'a gotype \<Rightarrow> 'a \<Rightarrow> 'a GValue \<Rightarrow> ('a \<times> 'a GValue) go" where
  "GValue_Swap T newval v =
     go_bind (GValue_Store T newval v) (\<lambda>v'.
       Inr (case v of None \<Rightarrow> gt_zero T | Some old \<Rightarrow> old, v'))"

definition GValue_CompareAndSwap ::
    "'a gotype \<Rightarrow> 'a \<Rightarrow> 'a \<Rightarrow> 'a GValue \<Rightarrow> (bool \<times> 'a GValue) go" where
  "GValue_CompareAndSwap T oldval newval v =
     (if gt_nil T newval then Inl StoreOfNil
      else if \<not> gt_nil T oldval \<and> gt_type T oldval \<noteq> gt_type T newval then Inl InconsistentType
      else
        (case v of
           None \<Rightarrow> if gt_nil T oldval then Inr (True, Some newval) else Inr (False, None)
         | Some cur \<Rightarrow>
             if gt_type T cur \<noteq> gt_type T newval then Inl InconsistentType
             else if gt_nil T oldval then Inr (False, v)
             else if \<not> gt_comparable T cur then Inl IncomparableType
             else if cur \<noteq> oldval then Inr (False, v)
             else Inr (True, Some newval)))"

definition GValue_Init :: "'a gotype \<Rightarrow> 'a GValue \<Rightarrow> 'a GValue go" where
  "GValue_Init T v = GValue_Store T (gt_zero T) v"

text \<open>The two instances \<^verbatim>\<open>OnceDisposable\<close> uses: \<^verbatim>\<open>GValue[bool]\<close> and \<^verbatim>\<open>GValue[error]\<close>.\<close>

definition bool_gt :: "bool gotype" where
  "bool_gt = \<lparr>gt_zero = False, gt_nil = (\<lambda>_. False), gt_type = (\<lambda>_. ''bool''),
              gt_comparable = (\<lambda>_. True)\<rparr>"

definition err_gt :: "(go_err \<Rightarrow> string) \<Rightarrow> go_err option gotype" where
  "err_gt ety = \<lparr>gt_zero = None, gt_nil = (\<lambda>e. e = None), gt_type = (\<lambda>e. ety (the e)),
                 gt_comparable = (\<lambda>_. True)\<rparr>"

lemma bool_Store [simp]: "GValue_Store bool_gt b v = Inr (Some b)"
  by (simp add: GValue_Store_def bool_gt_def split: option.splits)

lemma bool_Load [simp]:
  "GValue_Load bool_gt (Some b) = b"
  "GValue_Load bool_gt None = False"
  by (simp_all add: GValue_Load_def bool_gt_def)

lemma err_Load [simp]:
  "GValue_Load (err_gt ety) (Some e) = e"
  "GValue_Load (err_gt ety) None = None"
  by (simp_all add: GValue_Load_def err_gt_def)

lemma err_Store_empty [simp]: "GValue_Store (err_gt ety) (Some e) None = Inr (Some (Some e))"
  by (simp add: GValue_Store_def err_gt_def)

lemma CompareAndSwap_spec:
  "GValue_CompareAndSwap T x y v = Inr (b, v') \<Longrightarrow>
     v' = (if b then Some y else v) \<and> (b \<longrightarrow> v = Some x \<or> v = None \<and> gt_nil T x)"
  by (auto simp: GValue_CompareAndSwap_def split: if_splits option.splits)

subsection \<open>\<^verbatim>\<open>once.go\<close>: the program of a goroutine\<close>

text \<open>
  The place of a goroutine in \<open>Do\<close> and \<open>Dispose\<close>.  The constructors with an argument carry the
  callback's outcome or the value about to be returned; deferred calls run in reverse order, after
  the returned value is computed.
\<close>

datatype once_pc =
    Idle
  | Do_check_disposed
  | Do_fast_done
  | Do_fast_disposed
  | Do_lock
  | Do_recheck_done
  | Do_recheck_disposed
  | Do_call
  | Do_running
  | Do_store_err go_err
  | Do_load_ran
  | Do_defer_done "go_err option go"
  | Do_load_locked
  | Do_unlock "go_err option go"
  | Do_load
  | Do_return "go_err option go"
  | Dispose_check
  | Dispose_lock
  | Dispose_recheck
  | Dispose_call
  | Dispose_running
  | Dispose_store_err go_err
  | Dispose_load_ran
  | Dispose_defer_disposed "go_err option go"
  | Dispose_load_locked
  | Dispose_unlock "go_err option go"
  | Dispose_load
  | Dispose_return "go_err option go"

text \<open>
  The shared fields, the goroutines' places, and two counters that no code reads: how often a \<open>Do\<close>
  callback and a \<open>Dispose\<close> callback have been started.
\<close>

record OnceDisposable =
  od_done :: "bool GValue"
  od_disposed :: "bool GValue"
  od_errDone :: "go_err option GValue"
  od_errDispose :: "go_err option GValue"
  od_m :: "nat option"
  od_pc :: "nat \<Rightarrow> once_pc"
  od_do_runs :: nat
  od_dispose_runs :: nat

definition err_disposed :: go_err where
  "err_disposed = Err ''disposable object already disposed''"

definition NewOnceDisposable :: "OnceDisposable go" where
  "NewOnceDisposable =
     go_bind (NewGValue bool_gt False) (\<lambda>dn.
     go_bind (NewGValue bool_gt False) (\<lambda>dp.
       Inr \<lparr>od_done = dn, od_disposed = dp, od_errDone = None, od_errDispose = None,
            od_m = None, od_pc = (\<lambda>_. Idle), od_do_runs = 0, od_dispose_runs = 0\<rparr>))"

abbreviation is_done :: "OnceDisposable \<Rightarrow> bool" where
  "is_done o1 \<equiv> GValue_Load bool_gt (od_done o1)"

abbreviation wasDisposed :: "OnceDisposable \<Rightarrow> bool" where
  "wasDisposed o1 \<equiv> GValue_Load bool_gt (od_disposed o1)"

definition goto :: "nat \<Rightarrow> once_pc \<Rightarrow> OnceDisposable \<Rightarrow> OnceDisposable" where
  "goto i p o1 = o1\<lparr>od_pc := (od_pc o1)(i := p)\<rparr>"

inductive do_step :: "(go_err \<Rightarrow> string) \<Rightarrow> nat \<Rightarrow> OnceDisposable \<Rightarrow> OnceDisposable \<Rightarrow> bool"
  for ety i where
  do_enter: "od_pc o1 i = Idle \<Longrightarrow> do_step ety i o1 (goto i Do_check_disposed o1)"
| do_disposed: "od_pc o1 i = Do_check_disposed \<Longrightarrow> wasDisposed o1 \<Longrightarrow>
    do_step ety i o1 (goto i (Do_return (Inr (Some err_disposed))) o1)"
| do_not_disposed: "od_pc o1 i = Do_check_disposed \<Longrightarrow> \<not> wasDisposed o1 \<Longrightarrow>
    do_step ety i o1 (goto i Do_fast_done o1)"
| do_fast_done: "od_pc o1 i = Do_fast_done \<Longrightarrow>
    do_step ety i o1 (goto i (if is_done o1 then Do_load else Do_fast_disposed) o1)"
| do_fast_disposed: "od_pc o1 i = Do_fast_disposed \<Longrightarrow>
    do_step ety i o1 (goto i (if wasDisposed o1 then Do_load else Do_lock) o1)"
| do_lock: "od_pc o1 i = Do_lock \<Longrightarrow> od_m o1 = None \<Longrightarrow>
    do_step ety i o1 (goto i Do_recheck_done (o1\<lparr>od_m := Some i\<rparr>))"
| do_recheck_done: "od_pc o1 i = Do_recheck_done \<Longrightarrow>
    do_step ety i o1 (goto i (if is_done o1 then Do_load_locked else Do_recheck_disposed) o1)"
| do_recheck_disposed: "od_pc o1 i = Do_recheck_disposed \<Longrightarrow>
    do_step ety i o1 (goto i (if wasDisposed o1 then Do_load_locked else Do_call) o1)"
| do_call: "od_pc o1 i = Do_call \<Longrightarrow>
    do_step ety i o1 (goto i Do_running (o1\<lparr>od_do_runs := Suc (od_do_runs o1)\<rparr>))"
| do_f_nil: "od_pc o1 i = Do_running \<Longrightarrow> do_step ety i o1 (goto i Do_load_ran o1)"
| do_f_err: "od_pc o1 i = Do_running \<Longrightarrow> do_step ety i o1 (goto i (Do_store_err err) o1)"
| do_f_panic: "od_pc o1 i = Do_running \<Longrightarrow>
    do_step ety i o1 (goto i (Do_defer_done (Inl (PanicMsg m))) o1)"
| do_store_err: "od_pc o1 i = Do_store_err err \<Longrightarrow>
    GValue_Store (err_gt ety) (Some err) (od_errDone o1) = Inr v \<Longrightarrow>
    do_step ety i o1 (goto i Do_load_ran (o1\<lparr>od_errDone := v\<rparr>))"
| do_store_panic: "od_pc o1 i = Do_store_err err \<Longrightarrow>
    GValue_Store (err_gt ety) (Some err) (od_errDone o1) = Inl p \<Longrightarrow>
    do_step ety i o1 (goto i (Do_defer_done (Inl p)) o1)"
| do_load_ran: "od_pc o1 i = Do_load_ran \<Longrightarrow>
    do_step ety i o1 (goto i (Do_defer_done (Inr (GValue_Load (err_gt ety) (od_errDone o1)))) o1)"
| do_defer_done: "od_pc o1 i = Do_defer_done r \<Longrightarrow> GValue_Store bool_gt True (od_done o1) = Inr v \<Longrightarrow>
    do_step ety i o1 (goto i (Do_unlock r) (o1\<lparr>od_done := v\<rparr>))"
| do_load_locked: "od_pc o1 i = Do_load_locked \<Longrightarrow>
    do_step ety i o1 (goto i (Do_unlock (Inr (GValue_Load (err_gt ety) (od_errDone o1)))) o1)"
| do_unlock: "od_pc o1 i = Do_unlock r \<Longrightarrow>
    do_step ety i o1 (goto i (Do_return r) (o1\<lparr>od_m := None\<rparr>))"
| do_load: "od_pc o1 i = Do_load \<Longrightarrow>
    do_step ety i o1 (goto i (Do_return (Inr (GValue_Load (err_gt ety) (od_errDone o1)))) o1)"
| do_again: "od_pc o1 i = Do_return r \<Longrightarrow> do_step ety i o1 (goto i Idle o1)"

inductive dispose_step :: "(go_err \<Rightarrow> string) \<Rightarrow> nat \<Rightarrow> OnceDisposable \<Rightarrow> OnceDisposable \<Rightarrow> bool"
  for ety i where
  dispose_enter: "od_pc o1 i = Idle \<Longrightarrow> dispose_step ety i o1 (goto i Dispose_check o1)"
| dispose_check: "od_pc o1 i = Dispose_check \<Longrightarrow>
    dispose_step ety i o1 (goto i (if wasDisposed o1 then Dispose_load else Dispose_lock) o1)"
| dispose_lock: "od_pc o1 i = Dispose_lock \<Longrightarrow> od_m o1 = None \<Longrightarrow>
    dispose_step ety i o1 (goto i Dispose_recheck (o1\<lparr>od_m := Some i\<rparr>))"
| dispose_recheck: "od_pc o1 i = Dispose_recheck \<Longrightarrow>
    dispose_step ety i o1 (goto i (if wasDisposed o1 then Dispose_load_locked else Dispose_call) o1)"
| dispose_call: "od_pc o1 i = Dispose_call \<Longrightarrow>
    dispose_step ety i o1 (goto i Dispose_running (o1\<lparr>od_dispose_runs := Suc (od_dispose_runs o1)\<rparr>))"
| dispose_f_nil: "od_pc o1 i = Dispose_running \<Longrightarrow> dispose_step ety i o1 (goto i Dispose_load_ran o1)"
| dispose_f_err: "od_pc o1 i = Dispose_running \<Longrightarrow>
    dispose_step ety i o1 (goto i (Dispose_store_err err) o1)"
| dispose_f_panic: "od_pc o1 i = Dispose_running \<Longrightarrow>
    dispose_step ety i o1 (goto i (Dispose_defer_disposed (Inl (PanicMsg m))) o1)"
| dispose_store_err: "od_pc o1 i = Dispose_store_err err \<Longrightarrow>
    GValue_Store (err_gt ety) (Some err) (od_errDispose o1) = Inr v \<Longrightarrow>
    dispose_step ety i o1 (goto i Dispose_load_ran (o1\<lparr>od_errDispose := v\<rparr>))"
| dispose_store_panic: "od_pc o1 i = Dispose_store_err err \<Longrightarrow>
    GValue_Store (err_gt ety) (Some err) (od_errDispose o1) = Inl p \<Longrightarrow>
    dispose_step ety i o1 (goto i (Dispose_defer_disposed (Inl p)) o1)"
| dispose_load_ran: "od_pc o1 i = Dispose_load_ran \<Longrightarrow>
    dispose_step ety i o1
      (goto i (Dispose_defer_disposed (Inr (GValue_Load (err_gt ety) (od_errDispose o1)))) o1)"
| dispose_defer: "od_pc o1 i = Dispose_defer_disposed r \<Longrightarrow>
    GValue_Store bool_gt True (od_disposed o1) = Inr v \<Longrightarrow>
    dispose_step ety i o1 (goto i (Dispose_unlock r) (o1\<lparr>od_disposed := v\<rparr>))"
| dispose_load_locked: "od_pc o1 i = Dispose_load_locked \<Longrightarrow>
    dispose_step ety i o1
      (goto i (Dispose_unlock (Inr (GValue_Load (err_gt ety) (od_errDispose o1)))) o1)"
| dispose_unlock: "od_pc o1 i = Dispose_unlock r \<Longrightarrow>
    dispose_step ety i o1 (goto i (Dispose_return r) (o1\<lparr>od_m := None\<rparr>))"
| dispose_load: "od_pc o1 i = Dispose_load \<Longrightarrow>
    dispose_step ety i o1
      (goto i (Dispose_return (Inr (GValue_Load (err_gt ety) (od_errDispose o1)))) o1)"
| dispose_again: "od_pc o1 i = Dispose_return r \<Longrightarrow> dispose_step ety i o1 (goto i Idle o1)"

inductive once_reach :: "(go_err \<Rightarrow> string) \<Rightarrow> OnceDisposable \<Rightarrow> bool" for ety where
  once_new: "NewOnceDisposable = Inr o1 \<Longrightarrow> once_reach ety o1"
| once_do: "once_reach ety o1 \<Longrightarrow> do_step ety i o1 o2 \<Longrightarrow> once_reach ety o2"
| once_dispose: "once_reach ety o1 \<Longrightarrow> dispose_step ety i o1 o2 \<Longrightarrow> once_reach ety o2"

subsection \<open>The invariant\<close>

text \<open>
  \<open>in_cs\<close>: the goroutine holds the mutex; \<open>do_active\<close> and \<open>dispose_active\<close>: its callback has been
  started and the flag not yet set.
\<close>

fun in_cs :: "once_pc \<Rightarrow> bool" where
  "in_cs Do_recheck_done = True"
| "in_cs Do_recheck_disposed = True"
| "in_cs Do_call = True"
| "in_cs Do_running = True"
| "in_cs (Do_store_err e) = True"
| "in_cs Do_load_ran = True"
| "in_cs (Do_defer_done r) = True"
| "in_cs Do_load_locked = True"
| "in_cs (Do_unlock r) = True"
| "in_cs Dispose_recheck = True"
| "in_cs Dispose_call = True"
| "in_cs Dispose_running = True"
| "in_cs (Dispose_store_err e) = True"
| "in_cs Dispose_load_ran = True"
| "in_cs (Dispose_defer_disposed r) = True"
| "in_cs Dispose_load_locked = True"
| "in_cs (Dispose_unlock r) = True"
| "in_cs _ = False"

fun do_active :: "once_pc \<Rightarrow> bool" where
  "do_active Do_running = True"
| "do_active (Do_store_err e) = True"
| "do_active Do_load_ran = True"
| "do_active (Do_defer_done r) = True"
| "do_active _ = False"

fun dispose_active :: "once_pc \<Rightarrow> bool" where
  "dispose_active Dispose_running = True"
| "dispose_active (Dispose_store_err e) = True"
| "dispose_active Dispose_load_ran = True"
| "dispose_active (Dispose_defer_disposed r) = True"
| "dispose_active _ = False"

text \<open>The goroutine in the critical section, or an idle one when the mutex is free.\<close>

definition cs_pc :: "OnceDisposable \<Rightarrow> once_pc" where
  "cs_pc o1 = (case od_m o1 of None \<Rightarrow> Idle | Some i \<Rightarrow> od_pc o1 i)"

text \<open>What the flags, the counters and the stored errors are, given that goroutine's place.\<close>

definition flags_ok :: "OnceDisposable \<Rightarrow> once_pc \<Rightarrow> bool" where
  "flags_ok o1 p \<longleftrightarrow>
     (do_active p \<longrightarrow> \<not> is_done o1 \<and> \<not> wasDisposed o1 \<and> od_do_runs o1 = 1) \<and>
     (\<not> do_active p \<longrightarrow> od_do_runs o1 = (if is_done o1 then 1 else 0)) \<and>
     (dispose_active p \<longrightarrow> \<not> wasDisposed o1 \<and> od_dispose_runs o1 = 1) \<and>
     (\<not> dispose_active p \<longrightarrow> od_dispose_runs o1 = (if wasDisposed o1 then 1 else 0)) \<and>
     (p = Do_recheck_disposed \<or> p = Do_call \<longrightarrow> \<not> is_done o1) \<and>
     (p = Do_call \<or> p = Dispose_call \<longrightarrow> \<not> wasDisposed o1) \<and>
     (p = Do_running \<or> (\<exists>e. p = Do_store_err e) \<or> \<not> is_done o1 \<and> \<not> do_active p \<longrightarrow>
        od_errDone o1 = None) \<and>
     (p = Dispose_running \<or> (\<exists>e. p = Dispose_store_err e) \<or> \<not> wasDisposed o1 \<and> \<not> dispose_active p \<longrightarrow>
        od_errDispose o1 = None)"

text \<open>What a goroutine that has computed, or is about to load, its result knows.\<close>

definition result_ok :: "(go_err \<Rightarrow> string) \<Rightarrow> OnceDisposable \<Rightarrow> once_pc \<Rightarrow> bool" where
  "result_ok ety o1 p \<longleftrightarrow>
     (p = Do_load \<or> p = Do_load_locked \<longrightarrow> is_done o1 \<or> wasDisposed o1) \<and>
     (\<forall>r. p = Do_defer_done (Inr r) \<longrightarrow> r = GValue_Load (err_gt ety) (od_errDone o1)) \<and>
     (\<forall>r. p = Do_unlock (Inr r) \<longrightarrow>
        (is_done o1 \<or> wasDisposed o1) \<and> r = GValue_Load (err_gt ety) (od_errDone o1)) \<and>
     (\<forall>r. p = Do_return (Inr r) \<longrightarrow>
        r = Some err_disposed \<and> wasDisposed o1 \<or>
        (is_done o1 \<or> wasDisposed o1) \<and> r = GValue_Load (err_gt ety) (od_errDone o1)) \<and>
     (p = Dispose_load \<or> p = Dispose_load_locked \<longrightarrow> wasDisposed o1) \<and>
     (\<forall>r. p = Dispose_defer_disposed (Inr r) \<longrightarrow> r = GValue_Load (err_gt ety) (od_errDispose o1)) \<and>
     (\<forall>r. p = Dispose_unlock (Inr r) \<or> p = Dispose_return (Inr r) \<longrightarrow>
        wasDisposed o1 \<and> r = GValue_Load (err_gt ety) (od_errDispose o1))"

definition once_inv :: "(go_err \<Rightarrow> string) \<Rightarrow> OnceDisposable \<Rightarrow> bool" where
  "once_inv ety o1 \<longleftrightarrow>
     (\<forall>i. in_cs (od_pc o1 i) \<longleftrightarrow> od_m o1 = Some i) \<and>
     flags_ok o1 (cs_pc o1) \<and>
     (\<forall>i. result_ok ety o1 (od_pc o1 i))"

lemma once_inv_owner:
  "once_inv ety o1 \<Longrightarrow> in_cs (od_pc o1 i) \<longleftrightarrow> od_m o1 = Some i"
  by (simp add: once_inv_def)

lemma once_inv_flags: "once_inv ety o1 \<Longrightarrow> flags_ok o1 (cs_pc o1)"
  by (simp add: once_inv_def)

lemma once_inv_result: "once_inv ety o1 \<Longrightarrow> result_ok ety o1 (od_pc o1 i)"
  by (simp add: once_inv_def)

lemma goto_sel [simp]:
  "od_m (goto i p o1) = od_m o1" "od_done (goto i p o1) = od_done o1"
  "od_disposed (goto i p o1) = od_disposed o1" "od_errDone (goto i p o1) = od_errDone o1"
  "od_errDispose (goto i p o1) = od_errDispose o1" "od_do_runs (goto i p o1) = od_do_runs o1"
  "od_dispose_runs (goto i p o1) = od_dispose_runs o1"
  "od_pc (goto i p o1) j = (if j = i then p else od_pc o1 j)"
  by (simp_all add: goto_def)

lemma flags_goto [simp]: "flags_ok (goto i p o1) q = flags_ok o1 q"
  by (simp add: flags_ok_def)

lemma result_goto [simp]: "result_ok ety (goto i p o1) q = result_ok ety o1 q"
  by (simp add: result_ok_def)

lemma cs_pc_goto [simp]: "cs_pc (goto i p o1) = (if od_m o1 = Some i then p else cs_pc o1)"
  by (simp add: cs_pc_def split: option.splits)

lemma cs_pc_owner: "od_m o1 = Some i \<Longrightarrow> cs_pc o1 = od_pc o1 i"
  by (simp add: cs_pc_def)

lemma cs_pc_free: "od_m o1 = None \<Longrightarrow> cs_pc o1 = Idle"
  by (simp add: cs_pc_def)

lemma once_inv_new: "NewOnceDisposable = Inr o1 \<Longrightarrow> once_inv ety o1"
  by (auto simp: NewOnceDisposable_def NewGValue_def once_inv_def cs_pc_def flags_ok_def result_ok_def)

text \<open>
  The facts about the moving goroutine a preservation proof starts from: whether it holds the mutex,
  the flags as its place sees them, and its own result.
\<close>

lemma once_inv_at:
  assumes "once_inv ety o1"
  shows "od_m o1 = Some i \<longleftrightarrow> in_cs (od_pc o1 i)" and "result_ok ety o1 (od_pc o1 i)"
    and "in_cs (od_pc o1 i) \<Longrightarrow> flags_ok o1 (od_pc o1 i)"
    and "od_m o1 = None \<Longrightarrow> flags_ok o1 Idle" and "flags_ok o1 (cs_pc o1)"
  using once_inv_owner [OF assms, of i] once_inv_result [OF assms] once_inv_flags [OF assms]
    cs_pc_owner [of o1 i] cs_pc_free [of o1]
  by auto

lemma do_step_in_cs:
  assumes "do_step ety i o1 o2" and "once_inv ety o1"
  shows "in_cs (od_pc o2 j) \<longleftrightarrow> od_m o2 = Some j"
  using assms(1) once_inv_at(1) [OF assms(2), of i] once_inv_at(1) [OF assms(2), of j]
  by (cases rule: do_step.cases) auto

lemma do_step_flags:
  assumes "do_step ety i o1 o2" and "once_inv ety o1"
  shows "flags_ok o2 (cs_pc o2)"
  using assms(1) once_inv_at(1-3) [OF assms(2), of i] once_inv_at(4,5) [OF assms(2)]
  by (cases rule: do_step.cases) (auto simp: flags_ok_def cs_pc_free cs_pc_owner split: if_splits)

lemma do_step_result:
  assumes "do_step ety i o1 o2" and "once_inv ety o1"
  shows "result_ok ety o2 (od_pc o2 j)"
  using assms(1) once_inv_at(1-3) [OF assms(2), of i] once_inv_at(1-3) [OF assms(2), of j]
  by (cases rule: do_step.cases) (auto simp: flags_ok_def result_ok_def split: if_splits)

lemma dispose_step_in_cs:
  assumes "dispose_step ety i o1 o2" and "once_inv ety o1"
  shows "in_cs (od_pc o2 j) \<longleftrightarrow> od_m o2 = Some j"
  using assms(1) once_inv_at(1) [OF assms(2), of i] once_inv_at(1) [OF assms(2), of j]
  by (cases rule: dispose_step.cases) auto

lemma dispose_step_flags:
  assumes "dispose_step ety i o1 o2" and "once_inv ety o1"
  shows "flags_ok o2 (cs_pc o2)"
  using assms(1) once_inv_at(1-3) [OF assms(2), of i] once_inv_at(4,5) [OF assms(2)]
  by (cases rule: dispose_step.cases) (auto simp: flags_ok_def cs_pc_free cs_pc_owner split: if_splits)

lemma dispose_step_result:
  assumes "dispose_step ety i o1 o2" and "once_inv ety o1"
  shows "result_ok ety o2 (od_pc o2 j)"
  using assms(1) once_inv_at(1-3) [OF assms(2), of i] once_inv_at(1-3) [OF assms(2), of j]
  by (cases rule: dispose_step.cases) (auto simp: flags_ok_def result_ok_def split: if_splits)

subsection \<open>Every reachable state\<close>

lemma once_inv_do: "do_step ety i o1 o2 \<Longrightarrow> once_inv ety o1 \<Longrightarrow> once_inv ety o2"
  using do_step_in_cs [of ety i o1 o2] do_step_flags [of ety i o1 o2] do_step_result [of ety i o1 o2]
  by (simp add: once_inv_def [of ety o2])

lemma once_inv_dispose: "dispose_step ety i o1 o2 \<Longrightarrow> once_inv ety o1 \<Longrightarrow> once_inv ety o2"
  using dispose_step_in_cs [of ety i o1 o2] dispose_step_flags [of ety i o1 o2]
    dispose_step_result [of ety i o1 o2]
  by (simp add: once_inv_def [of ety o2])

lemma once_reach_inv: "once_reach ety o1 \<Longrightarrow> once_inv ety o1"
  by (induction rule: once_reach.induct) (blast intro: once_inv_new once_inv_do once_inv_dispose)+

text \<open>The goroutine whose callback is running owns the mutex.\<close>

lemma active_in_cs: "do_active p \<Longrightarrow> in_cs p" "dispose_active p \<Longrightarrow> in_cs p"
  by (cases p; simp)+

lemma active_owner:
  "once_inv ety o1 \<Longrightarrow> do_active (od_pc o1 i) \<or> dispose_active (od_pc o1 i) \<Longrightarrow> od_m o1 = Some i"
  using once_inv_owner active_in_cs by blast

text \<open>What any goroutine may do next, and what follows from a state.\<close>

definition once_step :: "(go_err \<Rightarrow> string) \<Rightarrow> OnceDisposable \<Rightarrow> OnceDisposable \<Rightarrow> bool" where
  "once_step ety o1 o2 \<longleftrightarrow> (\<exists>i. do_step ety i o1 o2 \<or> dispose_step ety i o1 o2)"

lemma once_step_reach: "once_step ety o1 o2 \<Longrightarrow> once_reach ety o1 \<Longrightarrow> once_reach ety o2"
  by (auto simp: once_step_def intro: once_do once_dispose)

lemma once_steps_reach: "(once_step ety)\<^sup>*\<^sup>* o1 o2 \<Longrightarrow> once_reach ety o1 \<Longrightarrow> once_reach ety o2"
  by (induction rule: rtranclp_induct) (auto intro: once_step_reach)

lemma once_step_after_dispose:
  assumes step: "once_step ety o1 o2" and inv: "once_inv ety o1" and gone: "wasDisposed o1"
  shows "wasDisposed o2 \<and> od_do_runs o2 = od_do_runs o1 \<and>
         od_errDone o2 = od_errDone o1 \<and> od_errDispose o2 = od_errDispose o1"
proof -
  from step obtain i where "do_step ety i o1 o2 \<or> dispose_step ety i o1 o2"
    by (auto simp: once_step_def)
  then show ?thesis
    using once_inv_at(1,3) [OF inv, of i] gone
    by (auto simp: flags_ok_def elim!: do_step.cases dispose_step.cases)
qed

text \<open>A new object, and the states of a goroutine 0 in \<open>Do\<close> and a goroutine 1 in \<open>Dispose\<close>.\<close>

definition once_fresh :: OnceDisposable where
  "once_fresh = \<lparr>od_done = Some False, od_disposed = Some False, od_errDone = None,
     od_errDispose = None, od_m = None, od_pc = (\<lambda>_. Idle), od_do_runs = 0, od_dispose_runs = 0\<rparr>"

lemma once_fresh_sel [simp]:
  "od_done once_fresh = Some False" "od_disposed once_fresh = Some False"
  "od_errDone once_fresh = None" "od_errDispose once_fresh = None" "od_m once_fresh = None"
  "od_pc once_fresh i = Idle" "od_do_runs once_fresh = 0" "od_dispose_runs once_fresh = 0"
  by (simp_all add: once_fresh_def)

lemma once_fresh_reach: "once_reach ety once_fresh"
  by (rule once_new) (simp add: NewOnceDisposable_def NewGValue_def once_fresh_def)

lemma goto_goto [simp]: "goto i p (goto i q o1) = goto i p o1"
  by (simp add: goto_def)

lemma goto_update [simp]:
  "(goto i p o1)\<lparr>od_m := m\<rparr> = goto i p (o1\<lparr>od_m := m\<rparr>)"
  "(goto i p o1)\<lparr>od_do_runs := n\<rparr> = goto i p (o1\<lparr>od_do_runs := n\<rparr>)"
  "(goto i p o1)\<lparr>od_dispose_runs := n\<rparr> = goto i p (o1\<lparr>od_dispose_runs := n\<rparr>)"
  "(goto i p o1)\<lparr>od_disposed := b\<rparr> = goto i p (o1\<lparr>od_disposed := b\<rparr>)"
  by (simp_all add: goto_def)

lemma goto_comm: "i \<noteq> j \<Longrightarrow> goto i p (goto j q o1) = goto j q (goto i p o1)"
  by (simp add: goto_def fun_upd_twist)

lemma once_do_to: "once_reach ety o1 \<Longrightarrow> do_step ety i o1 o2 \<Longrightarrow> o2 = o3 \<Longrightarrow> once_reach ety o3"
  using once_do by blast

lemma once_dispose_to:
  "once_reach ety o1 \<Longrightarrow> dispose_step ety i o1 o2 \<Longrightarrow> o2 = o3 \<Longrightarrow> once_reach ety o3"
  using once_dispose by blast

lemma do_running_reach:
  "once_reach ety (goto 0 Do_running (once_fresh\<lparr>od_m := Some 0, od_do_runs := 1\<rparr>))"
proof -
  let ?m = "once_fresh\<lparr>od_m := Some 0\<rparr>"
  have 1: "once_reach ety (goto 0 Do_check_disposed once_fresh)"
    by (rule once_do_to [OF once_fresh_reach do_enter [of _ 0]]) simp_all
  have 2: "once_reach ety (goto 0 Do_fast_done once_fresh)"
    by (rule once_do_to [OF 1 do_not_disposed [of _ 0]]) simp_all
  have 3: "once_reach ety (goto 0 Do_fast_disposed once_fresh)"
    by (rule once_do_to [OF 2 do_fast_done [of _ 0]]) simp_all
  have 4: "once_reach ety (goto 0 Do_lock once_fresh)"
    by (rule once_do_to [OF 3 do_fast_disposed [of _ 0]]) simp_all
  have 5: "once_reach ety (goto 0 Do_recheck_done ?m)"
    by (rule once_do_to [OF 4 do_lock [of _ 0]]) simp_all
  have 6: "once_reach ety (goto 0 Do_recheck_disposed ?m)"
    by (rule once_do_to [OF 5 do_recheck_done [of _ 0]]) simp_all
  have 7: "once_reach ety (goto 0 Do_call ?m)"
    by (rule once_do_to [OF 6 do_recheck_disposed [of _ 0]]) simp_all
  show ?thesis
    by (rule once_do_to [OF 7 do_call [of _ 0]]) simp_all
qed

text \<open>Goroutine 1 disposes of the object while goroutine 0 is between the two loads of its test.\<close>

lemma dispose_race_reach:
  "once_reach ety (goto 0 Do_fast_disposed (goto 1 (Dispose_return (Inr None))
     (once_fresh\<lparr>od_disposed := Some True, od_dispose_runs := 1\<rparr>)))"
proof -
  let ?s = "goto 0 Do_fast_disposed once_fresh"
  let ?m = "?s\<lparr>od_m := Some 1\<rparr>"
  let ?r = "?m\<lparr>od_dispose_runs := 1\<rparr>"
  have a1: "once_reach ety (goto 0 Do_check_disposed once_fresh)"
    by (rule once_do_to [OF once_fresh_reach do_enter [of _ 0]]) simp_all
  have a2: "once_reach ety (goto 0 Do_fast_done once_fresh)"
    by (rule once_do_to [OF a1 do_not_disposed [of _ 0]]) simp_all
  have a3: "once_reach ety ?s"
    by (rule once_do_to [OF a2 do_fast_done [of _ 0]]) simp_all
  have d1: "once_reach ety (goto 1 Dispose_check ?s)"
    by (rule once_dispose_to [OF a3 dispose_enter [of _ 1]]) simp_all
  have d2: "once_reach ety (goto 1 Dispose_lock ?s)"
    by (rule once_dispose_to [OF d1 dispose_check [of _ 1]]) simp_all
  have d3: "once_reach ety (goto 1 Dispose_recheck ?m)"
    by (rule once_dispose_to [OF d2 dispose_lock [of _ 1]]) simp_all
  have d4: "once_reach ety (goto 1 Dispose_call ?m)"
    by (rule once_dispose_to [OF d3 dispose_recheck [of _ 1]]) simp_all
  have d5: "once_reach ety (goto 1 Dispose_running ?r)"
    by (rule once_dispose_to [OF d4 dispose_call [of _ 1]]) simp_all
  have d6: "once_reach ety (goto 1 Dispose_load_ran ?r)"
    by (rule once_dispose_to [OF d5 dispose_f_nil [of _ 1]]) simp_all
  have d7: "once_reach ety (goto 1 (Dispose_defer_disposed (Inr None)) ?r)"
    by (rule once_dispose_to [OF d6 dispose_load_ran [of _ 1]]) simp_all
  have d8: "once_reach ety (goto 1 (Dispose_unlock (Inr None)) (?r\<lparr>od_disposed := Some True\<rparr>))"
    by (rule once_dispose_to [OF d7 dispose_defer [of _ 1]]) simp_all
  show ?thesis
    by (rule once_dispose_to [OF d8 dispose_unlock [of _ 1]])
       (simp_all add: goto_def once_fresh_def fun_upd_twist)
qed

subsection \<open>Properties\<close>

text \<open>C26. Whatever the interleaving of \<^verbatim>\<open>Do\<close> and \<^verbatim>\<open>Dispose\<close> calls, and whether the callbacks return nil, an
  error, or panic, the initialiser is started at most once and the disposer at most once; and while
  one of them runs, no other goroutine runs either.\<close>

theorem once_at_most_once:
  assumes "once_reach ety o1"
  shows "od_do_runs o1 \<le> 1 \<and> od_dispose_runs o1 \<le> 1 \<and>
    (\<forall>i j. (do_active (od_pc o1 i) \<or> dispose_active (od_pc o1 i)) \<and>
           (do_active (od_pc o1 j) \<or> dispose_active (od_pc o1 j)) \<longrightarrow> i = j)"
proof -
  note inv = once_reach_inv [OF assms]
  have "od_do_runs o1 \<le> 1 \<and> od_dispose_runs o1 \<le> 1"
    using once_inv_flags [OF inv]
    by (cases "do_active (cs_pc o1)"; cases "dispose_active (cs_pc o1)") (auto simp: flags_ok_def)
  moreover have "i = j" if "do_active (od_pc o1 i) \<or> dispose_active (od_pc o1 i)"
      and "do_active (od_pc o1 j) \<or> dispose_active (od_pc o1 j)" for i j
    using active_owner [OF inv that(1)] active_owner [OF inv that(2)] by simp
  ultimately show ?thesis by blast
qed

theorem once_at_most_once_witness:
  "do_active (od_pc (goto 0 Do_running (once_fresh\<lparr>od_m := Some 0, od_do_runs := 1\<rparr>)) 0) \<and>
   \<not> (\<exists>j. j \<noteq> 0 \<and> do_active (od_pc (goto 0 Do_running (once_fresh\<lparr>od_m := Some 0, od_do_runs := 1\<rparr>)) j))"
  (is "?n \<and> \<not> ?u")
proof
  show n: ?n by simp
  with once_at_most_once [OF do_running_reach [of "\<lambda>_. []"]] show "\<not> ?u" by blast
qed

text \<open>C27. Once the object is disposed it stays disposed: no initialiser is ever started afterwards, and
  the stored errors never change again.\<close>

theorem once_disposed_final:
  assumes "once_reach ety o1" and "wasDisposed o1" and "(once_step ety)\<^sup>*\<^sup>* o1 o2"
  shows "wasDisposed o2 \<and> od_do_runs o2 = od_do_runs o1 \<and>
         od_errDone o2 = od_errDone o1 \<and> od_errDispose o2 = od_errDispose o1"
  using assms(3)
proof (induction rule: rtranclp_induct)
  case (step y z)
  have "once_inv ety y"
    using once_reach_inv [OF once_steps_reach [OF step.hyps(1) assms(1)]] .
  with once_step_after_dispose [OF step.hyps(2)] step.IH show ?case by simp
qed (simp add: assms(2))

theorem once_disposed_final_witness:
  "od_do_runs (goto 0 Do_load (goto 1 (Dispose_return (Inr None))
     (once_fresh\<lparr>od_disposed := Some True, od_dispose_runs := 1\<rparr>))) = 0"
proof -
  let ?s = "goto 1 (Dispose_return (Inr None)) (once_fresh\<lparr>od_disposed := Some True, od_dispose_runs := 1\<rparr>)"
  have "once_step (\<lambda>_. []) (goto 0 Do_fast_disposed ?s) (goto 0 Do_load ?s)"
    using do_fast_disposed [of "goto 0 Do_fast_disposed ?s" 0 "\<lambda>_. []"]
    by (auto simp: once_step_def)
  from once_disposed_final [OF dispose_race_reach _ r_into_rtranclp, OF _ this]
  show ?thesis by simp
qed

text \<open>What a finished \<^verbatim>\<open>Do\<close> reports: either the object was disposed and the error says so, or the
  initialiser has run or the object has been disposed, and the result is the initialiser's stored
  error.  What a finished \<^verbatim>\<open>Dispose\<close> reports: the object is disposed, and the result is the disposer's
  stored error.\<close>

theorem once_results:
  assumes "once_reach ety o1"
  shows "(od_pc o1 i = Do_return (Inr r) \<longrightarrow>
            wasDisposed o1 \<and> r = Some err_disposed \<or>
            (od_do_runs o1 = 1 \<or> wasDisposed o1) \<and> r = GValue_Load (err_gt ety) (od_errDone o1)) \<and>
         (od_pc o1 i = Dispose_return (Inr r) \<longrightarrow>
            od_dispose_runs o1 = 1 \<and> wasDisposed o1 \<and>
            r = GValue_Load (err_gt ety) (od_errDispose o1))"
proof -
  note inv = once_reach_inv [OF assms]
  have runs: "(is_done o1 \<longrightarrow> od_do_runs o1 = 1) \<and> (wasDisposed o1 \<longrightarrow> od_dispose_runs o1 = 1)"
    using once_inv_flags [OF inv]
    by (cases "do_active (cs_pc o1)"; cases "dispose_active (cs_pc o1)") (auto simp: flags_ok_def)
  with once_inv_result [OF inv, of i] show ?thesis by (auto simp: result_ok_def)
qed

theorem once_results_witness:
  "GValue_Load (err_gt (\<lambda>_. [])) (od_errDispose (goto 0 Do_fast_disposed (goto 1 (Dispose_return (Inr None))
     (once_fresh\<lparr>od_disposed := Some True, od_dispose_runs := 1\<rparr>)))) = None"
  using once_results [OF dispose_race_reach, of 1 None "\<lambda>_. []"] by simp

text \<open>A \<^verbatim>\<open>Do\<close> that races with a \<^verbatim>\<open>Dispose\<close> can return nil although the initialiser never ran and never
  will: the second load of \<^verbatim>\<open>disposed\<close> skips the initialiser without reporting that the object is gone.\<close>

theorem do_dispose_race:
  "\<exists>o1. once_reach ety o1 \<and> od_pc o1 0 = Do_return (Inr None) \<and> od_do_runs o1 = 0 \<and> wasDisposed o1"
proof -
  let ?s = "goto 1 (Dispose_return (Inr None)) (once_fresh\<lparr>od_disposed := Some True, od_dispose_runs := 1\<rparr>)"
  have 1: "once_reach ety (goto 0 Do_load ?s)"
    by (rule once_do_to [OF dispose_race_reach do_fast_disposed [of _ 0]]) simp_all
  have "once_reach ety (goto 0 (Do_return (Inr None)) ?s)"
    by (rule once_do_to [OF 1 do_load [of _ 0]]) simp_all
  then show ?thesis by (intro exI conjI) (assumption, simp_all)
qed

end
