(* ===== verification/Runs.thy ===== *)
theory Runs
  imports Prelude
begin

text \<open>
  What the services' runs have in common, as locales over a step relation: a run that is bounded by a rank
  and goes on until it is over, and a run that follows an abstract machine.
\<close>

subsection \<open>Runs that end\<close>

locale bounded_run =
  fixes step :: "'s \<Rightarrow> 's \<Rightarrow> bool" and inv :: "'s \<Rightarrow> bool" and rank :: "'s \<Rightarrow> nat" and over :: "'s \<Rightarrow> bool"
  assumes keeps: "step s s' \<Longrightarrow> inv s \<Longrightarrow> inv s'"
    and sinks: "step s s' \<Longrightarrow> inv s \<Longrightarrow> rank s' < rank s"
    and goes_on: "inv s \<Longrightarrow> \<not> over s \<Longrightarrow> \<exists>s'. step s s'"
begin

lemma inv_run: "step\<^sup>*\<^sup>* s s' \<Longrightarrow> inv s \<Longrightarrow> inv s'"
  by (induction rule: rtranclp_induct) (auto intro: keeps)

text \<open>A run of \<open>n\<close> steps uses up \<open>n\<close> of the rank.\<close>

lemma run_length: "(step ^^ n) s s' \<Longrightarrow> inv s \<Longrightarrow> n + rank s' \<le> rank s"
proof (induction n arbitrary: s')
  case (Suc n)
  then obtain t where t: "(step ^^ n) s t" "step t s'" by auto
  then have "inv t" using inv_run Suc.prems(2) by (meson relpowp_imp_rtranclp)
  then show ?case using Suc.IH [OF t(1) Suc.prems(2)] sinks [OF t(2)] by simp
qed simp

lemma no_infinite_run: "inv s \<Longrightarrow> \<not> (\<exists>f. f 0 = s \<and> (\<forall>i. step (f i) (f (Suc i))))"
proof
  assume i: "inv s" and "\<exists>f. f 0 = s \<and> (\<forall>i. step (f i) (f (Suc i)))"
  then obtain f where f: "f 0 = s" "\<And>i. step (f i) (f (Suc i))" by blast
  have run: "(step ^^ n) s (f n)" for n
  proof (induction n)
    case (Suc n)
    then show ?case using f(2) by auto
  qed (simp add: f(1))
  show False using run_length [OF run [of "Suc (rank s)"] i] by simp
qed

lemma maximal_over: "step\<^sup>*\<^sup>* s s' \<Longrightarrow> inv s \<Longrightarrow> \<nexists>s''. step s' s'' \<Longrightarrow> over s'"
  using inv_run goes_on by blast

lemma reaches_over:
  assumes "inv s"
  shows "\<exists>n s'. n \<le> rank s \<and> (step ^^ n) s s' \<and> over s'"
  using assms
proof (induction "rank s" arbitrary: s rule: less_induct)
  case less
  show ?case
  proof (cases "over s")
    case True
    then show ?thesis by (intro exI [of _ 0]) simp
  next
    case False
    then obtain t where t: "step s t" using goes_on less.prems by blast
    then obtain n s' where n: "n \<le> rank t" "(step ^^ n) t s'" "over s'"
      using less.hyps [OF sinks keeps] less.prems by blast
    have "(step ^^ Suc n) s s'" using t n(2) by (metis relpowp_Suc_I2)
    then show ?thesis using n sinks [OF t less.prems] by (intro exI [of _ "Suc n"]) auto
  qed
qed

text \<open>No run is infinite, and every run that cannot go on is over, within as many steps as the rank.\<close>

lemma ends:
  assumes "inv s"
  shows "\<not> (\<exists>f. f 0 = s \<and> (\<forall>i. step (f i) (f (Suc i))))"
    and "{s'. step\<^sup>*\<^sup>* s s' \<and> (\<nexists>s''. step s' s'')} \<subseteq> {s'. over s'}"
    and "\<exists>n s'. n \<le> rank s \<and> (step ^^ n) s s' \<and> over s'"
  using no_infinite_run [of s] maximal_over [of s] reaches_over [of s] assms by blast+

end

subsection \<open>Runs that follow an abstract machine\<close>

text \<open>
  \<open>abs\<close> maps a state to what an observer sees of it; every step is one of the abstract machine or leaves
  what is seen as it was.
\<close>

locale follows =
  fixes step :: "'s \<Rightarrow> 's \<Rightarrow> bool" and inv :: "'s \<Rightarrow> bool" and abs :: "'s \<Rightarrow> 'a" and astep :: "'a \<Rightarrow> 'a \<Rightarrow> bool"
  assumes keeps: "step s s' \<Longrightarrow> inv s \<Longrightarrow> inv s'"
    and simulates: "step s s' \<Longrightarrow> inv s \<Longrightarrow> astep (abs s) (abs s') \<or> abs s' = abs s"
begin

lemma simulates_run: "step\<^sup>*\<^sup>* s s' \<Longrightarrow> inv s \<Longrightarrow> inv s' \<and> astep\<^sup>*\<^sup>* (abs s) (abs s')"
proof (induction rule: rtranclp_induct)
  case (step y z)
  then show ?case
    using simulates keeps by (metis rtranclp.rtrancl_into_rtrancl)
qed simp

end

text \<open>When the abstract machine only moves up in an order, so does what is seen.\<close>

locale follows_up = follows step inv abs astep
  for step :: "'s \<Rightarrow> 's \<Rightarrow> bool" and inv and abs :: "'s \<Rightarrow> 'a :: linorder" and astep +
  assumes up: "astep a a' \<Longrightarrow> a \<le> a'"
begin

lemma seen_up: "step\<^sup>*\<^sup>* s s' \<Longrightarrow> inv s \<Longrightarrow> abs s \<le> abs s'"
proof -
  assume "step\<^sup>*\<^sup>* s s'" "inv s"
  then have "astep\<^sup>*\<^sup>* (abs s) (abs s')" using simulates_run by blast
  then show ?thesis by (induction rule: rtranclp_induct) (auto dest: up)
qed

end

end
