(* ===== verification/Once_Live.thy ===== *)
theory Once_Live
  imports Syncutil Runs
begin

text \<open>
  Every call of \<open>Do\<close> and \<open>Dispose\<close> returns: what the goroutines inside the two methods still have to do is
  bounded, and as long as one of them is inside, one can go on.  The callbacks are supposed to return or to
  panic, and not to call the object they were given to.
\<close>

fun quiet :: "once_pc \<Rightarrow> bool" where
  "quiet Idle = True"
| "quiet (Do_return r) = True"
| "quiet (Dispose_return r) = True"
| "quiet _ = False"

fun once_rank :: "once_pc \<Rightarrow> nat" where
  "once_rank Do_check_disposed = 12" | "once_rank Do_fast_done = 11" | "once_rank Do_fast_disposed = 10"
| "once_rank Do_lock = 9" | "once_rank Do_recheck_done = 8" | "once_rank Do_recheck_disposed = 7"
| "once_rank Do_call = 6" | "once_rank Do_running = 5" | "once_rank (Do_store_err e) = 4"
| "once_rank Do_load_ran = 3" | "once_rank (Do_defer_done r) = 2" | "once_rank Do_load_locked = 2"
| "once_rank (Do_unlock r) = 1" | "once_rank Do_load = 1"
| "once_rank Dispose_check = 10" | "once_rank Dispose_lock = 9" | "once_rank Dispose_recheck = 8"
| "once_rank Dispose_call = 6" | "once_rank Dispose_running = 5" | "once_rank (Dispose_store_err e) = 4"
| "once_rank Dispose_load_ran = 3" | "once_rank (Dispose_defer_disposed r) = 2"
| "once_rank Dispose_load_locked = 2" | "once_rank (Dispose_unlock r) = 1" | "once_rank Dispose_load = 1"
| "once_rank _ = 0"

text \<open>A step inside a call, by a goroutine of \<open>I\<close>.\<close>

inductive once_work :: "(go_err \<Rightarrow> string) \<Rightarrow> nat set \<Rightarrow> OnceDisposable \<Rightarrow> OnceDisposable \<Rightarrow> bool"
  for ety I where
  work_do: "i \<in> I \<Longrightarrow> \<not> quiet (od_pc o1 i) \<Longrightarrow> do_step ety i o1 o2 \<Longrightarrow> once_work ety I o1 o2"
| work_dispose: "i \<in> I \<Longrightarrow> \<not> quiet (od_pc o1 i) \<Longrightarrow> dispose_step ety i o1 o2 \<Longrightarrow> once_work ety I o1 o2"

definition calls_in :: "(go_err \<Rightarrow> string) \<Rightarrow> nat set \<Rightarrow> OnceDisposable \<Rightarrow> bool" where
  "calls_in ety I o1 \<longleftrightarrow> once_inv ety o1 \<and> finite I \<and> (\<forall>i. i \<notin> I \<longrightarrow> quiet (od_pc o1 i))"

definition all_quiet :: "OnceDisposable \<Rightarrow> bool" where
  "all_quiet o1 \<longleftrightarrow> (\<forall>i. quiet (od_pc o1 i))"

definition once_measure :: "nat set \<Rightarrow> OnceDisposable \<Rightarrow> nat" where
  "once_measure I o1 = (\<Sum>i \<in> I. once_rank (od_pc o1 i))"

lemma do_step_pc:
  assumes "do_step ety i o1 o2"
  shows "(\<not> quiet (od_pc o1 i) \<longrightarrow> once_rank (od_pc o2 i) < once_rank (od_pc o1 i)) \<and>
    (\<forall>j. j \<noteq> i \<longrightarrow> od_pc o2 j = od_pc o1 j)"
  using assms by (cases rule: do_step.cases) auto

lemma dispose_step_pc:
  assumes "dispose_step ety i o1 o2"
  shows "(\<not> quiet (od_pc o1 i) \<longrightarrow> once_rank (od_pc o2 i) < once_rank (od_pc o1 i)) \<and>
    (\<forall>j. j \<noteq> i \<longrightarrow> od_pc o2 j = od_pc o1 j)"
  using assms by (cases rule: dispose_step.cases) auto

lemma work_pc:
  assumes "once_work ety I o1 o2"
  obtains i where "i \<in> I" and "once_rank (od_pc o2 i) < once_rank (od_pc o1 i)"
    and "\<forall>j. j \<noteq> i \<longrightarrow> od_pc o2 j = od_pc o1 j"
  using assms do_step_pc dispose_step_pc by (cases rule: once_work.cases) metis+

lemma work_keeps: "once_work ety I o1 o2 \<Longrightarrow> calls_in ety I o1 \<Longrightarrow> calls_in ety I o2"
proof -
  assume w: "once_work ety I o1 o2" and c: "calls_in ety I o1"
  have "once_inv ety o2"
    using w c once_inv_do once_inv_dispose by (cases rule: once_work.cases) (auto simp: calls_in_def)
  moreover obtain i where "i \<in> I" "\<forall>j. j \<noteq> i \<longrightarrow> od_pc o2 j = od_pc o1 j" using work_pc [OF w] by metis
  ultimately show "calls_in ety I o2" using c unfolding calls_in_def by metis
qed

lemma work_sinks: "once_work ety I o1 o2 \<Longrightarrow> calls_in ety I o1 \<Longrightarrow> once_measure I o2 < once_measure I o1"
proof -
  assume w: "once_work ety I o1 o2" and c: "calls_in ety I o1"
  obtain i where i: "i \<in> I" "once_rank (od_pc o2 i) < once_rank (od_pc o1 i)"
    and o: "\<forall>j. j \<noteq> i \<longrightarrow> od_pc o2 j = od_pc o1 j"
    using work_pc [OF w] by metis
  have "once_rank (od_pc o2 j) \<le> once_rank (od_pc o1 j)" for j
    using i(2) o by (cases "j = i") simp_all
  then show ?thesis
    unfolding once_measure_def using c i by (intro sum_strict_mono_ex1) (auto simp: calls_in_def)
qed

text \<open>A goroutine can go on unless it waits for the mutex, and then the one that holds it can.\<close>

lemma can_work:
  assumes "\<not> quiet (od_pc o1 i)" and "od_pc o1 i \<in> {Do_lock, Dispose_lock} \<Longrightarrow> od_m o1 = None"
  shows "(\<exists>o2. do_step ety i o1 o2) \<or> (\<exists>o2. dispose_step ety i o1 o2)"
proof (cases "od_pc o1 i")
  case Do_check_disposed
  then show ?thesis using do_disposed [of o1 i ety] do_not_disposed [of o1 i ety] by blast
next
  case (Do_store_err e)
  then show ?thesis
    using do_store_err [of o1 i e ety] do_store_panic [of o1 i e ety]
    by (cases "GValue_Store (err_gt ety) (Some e) (od_errDone o1)") blast+
next
  case (Dispose_store_err e)
  then show ?thesis
    using dispose_store_err [of o1 i e ety] dispose_store_panic [of o1 i e ety]
    by (cases "GValue_Store (err_gt ety) (Some e) (od_errDispose o1)") blast+
next
  case (Do_defer_done r)
  then show ?thesis using do_defer_done [of o1 i r _ ety] bool_Store by blast
next
  case (Dispose_defer_disposed r)
  then show ?thesis using dispose_defer [of o1 i r _ ety] bool_Store by blast
qed (use assms in \<open>auto intro: do_step.intros dispose_step.intros\<close>)

lemma in_cs_works: "in_cs p \<Longrightarrow> \<not> quiet p \<and> p \<notin> {Do_lock, Dispose_lock}"
  by (auto elim: in_cs.elims)

lemma work_goes_on:
  assumes c: "calls_in ety I o1" and "\<not> all_quiet o1"
  shows "\<exists>o2. once_work ety I o1 o2"
proof -
  obtain i where i: "\<not> quiet (od_pc o1 i)" using assms(2) by (auto simp: all_quiet_def)
  have "\<exists>k. \<not> quiet (od_pc o1 k) \<and> (od_pc o1 k \<in> {Do_lock, Dispose_lock} \<longrightarrow> od_m o1 = None)"
  proof (cases "od_m o1")
    case (Some h)
    then have "in_cs (od_pc o1 h)" using c once_inv_owner by (auto simp: calls_in_def)
    then show ?thesis using in_cs_works by blast
  qed (use i in blast)
  then obtain k where k: "\<not> quiet (od_pc o1 k)" "od_pc o1 k \<in> {Do_lock, Dispose_lock} \<Longrightarrow> od_m o1 = None" by blast
  moreover have "k \<in> I" using c k(1) by (auto simp: calls_in_def)
  ultimately show ?thesis using can_work [OF k, of ety] by (blast intro: once_work.intros)
qed

interpretation once: bounded_run "once_work ety I" "calls_in ety I" "once_measure I" all_quiet for ety I
  by unfold_locales (fact work_keeps work_sinks work_goes_on)+

lemma once_measure_bound: "finite I \<Longrightarrow> once_measure I o1 \<le> 12 * card I"
proof -
  have "once_rank p \<le> 12" for p by (cases p) simp_all
  then have "once_measure I o1 \<le> (\<Sum>i \<in> I. 12)" unfolding once_measure_def by (intro sum_mono)
  then show ?thesis by (simp add: mult.commute)
qed

text \<open>
  C28. Every call of \<open>Do\<close> and \<open>Dispose\<close> returns: the goroutines that are inside a call take at most twelve steps
  each, and when they cannot go on no goroutine is inside one any more.
\<close>

theorem once_calls_return:
  assumes "once_reach ety o1" and "finite I" and "{i. \<not> quiet (od_pc o1 i)} \<subseteq> I"
  shows "{n. \<exists>o2. (once_work ety I ^^ n) o1 o2} \<subseteq> {..12 * card I} \<and>
    {o2. (once_work ety I)\<^sup>*\<^sup>* o1 o2 \<and> (\<nexists>o3. once_work ety I o2 o3)} \<subseteq> {o2. \<forall>i. quiet (od_pc o2 i)}"
proof
  have c: "calls_in ety I o1" using assms once_reach_inv by (auto simp: calls_in_def)
  show "{n. \<exists>o2. (once_work ety I ^^ n) o1 o2} \<subseteq> {..12 * card I}"
    using once.run_length [OF _ c] once_measure_bound [OF assms(2), of o1] by fastforce
  show "{o2. (once_work ety I)\<^sup>*\<^sup>* o1 o2 \<and> (\<nexists>o3. once_work ety I o2 o3)} \<subseteq> {o2. \<forall>i. quiet (od_pc o2 i)}"
    using once.ends(2) [OF c] unfolding all_quiet_def .
qed

theorem once_calls_return_witness:
  "{n. \<exists>o2. (once_work (\<lambda>e. []) {0} ^^ n) (goto 0 Do_check_disposed once_fresh) o2} \<subseteq> {..12}"
proof -
  have "once_reach (\<lambda>e. []) (goto 0 Do_check_disposed once_fresh)"
    by (rule once_do_to [OF once_fresh_reach do_enter]) simp_all
  from once_calls_return [OF this, of "{0}"] show ?thesis by auto
qed

end
