(* ===== verification/Broadcaster.thy ===== *)
theory Broadcaster
  imports Prelude "HOL-Library.Sublist"
begin

text \<open>
  \<^verbatim>\<open>pkg/broadcaster\<close>: a broadcaster passes every value written to it on to its listeners.  The
  status barrier (\<^verbatim>\<open>statusBarrier.go\<close>) is a flag under a reader/writer lock, one for the broadcaster
  and one for each listener.  The program is a step relation over any number of goroutines: every
  lock, unlock, test, channel operation and map operation of the methods is a step of its own, and
  the timers may fire at any moment.  Goroutines and listeners are numbered.
\<close>

subsection \<open>\<^verbatim>\<open>statusBarrier.go\<close>\<close>

text \<open>
  The lock remembers who holds it.  An operation that would have to wait is \<open>None\<close>; that a waiting
  writer keeps later readers out is not required, which allows more runs than the runtime's lock.
\<close>

record statusBarrier =
  sb_writer :: "nat option"
  sb_readers :: "nat set"
  sb_started :: bool

definition newStatusBarrier :: statusBarrier where
  "newStatusBarrier = \<lparr>sb_writer = None, sb_readers = {}, sb_started = False\<rparr>"

definition Entering :: "nat \<Rightarrow> statusBarrier \<Rightarrow> statusBarrier option" where
  "Entering i b =
     (if sb_writer b = None then Some (b\<lparr>sb_readers := insert i (sb_readers b)\<rparr>) else None)"

definition Out :: "nat \<Rightarrow> statusBarrier \<Rightarrow> statusBarrier" where
  "Out i b = b\<lparr>sb_readers := sb_readers b - {i}\<rparr>"

definition EnteringStatusArea :: "nat \<Rightarrow> statusBarrier \<Rightarrow> statusBarrier option" where
  "EnteringStatusArea i b =
     (if sb_writer b = None \<and> sb_readers b = {} then Some (b\<lparr>sb_writer := Some i\<rparr>) else None)"

definition OutOfStatusArea :: "statusBarrier \<Rightarrow> statusBarrier" where
  "OutOfStatusArea b = b\<lparr>sb_writer := None\<rparr>"

definition MarkStopped :: "statusBarrier \<Rightarrow> statusBarrier" where
  "MarkStopped b = b\<lparr>sb_started := False\<rparr>"

definition MarkStarted :: "statusBarrier \<Rightarrow> statusBarrier" where
  "MarkStarted b = b\<lparr>sb_started := True\<rparr>"

definition IsStopped :: "statusBarrier \<Rightarrow> bool" where
  "IsStopped b = (\<not> sb_started b)"

named_theorems barrier_defs \<open>the operations of the status barrier\<close>

lemmas barrier_ops [barrier_defs] =
  newStatusBarrier_def Entering_def Out_def EnteringStatusArea_def OutOfStatusArea_def
  MarkStopped_def MarkStarted_def IsStopped_def

subsection \<open>The broadcaster's state\<close>

text \<open>
  A channel of capacity one is a list of at most one value and a flag.  \<open>l_log\<close> (everything ever put
  into a listener's channel) is read by no step.
\<close>

record 'a Listener =
  l_barrier :: statusBarrier
  l_chan :: "'a list"
  l_closed :: bool
  l_log :: "'a list"

text \<open>What a finished call returned.\<close>

datatype bc_ret = RetVoid | RetErr "go_err option" | RetListener nat | RetBool bool

text \<open>Who called \<open>Listener.stop\<close>: the range of \<open>Stop\<close> (with the keys already visited) or \<open>Unsubscribe\<close>.\<close>

datatype stop_caller = By_Stop "nat set" | By_Unsubscribe

text \<open>
  The place of a goroutine, by method.  \<open>In_L_stop k c\<close> is \<open>Listener.stop\<close> of listener \<open>k\<close> called by \<open>c\<close>.
  While the worker ranges over the listeners it carries the value, the keys there were when the range
  began, the keys it may visit and the keys it has visited; \<open>In_L_write k r\<close> is its call of
  \<open>Listener.write\<close> on listener \<open>k\<close>.  \<open>Send_...\<close> is the goroutine \<open>Write\<close> creates.
\<close>

datatype start_pc = Start_lock | Start_check | Start_add | Start_go | Start_mark | Start_unlock

datatype stop_pc =
    Stop_lock | Stop_check | Stop_cancel | Stop_wait
  | Stop_range "nat set" | Stop_delete nat "nat set" | Stop_close | Stop_mark
  | Stop_unlock "go_err option"

datatype l_stop_pc = L_lock | L_check | L_close | L_mark | L_unlock

datatype sub_pc =
    Sub_enter | Sub_check | Sub_new | Sub_store nat
  | Unsub_enter nat | Unsub_check nat | Unsub_load nat
  | IsSub_enter nat | IsSub_check nat | IsSub_load nat
  | IsStopped_enter | IsStopped_read

datatype 'a write_pc =
    Write_enter 'a | Write_check 'a | Write_go 'a
  | WriteSync_enter 'a | WriteSync_check 'a | WriteSync_send 'a
  | Send_select 'a | Send_out

datatype 'a ranging = Ranging (rg_value: 'a) (rg_snap: "nat set") (rg_cand: "nat set") (rg_vis: "nat set")

datatype 'a worker_pc = W_select | W_done | W_range "'a ranging" | W_visit nat "'a ranging"

datatype l_write_pc = LW_enter | LW_check | LW_send | LW_out

datatype 'a bc_pc =
    Unborn | Exited | Panicked | Client | Returned bc_ret | Leave bc_ret
  | In_Start start_pc
  | In_Stop stop_pc
  | In_L_stop nat stop_caller l_stop_pc
  | In_Sub sub_pc
  | In_Write "'a write_pc"
  | In_Worker "'a worker_pc"
  | In_L_write nat "'a ranging" l_write_pc

text \<open>
  The shared state.  The last fields are read by no step: how often a worker was created and which
  one was the last, whether any goroutine has panicked, the values accepted by the channel and the
  values workers took out of it.
\<close>

record 'a Broadcaster =
  bc_listeners :: "nat set"
  bc_c :: "'a list"
  bc_closed :: bool
  bc_cancelled :: bool
  bc_wg :: nat
  bc_barrier :: statusBarrier
  bc_ls :: "nat \<Rightarrow> 'a Listener"
  bc_next :: nat
  bc_pc :: "nat \<Rightarrow> 'a bc_pc"
  bc_starts :: nat
  bc_worker :: "nat option"
  bc_panic :: bool
  bc_accepted :: "'a list"
  bc_taken :: "'a list"

definition ErrStopped :: go_err where
  "ErrStopped = Err ''broadcaster is stopped''"

definition startListener :: "'a Listener" where
  "startListener =
     \<lparr>l_barrier = MarkStarted newStatusBarrier, l_chan = [], l_closed = False, l_log = []\<rparr>"

definition bc_New :: "nat set \<Rightarrow> 'a Broadcaster" where
  "bc_New clients =
     \<lparr>bc_listeners = {}, bc_c = [], bc_closed = False, bc_cancelled = False, bc_wg = 0,
      bc_barrier = newStatusBarrier, bc_ls = (\<lambda>_. startListener), bc_next = 0,
      bc_pc = (\<lambda>i. if i \<in> clients then Client else Unborn), bc_starts = 0, bc_worker = None,
      bc_panic = False, bc_accepted = [], bc_taken = []\<rparr>"

definition at :: "nat \<Rightarrow> 'a bc_pc \<Rightarrow> 'a Broadcaster \<Rightarrow> 'a Broadcaster" where
  "at i p s = s\<lparr>bc_pc := (bc_pc s)(i := p)\<rparr>"

definition upd_l :: "nat \<Rightarrow> ('a Listener \<Rightarrow> 'a Listener) \<Rightarrow> 'a Broadcaster \<Rightarrow> 'a Broadcaster" where
  "upd_l k f s = s\<lparr>bc_ls := (bc_ls s)(k := f (bc_ls s k))\<rparr>"

subsection \<open>The methods as steps\<close>

inductive start_step :: "nat \<Rightarrow> 'a Broadcaster \<Rightarrow> 'a Broadcaster \<Rightarrow> bool" for i where
  start_call: "bc_pc s i = Client \<Longrightarrow> start_step i s (at i (In_Start Start_lock) s)"
| start_lock: "bc_pc s i = In_Start Start_lock \<Longrightarrow> EnteringStatusArea i (bc_barrier s) = Some b \<Longrightarrow>
    start_step i s (at i (In_Start Start_check) (s\<lparr>bc_barrier := b\<rparr>))"
| start_check: "bc_pc s i = In_Start Start_check \<Longrightarrow>
    start_step i s (at i (if \<not> IsStopped (bc_barrier s) then In_Start Start_unlock else In_Start Start_add) s)"
| start_add: "bc_pc s i = In_Start Start_add \<Longrightarrow>
    start_step i s (at i (In_Start Start_go) (s\<lparr>bc_wg := bc_wg s + 1, bc_starts := bc_starts s + 1\<rparr>))"
| start_go: "bc_pc s i = In_Start Start_go \<Longrightarrow> bc_pc s j = Unborn \<Longrightarrow>
    start_step i s (at j (In_Worker W_select) (at i (In_Start Start_mark) (s\<lparr>bc_worker := Some j\<rparr>)))"
| start_mark: "bc_pc s i = In_Start Start_mark \<Longrightarrow>
    start_step i s (at i (In_Start Start_unlock) (s\<lparr>bc_barrier := MarkStarted (bc_barrier s)\<rparr>))"
| start_unlock: "bc_pc s i = In_Start Start_unlock \<Longrightarrow>
    start_step i s (at i (Returned RetVoid) (s\<lparr>bc_barrier := OutOfStatusArea (bc_barrier s)\<rparr>))"

text \<open>\<open>Stop\<close>; a panic unlocks the barrier on the way out (the deferred call).\<close>

inductive stop_step :: "nat \<Rightarrow> 'a Broadcaster \<Rightarrow> 'a Broadcaster \<Rightarrow> bool" for i where
  stop_call: "bc_pc s i = Client \<Longrightarrow> stop_step i s (at i (In_Stop Stop_lock) s)"
| stop_lock: "bc_pc s i = In_Stop Stop_lock \<Longrightarrow> EnteringStatusArea i (bc_barrier s) = Some b \<Longrightarrow>
    stop_step i s (at i (In_Stop Stop_check) (s\<lparr>bc_barrier := b\<rparr>))"
| stop_check: "bc_pc s i = In_Stop Stop_check \<Longrightarrow>
    stop_step i s (at i (if IsStopped (bc_barrier s) then (In_Stop (Stop_unlock (Some ErrStopped))) else In_Stop Stop_cancel) s)"
| stop_cancel: "bc_pc s i = In_Stop Stop_cancel \<Longrightarrow>
    stop_step i s (at i (In_Stop Stop_wait) (s\<lparr>bc_cancelled := True\<rparr>))"
| stop_wait: "bc_pc s i = In_Stop Stop_wait \<Longrightarrow> bc_wg s = 0 \<Longrightarrow> stop_step i s (at i (In_Stop (Stop_range {})) s)"
| stop_visit: "bc_pc s i = In_Stop (Stop_range vis) \<Longrightarrow> k \<in> bc_listeners s - vis \<Longrightarrow>
    stop_step i s (at i (In_L_stop k (By_Stop vis) L_lock) s)"
| stop_delete: "bc_pc s i = In_Stop (Stop_delete k vis) \<Longrightarrow>
    stop_step i s (at i (In_Stop (Stop_range (insert k vis))) (s\<lparr>bc_listeners := bc_listeners s - {k}\<rparr>))"
| stop_range_end: "bc_pc s i = In_Stop (Stop_range vis) \<Longrightarrow> bc_listeners s \<subseteq> vis \<Longrightarrow>
    stop_step i s (at i (In_Stop Stop_close) s)"
| stop_close: "bc_pc s i = In_Stop Stop_close \<Longrightarrow> \<not> bc_closed s \<Longrightarrow>
    stop_step i s (at i (In_Stop Stop_mark) (s\<lparr>bc_closed := True\<rparr>))"
| stop_close_panic: "bc_pc s i = In_Stop Stop_close \<Longrightarrow> bc_closed s \<Longrightarrow>
    stop_step i s (at i Panicked
      (s\<lparr>bc_panic := True, bc_barrier := OutOfStatusArea (bc_barrier s)\<rparr>))"
| stop_mark: "bc_pc s i = In_Stop Stop_mark \<Longrightarrow>
    stop_step i s (at i (In_Stop (Stop_unlock None)) (s\<lparr>bc_barrier := MarkStopped (bc_barrier s)\<rparr>))"
| stop_unlock: "bc_pc s i = In_Stop (Stop_unlock r) \<Longrightarrow>
    stop_step i s (at i (Returned (RetErr r)) (s\<lparr>bc_barrier := OutOfStatusArea (bc_barrier s)\<rparr>))"

text \<open>\<open>Listener.stop\<close>, called by \<open>Stop\<close> and by \<open>Unsubscribe\<close>, which both drop its result.\<close>

definition l_stop_return :: "nat \<Rightarrow> stop_caller \<Rightarrow> 'a bc_pc" where
  "l_stop_return k c =
     (case c of By_Stop vis \<Rightarrow> In_Stop (Stop_delete k vis) | By_Unsubscribe \<Rightarrow> Leave (RetErr None))"

inductive l_stop_step :: "nat \<Rightarrow> 'a Broadcaster \<Rightarrow> 'a Broadcaster \<Rightarrow> bool" for i where
  l_lock: "bc_pc s i = In_L_stop k c L_lock \<Longrightarrow> EnteringStatusArea i (l_barrier (bc_ls s k)) = Some b \<Longrightarrow>
    l_stop_step i s (at i (In_L_stop k c L_check) (upd_l k (\<lambda>l. l\<lparr>l_barrier := b\<rparr>) s))"
| l_check: "bc_pc s i = In_L_stop k c L_check \<Longrightarrow>
    l_stop_step i s (at i (if IsStopped (l_barrier (bc_ls s k)) then In_L_stop k c L_unlock else In_L_stop k c L_close) s)"
| l_close: "bc_pc s i = In_L_stop k c L_close \<Longrightarrow> \<not> l_closed (bc_ls s k) \<Longrightarrow>
    l_stop_step i s (at i (In_L_stop k c L_mark) (upd_l k (\<lambda>l. l\<lparr>l_closed := True\<rparr>) s))"
| l_close_panic: "bc_pc s i = In_L_stop k c L_close \<Longrightarrow> l_closed (bc_ls s k) \<Longrightarrow>
    l_stop_step i s (at i Panicked
      ((upd_l k (\<lambda>l. l\<lparr>l_barrier := OutOfStatusArea (l_barrier l)\<rparr>) s)
         \<lparr>bc_panic := True,
          bc_barrier := (case c of By_Stop vis \<Rightarrow> OutOfStatusArea (bc_barrier s)
                         | By_Unsubscribe \<Rightarrow> Out i (bc_barrier s))\<rparr>))"
| l_mark: "bc_pc s i = In_L_stop k c L_mark \<Longrightarrow>
    l_stop_step i s (at i (In_L_stop k c L_unlock) (upd_l k (\<lambda>l. l\<lparr>l_barrier := MarkStopped (l_barrier l)\<rparr>) s))"
| l_unlock: "bc_pc s i = In_L_stop k c L_unlock \<Longrightarrow>
    l_stop_step i s (at i (l_stop_return k c)
      (upd_l k (\<lambda>l. l\<lparr>l_barrier := OutOfStatusArea (l_barrier l)\<rparr>) s))"

text \<open>\<open>Subscribe\<close>, \<open>Unsubscribe\<close>, \<open>IsSubscribed\<close> and \<open>IsStopped\<close>; \<open>Leave\<close> is the deferred \<open>Out\<close>.\<close>

inductive sub_step :: "nat \<Rightarrow> 'a Broadcaster \<Rightarrow> 'a Broadcaster \<Rightarrow> bool" for i where
  sub_call: "bc_pc s i = Client \<Longrightarrow> sub_step i s (at i (In_Sub Sub_enter) s)"
| sub_enter: "bc_pc s i = In_Sub Sub_enter \<Longrightarrow> Entering i (bc_barrier s) = Some b \<Longrightarrow>
    sub_step i s (at i (In_Sub Sub_check) (s\<lparr>bc_barrier := b\<rparr>))"
| sub_check: "bc_pc s i = In_Sub Sub_check \<Longrightarrow>
    sub_step i s (at i (if IsStopped (bc_barrier s) then Leave (RetErr (Some ErrStopped)) else In_Sub Sub_new) s)"
| sub_new: "bc_pc s i = In_Sub Sub_new \<Longrightarrow>
    sub_step i s (at i (In_Sub (Sub_store (bc_next s)))
      (upd_l (bc_next s) (\<lambda>_. startListener) (s\<lparr>bc_next := Suc (bc_next s)\<rparr>)))"
| sub_store: "bc_pc s i = In_Sub (Sub_store k) \<Longrightarrow>
    sub_step i s (at i (Leave (RetListener k)) (s\<lparr>bc_listeners := insert k (bc_listeners s)\<rparr>))"
| unsub_call: "bc_pc s i = Client \<Longrightarrow> k < bc_next s \<Longrightarrow> sub_step i s (at i (In_Sub (Unsub_enter k)) s)"
| unsub_enter: "bc_pc s i = In_Sub (Unsub_enter k) \<Longrightarrow> Entering i (bc_barrier s) = Some b \<Longrightarrow>
    sub_step i s (at i (In_Sub (Unsub_check k)) (s\<lparr>bc_barrier := b\<rparr>))"
| unsub_check: "bc_pc s i = In_Sub (Unsub_check k) \<Longrightarrow>
    sub_step i s (at i (if IsStopped (bc_barrier s) then Leave (RetErr (Some ErrStopped))
                        else (In_Sub (Unsub_load k))) s)"
| unsub_load: "bc_pc s i = In_Sub (Unsub_load k) \<Longrightarrow> k \<in> bc_listeners s \<Longrightarrow>
    sub_step i s (at i (In_L_stop k By_Unsubscribe L_lock) (s\<lparr>bc_listeners := bc_listeners s - {k}\<rparr>))"
| unsub_absent: "bc_pc s i = In_Sub (Unsub_load k) \<Longrightarrow> k \<notin> bc_listeners s \<Longrightarrow>
    sub_step i s (at i (Leave (RetErr None)) s)"
| is_sub_call: "bc_pc s i = Client \<Longrightarrow> k < bc_next s \<Longrightarrow> sub_step i s (at i (In_Sub (IsSub_enter k)) s)"
| is_sub_enter: "bc_pc s i = In_Sub (IsSub_enter k) \<Longrightarrow> Entering i (bc_barrier s) = Some b \<Longrightarrow>
    sub_step i s (at i (In_Sub (IsSub_check k)) (s\<lparr>bc_barrier := b\<rparr>))"
| is_sub_check: "bc_pc s i = In_Sub (IsSub_check k) \<Longrightarrow>
    sub_step i s (at i (if IsStopped (bc_barrier s) then Leave (RetErr (Some ErrStopped))
                        else (In_Sub (IsSub_load k))) s)"
| is_sub_load: "bc_pc s i = In_Sub (IsSub_load k) \<Longrightarrow>
    sub_step i s (at i (Leave (RetBool (k \<in> bc_listeners s))) s)"
| is_stopped_call: "bc_pc s i = Client \<Longrightarrow> sub_step i s (at i (In_Sub IsStopped_enter) s)"
| is_stopped_enter: "bc_pc s i = In_Sub IsStopped_enter \<Longrightarrow> Entering i (bc_barrier s) = Some b \<Longrightarrow>
    sub_step i s (at i (In_Sub IsStopped_read) (s\<lparr>bc_barrier := b\<rparr>))"
| is_stopped_read: "bc_pc s i = In_Sub IsStopped_read \<Longrightarrow>
    sub_step i s (at i (Leave (RetBool (IsStopped (bc_barrier s)))) s)"
| leave: "bc_pc s i = Leave r \<Longrightarrow>
    sub_step i s (at i (Returned r) (s\<lparr>bc_barrier := Out i (bc_barrier s)\<rparr>))"
| return: "bc_pc s i = Returned r \<Longrightarrow> sub_step i s (at i Client s)"

text \<open>
  \<open>Write\<close> and \<open>WriteSync\<close>.  The goroutine \<open>Write\<close> creates inherits its hold of the barrier.  A send
  puts the value into an empty channel, panics on a closed one, or gives up when the timer fires.
\<close>

inductive write_step :: "nat \<Rightarrow> 'a Broadcaster \<Rightarrow> 'a Broadcaster \<Rightarrow> bool" for i where
  write_call: "bc_pc s i = Client \<Longrightarrow> write_step i s (at i (In_Write (Write_enter t)) s)"
| write_enter: "bc_pc s i = In_Write (Write_enter t) \<Longrightarrow> Entering i (bc_barrier s) = Some b \<Longrightarrow>
    write_step i s (at i (In_Write (Write_check t)) (s\<lparr>bc_barrier := b\<rparr>))"
| write_check: "bc_pc s i = In_Write (Write_check t) \<Longrightarrow>
    write_step i s (at i (if IsStopped (bc_barrier s) then Leave (RetErr (Some ErrStopped))
                          else (In_Write (Write_go t))) s)"
| write_go: "bc_pc s i = In_Write (Write_go t) \<Longrightarrow> bc_pc s j = Unborn \<Longrightarrow>
    Entering j (Out i (bc_barrier s)) = Some b \<Longrightarrow>
    write_step i s (at j (In_Write (Send_select t)) (at i (Returned (RetErr None)) (s\<lparr>bc_barrier := b\<rparr>)))"
| send_put: "bc_pc s i = In_Write (Send_select t) \<Longrightarrow> \<not> bc_closed s \<Longrightarrow> bc_c s = [] \<Longrightarrow>
    write_step i s (at i (In_Write Send_out) (s\<lparr>bc_c := [t], bc_accepted := bc_accepted s @ [t]\<rparr>))"
| send_closed: "bc_pc s i = In_Write (Send_select t) \<Longrightarrow> bc_closed s \<Longrightarrow>
    write_step i s (at i Panicked (s\<lparr>bc_panic := True, bc_barrier := Out i (bc_barrier s)\<rparr>))"
| send_timeout: "bc_pc s i = In_Write (Send_select t) \<Longrightarrow> write_step i s (at i (In_Write Send_out) s)"
| send_out: "bc_pc s i = In_Write Send_out \<Longrightarrow>
    write_step i s (at i Exited (s\<lparr>bc_barrier := Out i (bc_barrier s)\<rparr>))"
| write_sync_call: "bc_pc s i = Client \<Longrightarrow> write_step i s (at i (In_Write (WriteSync_enter t)) s)"
| write_sync_enter: "bc_pc s i = In_Write (WriteSync_enter t) \<Longrightarrow> Entering i (bc_barrier s) = Some b \<Longrightarrow>
    write_step i s (at i (In_Write (WriteSync_check t)) (s\<lparr>bc_barrier := b\<rparr>))"
| write_sync_check: "bc_pc s i = In_Write (WriteSync_check t) \<Longrightarrow>
    write_step i s (at i (if IsStopped (bc_barrier s) then Leave (RetErr (Some ErrStopped))
                          else (In_Write (WriteSync_send t))) s)"
| write_sync_put: "bc_pc s i = In_Write (WriteSync_send t) \<Longrightarrow> \<not> bc_closed s \<Longrightarrow> bc_c s = [] \<Longrightarrow>
    write_step i s (at i (Leave (RetErr None))
      (s\<lparr>bc_c := [t], bc_accepted := bc_accepted s @ [t]\<rparr>))"
| write_sync_closed: "bc_pc s i = In_Write (WriteSync_send t) \<Longrightarrow> bc_closed s \<Longrightarrow>
    write_step i s (at i Panicked (s\<lparr>bc_panic := True, bc_barrier := Out i (bc_barrier s)\<rparr>))"
| write_sync_timeout: "bc_pc s i = In_Write (WriteSync_send t) \<Longrightarrow> write_step i s (at i (Leave (RetErr None)) s)"

text \<open>\<open>Listener.write\<close>, called by the worker, which drops its result.\<close>

inductive l_write_step :: "nat \<Rightarrow> 'a Broadcaster \<Rightarrow> 'a Broadcaster \<Rightarrow> bool" for i where
  lw_enter: "bc_pc s i = In_L_write k (Ranging d snap cand vis) LW_enter \<Longrightarrow> Entering i (l_barrier (bc_ls s k)) = Some b \<Longrightarrow>
    l_write_step i s (at i (In_L_write k (Ranging d snap cand vis) LW_check) (upd_l k (\<lambda>l. l\<lparr>l_barrier := b\<rparr>) s))"
| lw_check: "bc_pc s i = In_L_write k (Ranging d snap cand vis) LW_check \<Longrightarrow>
    l_write_step i s (at i (if IsStopped (l_barrier (bc_ls s k)) then In_L_write k (Ranging d snap cand vis) LW_out
                             else In_L_write k (Ranging d snap cand vis) LW_send) s)"
| lw_put: "bc_pc s i = In_L_write k (Ranging d snap cand vis) LW_send \<Longrightarrow> \<not> l_closed (bc_ls s k) \<Longrightarrow>
    l_chan (bc_ls s k) = [] \<Longrightarrow>
    l_write_step i s (at i (In_L_write k (Ranging d snap cand vis) LW_out)
      (upd_l k (\<lambda>l. l\<lparr>l_chan := [d], l_log := l_log l @ [d]\<rparr>) s))"
| lw_closed: "bc_pc s i = In_L_write k (Ranging d snap cand vis) LW_send \<Longrightarrow> l_closed (bc_ls s k) \<Longrightarrow>
    l_write_step i s (at i Panicked
      ((upd_l k (\<lambda>l. l\<lparr>l_barrier := Out i (l_barrier l)\<rparr>) s)\<lparr>bc_panic := True, bc_wg := bc_wg s - 1\<rparr>))"
| lw_timeout: "bc_pc s i = In_L_write k (Ranging d snap cand vis) LW_send \<Longrightarrow>
    l_write_step i s (at i (In_L_write k (Ranging d snap cand vis) LW_out) s)"
| lw_out: "bc_pc s i = In_L_write k (Ranging d snap cand vis) LW_out \<Longrightarrow>
    l_write_step i s (at i (In_Worker (W_range (Ranging d snap cand (insert k vis))))
      (upd_l k (\<lambda>l. l\<lparr>l_barrier := Out i (l_barrier l)\<rparr>) s))"

text \<open>
  The worker.  \<^verbatim>\<open>sync.Map.Range\<close> visits a key at most once, may visit every key that was in the map at
  some moment of the range (\<open>w_notice\<close>), and does visit those that stay in it from beginning to end.
  A receive from a closed and drained channel gives the zero value \<open>z\<close>.
\<close>

inductive worker_step :: "'a \<Rightarrow> nat \<Rightarrow> 'a Broadcaster \<Rightarrow> 'a Broadcaster \<Rightarrow> bool" for z i where
  w_cancelled: "bc_pc s i = In_Worker W_select \<Longrightarrow> bc_cancelled s \<Longrightarrow> worker_step z i s (at i (In_Worker W_done) s)"
| w_receive: "bc_pc s i = In_Worker W_select \<Longrightarrow> bc_c s = d # ds \<Longrightarrow>
    worker_step z i s (at i (In_Worker (W_range (Ranging d (bc_listeners s) (bc_listeners s) {})))
      (s\<lparr>bc_c := ds, bc_taken := bc_taken s @ [d]\<rparr>))"
| w_receive_closed: "bc_pc s i = In_Worker W_select \<Longrightarrow> bc_c s = [] \<Longrightarrow> bc_closed s \<Longrightarrow>
    worker_step z i s (at i (In_Worker (W_range (Ranging z (bc_listeners s) (bc_listeners s) {})))
      (s\<lparr>bc_taken := bc_taken s @ [z]\<rparr>))"
| w_notice: "bc_pc s i = In_Worker (W_range (Ranging d snap cand vis)) \<Longrightarrow> k \<in> bc_listeners s \<Longrightarrow>
    worker_step z i s (at i (In_Worker (W_range (Ranging d snap (insert k cand) vis))) s)"
| w_visit: "bc_pc s i = In_Worker (W_range (Ranging d snap cand vis)) \<Longrightarrow> k \<in> cand - vis \<Longrightarrow>
    worker_step z i s (at i (In_Worker (W_visit k (Ranging d snap cand vis))) s)"
| w_range_end: "bc_pc s i = In_Worker (W_range (Ranging d snap cand vis)) \<Longrightarrow> snap \<inter> bc_listeners s \<subseteq> vis \<Longrightarrow>
    worker_step z i s (at i (In_Worker W_select) s)"
| w_stop_range: "bc_pc s i = In_Worker (W_visit k (Ranging d snap cand vis)) \<Longrightarrow> bc_cancelled s \<Longrightarrow>
    worker_step z i s (at i (In_Worker W_select) s)"
| w_write: "bc_pc s i = In_Worker (W_visit k (Ranging d snap cand vis)) \<Longrightarrow> \<not> bc_cancelled s \<Longrightarrow>
    worker_step z i s (at i (In_L_write k (Ranging d snap cand vis) LW_enter) s)"
| w_in_write: "l_write_step i s s' \<Longrightarrow> worker_step z i s s'"
| w_done: "bc_pc s i = In_Worker W_done \<Longrightarrow> worker_step z i s (at i Exited (s\<lparr>bc_wg := bc_wg s - 1\<rparr>))"

text \<open>The surroundings: the parent context is cancelled, or a client reads from its listener's channel.\<close>

inductive env_step :: "'a Broadcaster \<Rightarrow> 'a Broadcaster \<Rightarrow> bool" where
  parent_cancel: "env_step s (s\<lparr>bc_cancelled := True\<rparr>)"
| consume: "l_chan (bc_ls s k) = d # ds \<Longrightarrow> env_step s (upd_l k (\<lambda>l. l\<lparr>l_chan := ds\<rparr>) s)"

inductive bc_step :: "'a \<Rightarrow> nat \<Rightarrow> 'a Broadcaster \<Rightarrow> 'a Broadcaster \<Rightarrow> bool" for z i where
  by_start: "start_step i s s' \<Longrightarrow> bc_step z i s s'"
| by_stop: "stop_step i s s' \<Longrightarrow> bc_step z i s s'"
| by_l_stop: "l_stop_step i s s' \<Longrightarrow> bc_step z i s s'"
| by_sub: "sub_step i s s' \<Longrightarrow> bc_step z i s s'"
| by_write: "write_step i s s' \<Longrightarrow> bc_step z i s s'"
| by_worker: "worker_step z i s s' \<Longrightarrow> bc_step z i s s'"
| by_env: "env_step s s' \<Longrightarrow> bc_step z i s s'"

inductive bc_reach :: "'a \<Rightarrow> 'a Broadcaster \<Rightarrow> bool" for z where
  bc_new: "bc_reach z (bc_New clients)"
| bc_more: "bc_reach z s \<Longrightarrow> bc_step z i s s' \<Longrightarrow> bc_reach z s'"

subsection \<open>Holding the barriers\<close>

text \<open>Which places hold the broadcaster's barrier (as writer, as reader), and which a listener's.\<close>

fun sub_inside :: "sub_pc \<Rightarrow> bool" where
  "sub_inside Sub_enter = False"
| "sub_inside (Unsub_enter k) = False"
| "sub_inside (IsSub_enter k) = False"
| "sub_inside IsStopped_enter = False"
| "sub_inside _ = True"

fun write_inside :: "'a write_pc \<Rightarrow> bool" where
  "write_inside (Write_enter t) = False"
| "write_inside (WriteSync_enter t) = False"
| "write_inside _ = True"

fun holds_w :: "'a bc_pc \<Rightarrow> bool" where
  "holds_w (In_Start p) = (p \<noteq> Start_lock)"
| "holds_w (In_Stop p) = (p \<noteq> Stop_lock)"
| "holds_w (In_L_stop k c p) = (c \<noteq> By_Unsubscribe)"
| "holds_w _ = False"

fun holds_r :: "'a bc_pc \<Rightarrow> bool" where
  "holds_r (Leave r) = True"
| "holds_r (In_L_stop k c p) = (c = By_Unsubscribe)"
| "holds_r (In_Sub p) = sub_inside p"
| "holds_r (In_Write p) = write_inside p"
| "holds_r _ = False"

fun holds_lw :: "nat \<Rightarrow> 'a bc_pc \<Rightarrow> bool" where
  "holds_lw k (In_L_stop j c p) = (j = k \<and> p \<noteq> L_lock)"
| "holds_lw k _ = False"

fun holds_lr :: "nat \<Rightarrow> 'a bc_pc \<Rightarrow> bool" where
  "holds_lr k (In_L_write j r p) = (j = k \<and> p \<noteq> LW_enter)"
| "holds_lr k _ = False"

text \<open>A listener a place refers to exists.\<close>

fun pc_bound :: "nat \<Rightarrow> 'a bc_pc \<Rightarrow> bool" where
  "pc_bound n (In_L_stop k c p) = (k < n)"
| "pc_bound n (In_Stop (Stop_delete k vis)) = (k < n)"
| "pc_bound n (In_Sub (Sub_store k)) = (k < n)"
| "pc_bound n (In_Worker (W_range r)) = (rg_cand r \<subseteq> {..<n})"
| "pc_bound n (In_Worker (W_visit k r)) = (k < n \<and> rg_cand r \<subseteq> {..<n})"
| "pc_bound n (In_L_write k r p) = (k < n \<and> rg_cand r \<subseteq> {..<n})"
| "pc_bound n _ = True"

lemma pc_bound_Suc: "pc_bound n p \<Longrightarrow> pc_bound (Suc n) p"
  by (induction n p rule: pc_bound.induct) auto

text \<open>A barrier whose writer and readers are the goroutines at the places \<open>W\<close> and \<open>R\<close>.\<close>

definition sb_ok ::
    "('a bc_pc \<Rightarrow> bool) \<Rightarrow> ('a bc_pc \<Rightarrow> bool) \<Rightarrow> statusBarrier \<Rightarrow> (nat \<Rightarrow> 'a bc_pc) \<Rightarrow> bool" where
  "sb_ok W R b pc \<longleftrightarrow>
     (\<forall>i. sb_writer b = Some i \<longleftrightarrow> W (pc i)) \<and> (\<forall>i. i \<in> sb_readers b \<longleftrightarrow> R (pc i)) \<and>
     (sb_writer b \<noteq> None \<longrightarrow> sb_readers b = {})"

definition inv_locks :: "'a Broadcaster \<Rightarrow> bool" where
  "inv_locks s \<longleftrightarrow>
     sb_ok holds_w holds_r (bc_barrier s) (bc_pc s) \<and>
     (\<forall>k. sb_ok (holds_lw k) (holds_lr k) (l_barrier (bc_ls s k)) (bc_pc s)) \<and>
     (\<forall>i. pc_bound (bc_next s) (bc_pc s i)) \<and> bc_listeners s \<subseteq> {..<bc_next s}"

lemma at_sel [simp]:
  "bc_listeners (at i p s) = bc_listeners s" "bc_c (at i p s) = bc_c s"
  "bc_closed (at i p s) = bc_closed s" "bc_cancelled (at i p s) = bc_cancelled s"
  "bc_wg (at i p s) = bc_wg s" "bc_barrier (at i p s) = bc_barrier s"
  "bc_ls (at i p s) = bc_ls s" "bc_next (at i p s) = bc_next s"
  "bc_starts (at i p s) = bc_starts s" "bc_worker (at i p s) = bc_worker s"
  "bc_panic (at i p s) = bc_panic s" "bc_accepted (at i p s) = bc_accepted s"
  "bc_taken (at i p s) = bc_taken s"
  "bc_pc (at i p s) = (bc_pc s)(i := p)"
  by (simp_all add: at_def)

lemma upd_l_sel [simp]:
  "bc_listeners (upd_l k f s) = bc_listeners s" "bc_c (upd_l k f s) = bc_c s"
  "bc_closed (upd_l k f s) = bc_closed s" "bc_cancelled (upd_l k f s) = bc_cancelled s"
  "bc_wg (upd_l k f s) = bc_wg s" "bc_barrier (upd_l k f s) = bc_barrier s"
  "bc_pc (upd_l k f s) = bc_pc s" "bc_next (upd_l k f s) = bc_next s"
  "bc_starts (upd_l k f s) = bc_starts s" "bc_worker (upd_l k f s) = bc_worker s"
  "bc_panic (upd_l k f s) = bc_panic s" "bc_accepted (upd_l k f s) = bc_accepted s"
  "bc_taken (upd_l k f s) = bc_taken s"
  "bc_ls (upd_l k f s) j = (if j = k then f (bc_ls s k) else bc_ls s j)"
  by (simp_all add: upd_l_def)

lemma l_stop_return_simps [simp]:
  "l_stop_return k (By_Stop vis) = In_Stop (Stop_delete k vis)"
  "l_stop_return k By_Unsubscribe = Leave (RetErr None)"
  by (simp_all add: l_stop_return_def)

lemma l_stop_return_holds [simp]:
  "holds_w (l_stop_return k c) = (c \<noteq> By_Unsubscribe)"
  "holds_r (l_stop_return k c) = (c = By_Unsubscribe)"
  "holds_lw j (l_stop_return k c) = False" "holds_lr j (l_stop_return k c) = False"
  "pc_bound n (l_stop_return k c) = (c \<noteq> By_Unsubscribe \<longrightarrow> k < n)"
  by (cases c; simp)+

lemmas bc_elims =
  bc_step.cases start_step.cases stop_step.cases l_stop_step.cases sub_step.cases write_step.cases
  worker_step.cases l_write_step.cases env_step.cases

text \<open>Each operation of the barrier keeps its record of holders, as one goroutine changes place.\<close>

lemma sb_stay:
  "sb_ok W R b pc \<Longrightarrow> W p = W (pc i) \<Longrightarrow> R p = R (pc i) \<Longrightarrow> sb_ok W R b (pc(i := p))"
  by (auto simp: sb_ok_def)

lemma sb_Entering:
  "sb_ok W R b pc \<Longrightarrow> Entering i b = Some b' \<Longrightarrow> \<not> W p \<Longrightarrow> R p \<Longrightarrow> sb_ok W R b' (pc(i := p))"
  by (auto simp: sb_ok_def Entering_def split: if_splits)

lemma sb_Out:
  "sb_ok W R b pc \<Longrightarrow> R (pc i) \<Longrightarrow> \<not> W p \<Longrightarrow> \<not> R p \<Longrightarrow> sb_ok W R (Out i b) (pc(i := p))"
  by (auto simp: sb_ok_def Out_def)

lemma sb_EnteringArea:
  "sb_ok W R b pc \<Longrightarrow> EnteringStatusArea i b = Some b' \<Longrightarrow> W p \<Longrightarrow> \<not> R p \<Longrightarrow> sb_ok W R b' (pc(i := p))"
  by (auto simp: sb_ok_def EnteringStatusArea_def split: if_splits)

lemma sb_OutOfArea:
  "sb_ok W R b pc \<Longrightarrow> W (pc i) \<Longrightarrow> \<not> W p \<Longrightarrow> \<not> R p \<Longrightarrow> sb_ok W R (OutOfStatusArea b) (pc(i := p))"
  by (simp add: sb_ok_def OutOfStatusArea_def) (metis empty_iff option.inject option.simps(3))

lemma sb_Mark [simp]:
  "sb_ok W R (MarkStarted b) pc = sb_ok W R b pc" "sb_ok W R (MarkStopped b) pc = sb_ok W R b pc"
  by (simp_all add: sb_ok_def MarkStarted_def MarkStopped_def)

lemma sb_fresh:
  "\<forall>j. \<not> W (pc j) \<and> \<not> R (pc j) \<Longrightarrow> \<not> W p \<Longrightarrow> \<not> R p \<Longrightarrow>
     sb_ok W R newStatusBarrier (pc(i := p))"
  by (simp add: sb_ok_def newStatusBarrier_def)

lemma sb_stay2:
  "sb_ok W R b pc \<Longrightarrow> W p = W (pc i) \<Longrightarrow> R p = R (pc i) \<Longrightarrow> W q = W (pc j) \<Longrightarrow> R q = R (pc j) \<Longrightarrow>
     pc i \<noteq> pc j \<Longrightarrow> sb_ok W R b (pc(i := p, j := q))"
  by (auto simp: sb_ok_def)

lemma sb_handover:
  assumes "sb_ok W R b pc" and "Entering j (Out i b) = Some b'" and "R (pc i)" and "\<not> W p" and "\<not> R p"
    and "\<not> W q" and "R q"
  shows "sb_ok W R b' (pc(i := p, j := q))"
  using assms by (blast intro: sb_Entering sb_Out)

lemmas sb_intros = sb_stay sb_stay2 sb_Entering sb_Out sb_EnteringArea sb_OutOfArea sb_handover

lemma inv_locks_main:
  assumes step: "bc_step z i s s'" and ok: "sb_ok holds_w holds_r (bc_barrier s) (bc_pc s)"
  shows "sb_ok holds_w holds_r (bc_barrier s') (bc_pc s')"
  using step ok by (elim bc_elims) (auto intro: sb_intros split: stop_caller.splits)

lemma sb_holder_bound: "pc_bound n p \<Longrightarrow> \<not> k < n \<Longrightarrow> \<not> holds_lw k p \<and> \<not> holds_lr k p"
  by (metis holds_lr.elims(2) holds_lw.elims(2) pc_bound.simps(1,6))

lemma inv_locks_listener:
  assumes step: "bc_step z i s s'" and ok: "sb_ok (holds_lw k) (holds_lr k) (l_barrier (bc_ls s k)) (bc_pc s)"
    and new: "k = bc_next s \<longrightarrow> (\<forall>j. \<not> holds_lw k (bc_pc s j) \<and> \<not> holds_lr k (bc_pc s j))"
  shows "sb_ok (holds_lw k) (holds_lr k) (l_barrier (bc_ls s' k)) (bc_pc s')"
  using step ok new
  by (elim bc_elims) (auto intro: sb_intros sb_fresh simp: startListener_def)

lemma inv_locks_bound:
  assumes step: "bc_step z i s s'" and "\<And>j. pc_bound (bc_next s) (bc_pc s j)"
    and "bc_listeners s \<subseteq> {..<bc_next s}"
  shows "pc_bound (bc_next s') (bc_pc s' j)" and "bc_listeners s' \<subseteq> {..<bc_next s'}"
  using step assms(3) assms(2) [of i] assms(2) [of j]
  by (elim bc_elims; auto simp: pc_bound_Suc)+

lemma inv_locks_new: "inv_locks (bc_New clients)"
  by (auto simp: inv_locks_def sb_ok_def bc_New_def startListener_def newStatusBarrier_def
      MarkStarted_def)

lemma inv_locks_step:
  assumes "bc_step z i s s'" and inv: "inv_locks s"
  shows "inv_locks s'"
proof -
  have bound: "pc_bound (bc_next s) (bc_pc s j)" for j
    using inv by (simp add: inv_locks_def)
  have "sb_ok (holds_lw k) (holds_lr k) (l_barrier (bc_ls s' k)) (bc_pc s')" for k
  proof (rule inv_locks_listener [OF assms(1)])
    show "k = bc_next s \<longrightarrow> (\<forall>j. \<not> holds_lw k (bc_pc s j) \<and> \<not> holds_lr k (bc_pc s j))"
      using sb_holder_bound [OF bound, of "bc_next s"] by simp
  qed (use inv in \<open>simp add: inv_locks_def\<close>)
  then show ?thesis
    using inv_locks_main [OF assms(1)] inv_locks_bound [OF assms(1) bound] inv
    by (simp add: inv_locks_def)
qed

lemma bc_reach_locks: "bc_reach z s \<Longrightarrow> inv_locks s"
  by (induction rule: bc_reach.induct) (blast intro: inv_locks_new inv_locks_step)+

text \<open>Mutual exclusion, read off the invariant.\<close>

lemma holds_w_unique: "inv_locks s \<Longrightarrow> holds_w (bc_pc s i) \<Longrightarrow> holds_w (bc_pc s j) \<Longrightarrow> i = j"
  by (metis inv_locks_def option.inject sb_ok_def)

lemma holds_w_no_reader: "inv_locks s \<Longrightarrow> holds_w (bc_pc s i) \<Longrightarrow> \<not> holds_r (bc_pc s j)"
  by (metis empty_iff inv_locks_def option.distinct(1) sb_ok_def)

lemma holds_lw_unique:
  "inv_locks s \<Longrightarrow> holds_lw k (bc_pc s i) \<Longrightarrow> holds_lw k (bc_pc s j) \<Longrightarrow> i = j"
  by (metis inv_locks_def option.inject sb_ok_def)

lemma holds_lw_no_reader: "inv_locks s \<Longrightarrow> holds_lw k (bc_pc s i) \<Longrightarrow> \<not> holds_lr k (bc_pc s j)"
  by (metis empty_iff inv_locks_def option.distinct(1) sb_ok_def)

end
