(* ===== verification/Broadcaster_Inv.thy ===== *)
theory Broadcaster_Inv
  imports Broadcaster
begin

text \<open>
  The inductive invariants of the broadcaster: what a goroutine knows at its place, what the flags and
  counters are given the place of the goroutine that holds the barrier, that every listener handed
  out is subscribed, being handled or closed, and what the channels carry.
\<close>

subsection \<open>What a goroutine knows at its place\<close>

abbreviation bc_started :: "'a Broadcaster \<Rightarrow> bool" where
  "bc_started s \<equiv> sb_started (bc_barrier s)"

abbreviation l_started :: "'a Broadcaster \<Rightarrow> nat \<Rightarrow> bool" where
  "l_started s k \<equiv> sb_started (l_barrier (bc_ls s k))"

abbreviation l_is_closed :: "'a Broadcaster \<Rightarrow> nat \<Rightarrow> bool" where
  "l_is_closed s k \<equiv> l_closed (bc_ls s k)"

fun know :: "'a Broadcaster \<Rightarrow> 'a bc_pc \<Rightarrow> bool" where
  "know s (In_Start p) = (p \<in> {Start_add, Start_go, Start_mark} \<longrightarrow> \<not> bc_started s)"
| "know s (In_Stop (Stop_delete k vis)) = (bc_started s \<and> l_is_closed s k)"
| "know s (In_Stop p) = ((p \<notin> {Stop_lock, Stop_check} \<and> (\<forall>r. p \<noteq> Stop_unlock r)) \<longrightarrow> bc_started s)"
| "know s (In_L_stop k c p) =
     (bc_started s \<and> (p = L_close \<or> p = L_mark \<longrightarrow> l_started s k) \<and>
      (p = L_mark \<or> p = L_unlock \<longrightarrow> l_is_closed s k))"
| "know s (In_Sub Sub_new) = bc_started s"
| "know s (In_Sub (Sub_store k)) = bc_started s"
| "know s (In_Sub (Unsub_load k)) = bc_started s"
| "know s (In_Sub (IsSub_load k)) = bc_started s"
| "know s (In_Write (Write_go t)) = bc_started s"
| "know s (In_Write (WriteSync_send t)) = bc_started s"
| "know s (In_Write (Send_select t)) = bc_started s"
| "know s (In_L_write k r p) = (p = LW_send \<longrightarrow> l_started s k)"
| "know s _ = True"

definition l_state_ok :: "'a Broadcaster \<Rightarrow> bool" where
  "l_state_ok s \<longleftrightarrow> (\<forall>k. \<not> l_started s k \<longrightarrow> l_is_closed s k)"

lemma know_frame:
  assumes "know s p" and "pc_bound n p" and "holds_w p \<or> holds_r p \<longrightarrow> bc_started s' = bc_started s"
    and "\<And>k. holds_lw k p \<or> holds_lr k p \<Longrightarrow> l_started s' k = l_started s k"
    and "\<And>k. k < n \<Longrightarrow> l_is_closed s k \<Longrightarrow> l_is_closed s' k"
  shows "know s' p"
  using assms by (cases "(s, p)" rule: know.cases) auto

text \<open>How a step of goroutine \<open>i\<close> looks to another goroutine.\<close>

lemma step_other:
  assumes "bc_step z i s s'" and "j \<noteq> i"
  shows "bc_pc s' j = bc_pc s j \<or>
    bc_pc s j = Unborn \<and> bc_pc s i = In_Start Start_go \<and> bc_pc s' j = In_Worker W_select \<or>
    (\<exists>t. bc_pc s j = Unborn \<and> bc_pc s i = In_Write (Write_go t) \<and> bc_pc s' j = In_Write (Send_select t))"
  using assms by (elim bc_elims) auto

lemma step_closed_mono:
  assumes "bc_step z i s s'" and "k < bc_next s" and "l_is_closed s k"
  shows "l_is_closed s' k"
  using assms by (elim bc_elims) auto

lemma step_started:
  assumes "bc_step z i s s'" and "bc_started s' \<noteq> bc_started s"
  shows "holds_w (bc_pc s i)"
  using assms by (elim bc_elims) (auto simp: barrier_defs split: stop_caller.splits if_splits)

lemma step_l_started:
  assumes "bc_step z i s s'" and "l_started s' k \<noteq> l_started s k"
  shows "holds_lw k (bc_pc s i) \<or> k = bc_next s"
  using assms by (elim bc_elims) (auto simp: barrier_defs split: stop_caller.splits if_splits)

lemma know_env [simp]:
  "know (s\<lparr>bc_cancelled := b\<rparr>) p = know s p" "know (upd_l k (l_chan_update f) s) p = know s p"
  by (cases "(s, p)" rule: know.cases; simp)+

lemma know_own:
  assumes "bc_step z i s s'" and "know s (bc_pc s i)" and "l_state_ok s" and "inv_locks s"
  shows "know s' (bc_pc s' i)"
proof -
  have u: "bc_pc s j = Unborn \<Longrightarrow> bc_pc s i \<noteq> Unborn \<Longrightarrow> j \<noteq> i" for j by auto
  show ?thesis
    using assms(1-3) u
    by (elim bc_elims) (auto simp: barrier_defs l_state_ok_def l_stop_return_def
        split: stop_caller.splits if_splits)
qed

lemma know_other:
  assumes step: "bc_step z i s s'" and inv: "inv_locks s" and "know s (bc_pc s j)"
    and ki: "know s (bc_pc s i)" and "j \<noteq> i"
  shows "know s' (bc_pc s' j)"
proof -
  have bound: "pc_bound (bc_next s) (bc_pc s j)" for j
    using inv by (simp add: inv_locks_def)
  have st: "bc_started s' = bc_started s" if "holds_w (bc_pc s j) \<or> holds_r (bc_pc s j)"
    using step_started [OF step] that holds_w_unique [OF inv, of i j] holds_w_no_reader [OF inv, of i j]
      \<open>j \<noteq> i\<close> by blast
  have ls: "l_started s' k = l_started s k" if "holds_lw k (bc_pc s j) \<or> holds_lr k (bc_pc s j)" for k
    using step_l_started [OF step, of k] that holds_lw_unique [OF inv, of k i j]
      holds_lw_no_reader [OF inv, of k i j] sb_holder_bound [OF bound, of k j] \<open>j \<noteq> i\<close> by auto
  from step_other [OF step \<open>j \<noteq> i\<close>] consider
      "bc_pc s' j = bc_pc s j"
    | "bc_pc s' j = In_Worker W_select"
    | t where "bc_pc s i = In_Write (Write_go t)" "bc_pc s' j = In_Write (Send_select t)"
    by blast
  then show ?thesis
  proof cases
    case 1
    then show ?thesis
      using know_frame [OF assms(3) bound _ ls step_closed_mono [OF step]] st by simp
  next
    case (3 t)
    have "\<not> holds_w (bc_pc s i)" using 3 by simp
    then have "bc_started s' = bc_started s" using step_started [OF step] by blast
    with 3 ki show ?thesis by simp
  qed simp
qed

lemma l_state_step:
  assumes "bc_step z i s s'" and "l_state_ok s" and "know s (bc_pc s i)"
  shows "l_state_ok s'"
  unfolding l_state_ok_def
proof
  fix k
  have "\<not> l_started s k \<longrightarrow> l_is_closed s k" using assms(2) by (simp add: l_state_ok_def)
  then show "\<not> l_started s' k \<longrightarrow> l_is_closed s' k"
    using assms(1,3)
    by (elim bc_elims) (auto simp: barrier_defs startListener_def split: stop_caller.splits if_splits)
qed

definition inv_know :: "'a Broadcaster \<Rightarrow> bool" where
  "inv_know s \<longleftrightarrow> inv_locks s \<and> l_state_ok s \<and> (\<forall>i. know s (bc_pc s i))"

lemma inv_know_new: "inv_know (bc_New clients)"
  using inv_locks_new [of clients]
  by (auto simp: inv_know_def l_state_ok_def bc_New_def startListener_def MarkStarted_def)

lemma inv_know_step:
  assumes "bc_step z i s s'" and "inv_know s"
  shows "inv_know s'"
proof -
  have "know s' (bc_pc s' j)" for j
    using know_own [OF assms(1)] know_other [OF assms(1)] assms(2)
    by (cases "j = i") (auto simp: inv_know_def)
  then show ?thesis
    using l_state_step [OF assms(1)] inv_locks_step [OF assms(1)] assms(2)
    by (simp add: inv_know_def)
qed

subsection \<open>The goroutine that holds a barrier\<close>

text \<open>Its place, or \<open>Unborn\<close> when no goroutine holds the barrier as its writer.\<close>

definition writer_pc :: "statusBarrier \<Rightarrow> (nat \<Rightarrow> 'a bc_pc) \<Rightarrow> 'a bc_pc" where
  "writer_pc b pc = (case sb_writer b of None \<Rightarrow> Unborn | Some i \<Rightarrow> pc i)"

lemma writer_pc_eq: "sb_ok W R b pc \<Longrightarrow> W (pc i) \<Longrightarrow> writer_pc b pc = pc i"
proof -
  assume "sb_ok W R b pc" and "W (pc i)"
  then have "sb_writer b = Some i" by (simp add: sb_ok_def)
  then show ?thesis by (simp add: writer_pc_def)
qed

lemma writer_pc_none: "sb_ok W R b pc \<Longrightarrow> (\<And>i. \<not> W (pc i)) \<Longrightarrow> writer_pc b pc = Unborn"
  by (auto simp: writer_pc_def sb_ok_def split: option.splits)

lemma writer_pc_reader:
  assumes "sb_ok W R b pc" and "R (pc i)"
  shows "writer_pc b pc = Unborn"
proof -
  have "sb_writer b = None" using assms by (auto simp: sb_ok_def)
  then show ?thesis by (simp add: writer_pc_def)
qed

lemma sb_ok_unique: "sb_ok W R b pc \<Longrightarrow> W (pc i) \<Longrightarrow> W (pc j) \<Longrightarrow> i = j"
  by (metis option.inject sb_ok_def)

text \<open>How it changes when only goroutine \<open>i\<close> takes or gives up the barrier.\<close>

lemma writer_pc_step:
  assumes ok: "sb_ok W R b pc" and ok': "sb_ok W R b' pc'"
    and other: "\<And>j. j \<noteq> i \<Longrightarrow> W (pc' j) \<or> W (pc j) \<Longrightarrow> pc' j = pc j"
  shows "writer_pc b' pc' = (if W (pc' i) then pc' i else if W (pc i) then Unborn else writer_pc b pc)"
proof (cases "\<exists>j. W (pc' j)")
  case True
  then obtain j where j: "W (pc' j)" by blast
  note eq' = writer_pc_eq [OF ok' j]
  show ?thesis
  proof (cases "j = i")
    case False
    with j other have same: "pc' j = pc j" by blast
    with j have "W (pc j)" by simp
    moreover have "\<not> W (pc' i)" using sb_ok_unique [OF ok' j, of i] False by blast
    moreover have "\<not> W (pc i)" using sb_ok_unique [OF ok \<open>W (pc j)\<close>, of i] False by blast
    ultimately show ?thesis using writer_pc_eq [OF ok] eq' same by simp
  qed (use j eq' in simp)
next
  case False
  then have "\<not> W (pc j)" if "j \<noteq> i" for j
    using other [OF that] False by metis
  then have "\<not> W (pc i) \<Longrightarrow> writer_pc b pc = Unborn"
    by (metis writer_pc_none [OF ok])
  then show ?thesis using False writer_pc_none [OF ok'] by simp
qed

abbreviation cs :: "'a Broadcaster \<Rightarrow> 'a bc_pc" where
  "cs s \<equiv> writer_pc (bc_barrier s) (bc_pc s)"

abbreviation l_cs :: "'a Broadcaster \<Rightarrow> nat \<Rightarrow> 'a bc_pc" where
  "l_cs s k \<equiv> writer_pc (l_barrier (bc_ls s k)) (bc_pc s)"

lemma inv_locks_ok:
  "inv_locks s \<Longrightarrow> sb_ok holds_w holds_r (bc_barrier s) (bc_pc s)"
  "inv_locks s \<Longrightarrow> sb_ok (holds_lw k) (holds_lr k) (l_barrier (bc_ls s k)) (bc_pc s)"
  by (simp_all add: inv_locks_def)

lemma cs_step:
  assumes step: "bc_step z i s s'" and inv: "inv_locks s"
  shows "cs s' = (if holds_w (bc_pc s' i) then bc_pc s' i
                  else if holds_w (bc_pc s i) then Unborn else cs s)"
  using step_other [OF step]
  by (intro writer_pc_step [OF inv_locks_ok(1) [OF inv] inv_locks_ok(1) [OF inv_locks_step [OF step inv]]])
     fastforce

lemma l_cs_step:
  assumes step: "bc_step z i s s'" and inv: "inv_locks s"
  shows "l_cs s' k = (if holds_lw k (bc_pc s' i) then bc_pc s' i
                      else if holds_lw k (bc_pc s i) then Unborn else l_cs s k)"
  using step_other [OF step]
  by (intro writer_pc_step [OF inv_locks_ok(2) [OF inv] inv_locks_ok(2) [OF inv_locks_step [OF step inv]]])
     fastforce

text \<open>The facts about the moving goroutine the next proofs start from.\<close>

lemma cs_at:
  assumes "inv_locks s"
  shows "holds_w (bc_pc s i) \<longrightarrow> cs s = bc_pc s i" and "holds_r (bc_pc s i) \<longrightarrow> cs s = Unborn"
    and "holds_lw k (bc_pc s i) \<longrightarrow> l_cs s k = bc_pc s i"
    and "holds_lr k (bc_pc s i) \<longrightarrow> l_cs s k = Unborn"
    and "EnteringStatusArea i (bc_barrier s) = Some b \<longrightarrow> cs s = Unborn"
    and "EnteringStatusArea i (l_barrier (bc_ls s k)) = Some b \<longrightarrow> l_cs s k = Unborn"
  using writer_pc_eq writer_pc_reader inv_locks_ok [OF assms]
  by (blast, blast, blast, blast, simp_all add: EnteringStatusArea_def writer_pc_def)

end
