(* ===== verification/Broadcaster_Props.thy ===== *)
theory Broadcaster_Props
  imports Broadcaster_Inv
begin

text \<open>
  The life cycle of a broadcaster, as long as at most one worker was ever created (\<open>Start\<close> was not
  called again after a completed \<open>Stop\<close>), what its channels carry, and the properties.
\<close>

subsection \<open>The life cycle\<close>

fun is_worker :: "'a bc_pc \<Rightarrow> bool" where
  "is_worker (In_Worker p) = True"
| "is_worker (In_L_write k r p) = True"
| "is_worker _ = False"

text \<open>The phases between two calls: not yet started, running, stopped.\<close>

definition ph_fresh :: "'a Broadcaster \<Rightarrow> bool" where
  "ph_fresh s \<longleftrightarrow> \<not> bc_started s \<and> bc_starts s = 0 \<and> \<not> bc_closed s \<and> bc_wg s = 0 \<and> bc_worker s = None"

definition ph_running :: "'a Broadcaster \<Rightarrow> bool" where
  "ph_running s \<longleftrightarrow> bc_started s \<and> bc_starts s = 1 \<and> \<not> bc_closed s"

definition ph_stopped :: "'a Broadcaster \<Rightarrow> bool" where
  "ph_stopped s \<longleftrightarrow>
     \<not> bc_started s \<and> bc_starts s = 1 \<and> bc_closed s \<and> bc_listeners s = {} \<and> bc_wg s = 0"

text \<open>While \<open>Stop\<close> ranges over the listeners, those it has visited are gone.\<close>

definition ph_ranging :: "nat set \<Rightarrow> 'a Broadcaster \<Rightarrow> bool" where
  "ph_ranging vis s \<longleftrightarrow> ph_running s \<and> bc_wg s = 0 \<and> bc_listeners s \<inter> vis = {}"

text \<open>The phase, given the place of the goroutine that holds the barrier.\<close>

fun phase :: "'a Broadcaster \<Rightarrow> 'a bc_pc \<Rightarrow> bool" where
  "phase s (In_Start p) =
     (case p of
        Start_go \<Rightarrow> \<not> bc_started s \<and> bc_starts s = 1 \<and> \<not> bc_closed s \<and> bc_worker s = None \<and> bc_wg s = 1
      | Start_mark \<Rightarrow> \<not> bc_started s \<and> bc_starts s = 1 \<and> \<not> bc_closed s
      | Start_add \<Rightarrow> ph_fresh s \<or> ph_stopped s
      | _ \<Rightarrow> ph_fresh s \<or> ph_running s \<or> ph_stopped s)"
| "phase s (In_Stop p) =
     (case p of
        Stop_cancel \<Rightarrow> ph_running s
      | Stop_wait \<Rightarrow> ph_running s
      | Stop_range vis \<Rightarrow> ph_ranging vis s
      | Stop_delete k vis \<Rightarrow> ph_ranging vis s
      | Stop_close \<Rightarrow> ph_running s \<and> bc_wg s = 0 \<and> bc_listeners s = {}
      | Stop_mark \<Rightarrow>
          bc_started s \<and> bc_starts s = 1 \<and> bc_closed s \<and> bc_listeners s = {} \<and> bc_wg s = 0
      | _ \<Rightarrow> ph_fresh s \<or> ph_running s \<or> ph_stopped s)"
| "phase s (In_L_stop k c p) = (case c of By_Stop vis \<Rightarrow> ph_ranging vis s | By_Unsubscribe \<Rightarrow> ph_running s)"
| "phase s _ = (ph_fresh s \<or> ph_running s \<or> ph_stopped s)"

lemmas phase_defs = ph_fresh_def ph_running_def ph_stopped_def ph_ranging_def

definition worker_ok :: "'a Broadcaster \<Rightarrow> nat \<Rightarrow> bool" where
  "worker_ok s i \<longleftrightarrow> (is_worker (bc_pc s i) \<longrightarrow> bc_worker s = Some i \<and> bc_wg s = 1)"

lemma phase_frame:
  assumes "phase s p" and "bc_started s' = bc_started s" and "bc_starts s' = bc_starts s"
    and "bc_closed s' = bc_closed s" and "bc_wg s' = bc_wg s" and "bc_worker s' = bc_worker s"
    and "bc_listeners s' = bc_listeners s"
  shows "phase s' p"
  using assms by (cases "(s, p)" rule: phase.cases)
    (auto simp: phase_defs split: start_pc.splits stop_pc.splits stop_caller.splits)

lemma starts_mono: "bc_step z i s s' \<Longrightarrow> bc_starts s \<le> bc_starts s'"
  by (elim bc_elims) auto

lemma phase_start:
  assumes "start_step i s s'" and "phase s p" and "bc_starts s' \<le> 1" and "know s (bc_pc s i)"
    and "holds_w (bc_pc s i) \<longrightarrow> p = bc_pc s i"
    and "\<forall>b. EnteringStatusArea i (bc_barrier s) = Some b \<longrightarrow> p = Unborn"
  shows "phase s' (if holds_w (bc_pc s' i) then bc_pc s' i else if holds_w (bc_pc s i) then Unborn else p)"
  using assms
  by (cases rule: start_step.cases)
     (auto simp: phase_defs barrier_defs intro: phase_frame split: if_splits)

lemma phase_stop:
  assumes "stop_step i s s'" and "phase s p" and "bc_starts s' \<le> 1" and "know s (bc_pc s i)"
    and "holds_w (bc_pc s i) \<longrightarrow> p = bc_pc s i"
    and "\<forall>b. EnteringStatusArea i (bc_barrier s) = Some b \<longrightarrow> p = Unborn"
  shows "phase s' (if holds_w (bc_pc s' i) then bc_pc s' i else if holds_w (bc_pc s i) then Unborn else p)"
  using assms
  by (cases rule: stop_step.cases)
     (auto simp: phase_defs barrier_defs intro: phase_frame split: if_splits)

lemma phase_l_stop:
  assumes "l_stop_step i s s'" and "phase s p" and "holds_w (bc_pc s i) \<longrightarrow> p = bc_pc s i"
  shows "phase s' (if holds_w (bc_pc s' i) then bc_pc s' i else if holds_w (bc_pc s i) then Unborn else p)"
  using assms
  by (cases rule: l_stop_step.cases)
     (auto simp: phase_defs barrier_defs l_stop_return_def intro: phase_frame
       split: if_splits stop_caller.splits)

lemma phase_sub:
  assumes "sub_step i s s'" and "phase s p" and "know s (bc_pc s i)"
    and "holds_r (bc_pc s i) \<longrightarrow> p = Unborn"
  shows "phase s' (if holds_w (bc_pc s' i) then bc_pc s' i else if holds_w (bc_pc s i) then Unborn else p)"
  using assms
  by (cases rule: sub_step.cases)
     (auto simp: phase_defs barrier_defs intro: phase_frame split: if_splits)

lemma phase_write:
  assumes "write_step i s s'" and "phase s p"
  shows "phase s' (if holds_w (bc_pc s' i) then bc_pc s' i else if holds_w (bc_pc s i) then Unborn else p)"
  using assms
  by (cases rule: write_step.cases) (auto simp: barrier_defs intro: phase_frame split: if_splits)

text \<open>The worker's exit: only a running broadcaster's barrier can be held meanwhile.\<close>

lemma phase_exit:
  assumes "phase s p" and "bc_wg s = 1" and "bc_worker s = Some i" and "bc_started s' = bc_started s"
    and "bc_starts s' = bc_starts s" and "bc_closed s' = bc_closed s" and "bc_listeners s' = bc_listeners s"
  shows "phase s' p"
  using assms by (cases "(s, p)" rule: phase.cases)
    (auto simp: phase_defs split: start_pc.splits stop_pc.splits stop_caller.splits)

lemma phase_worker:
  assumes "worker_step z i s s'" and "phase s p" and "worker_ok s i"
  shows "phase s' (if holds_w (bc_pc s' i) then bc_pc s' i else if holds_w (bc_pc s i) then Unborn else p)"
proof -
  have exit: "phase s'' p" if "is_worker (bc_pc s i)" and "bc_started s'' = bc_started s"
      and "bc_starts s'' = bc_starts s" and "bc_closed s'' = bc_closed s"
      and "bc_listeners s'' = bc_listeners s" for s''
    using phase_exit [OF assms(2)] assms(3) that by (simp add: worker_ok_def)
  show ?thesis
    using assms(1,2)
    by (elim worker_step.cases l_write_step.cases) (auto intro: exit split: if_splits)
qed

lemma phase_env:
  assumes "env_step s s'" and "phase s p"
  shows "phase s' p" and "bc_pc s' = bc_pc s"
  using assms by (cases rule: env_step.cases; auto intro: phase_frame)+

lemma phase_step:
  assumes step: "bc_step z i s s'" and inv: "inv_know s" and ph: "phase s (cs s)" and w: "worker_ok s i"
    and one: "bc_starts s' \<le> 1"
  shows "phase s' (cs s')"
proof -
  have locks: "inv_locks s" and k: "know s (bc_pc s i)"
    using inv by (simp_all add: inv_know_def)
  note at = cs_at [OF locks]
  have enter: "\<forall>b. EnteringStatusArea i (bc_barrier s) = Some b \<longrightarrow> cs s = Unborn"
    using at(5) by blast
  have "phase s' (if holds_w (bc_pc s' i) then bc_pc s' i else if holds_w (bc_pc s i) then Unborn else cs s)"
    using step
  proof (cases rule: bc_step.cases)
    case by_start
    then show ?thesis by (rule phase_start [OF _ ph one k at(1) enter])
  next
    case by_stop
    then show ?thesis by (rule phase_stop [OF _ ph one k at(1) enter])
  next
    case by_l_stop
    then show ?thesis by (rule phase_l_stop [OF _ ph at(1)])
  next
    case by_sub
    then show ?thesis by (rule phase_sub [OF _ ph k at(2)])
  next
    case by_write
    then show ?thesis by (rule phase_write [OF _ ph])
  next
    case by_worker
    then show ?thesis by (rule phase_worker [OF _ ph w])
  next
    case by_env
    then show ?thesis
      using phase_env [OF by_env ph] at(1) [of i] by auto
  qed
  then show ?thesis by (simp add: cs_step [OF step locks])
qed

lemma step_worker_own:
  assumes "bc_step z i s s'" and "is_worker (bc_pc s' i)" and "bc_pc s i \<noteq> In_Start Start_go"
  shows "is_worker (bc_pc s i) \<and> bc_wg s' = bc_wg s \<and> bc_worker s' = bc_worker s"
  using assms by (elim bc_elims) (auto simp: l_stop_return_def split: stop_caller.splits if_splits)

lemma step_worker_new:
  assumes "bc_step z i s s'" and "is_worker (bc_pc s' j)" and "j \<noteq> i"
  shows "bc_pc s' j = bc_pc s j \<or>
         bc_pc s i = In_Start Start_go \<and> bc_wg s' = bc_wg s \<and> bc_worker s' = Some j"
  using assms by (elim bc_elims) auto

lemma step_worker_other:
  assumes "bc_step z i s s'"
  shows "bc_wg s' = bc_wg s \<and> bc_worker s' = bc_worker s \<or> is_worker (bc_pc s i) \<or>
         bc_pc s i = In_Start Start_go \<or>
         bc_pc s i = In_Start Start_add \<and> bc_starts s' = Suc (bc_starts s)"
  using assms by (elim bc_elims) auto

lemma step_go:
  assumes "bc_step z i s s'" and "bc_pc s i = In_Start Start_go"
  shows "bc_wg s' = bc_wg s \<and> (bc_pc s' i = In_Start Start_mark \<or> bc_pc s' i = In_Start Start_go)"
  using assms by (elim bc_elims) auto

lemma worker_ok_step:
  assumes step: "bc_step z i s s'" and ok: "\<And>j. worker_ok s j" and ph: "phase s (cs s)"
    and locks: "inv_locks s" and one: "bc_starts s' \<le> 1"
  shows "worker_ok s' j"
proof (cases "is_worker (bc_pc s' j)")
  case True
  have p: "phase s (bc_pc s i)" if "holds_w (bc_pc s i)"
    using ph cs_at(1) [OF locks, of i] that by simp
  have go: "bc_worker s = None \<and> bc_wg s = 1" if "bc_pc s i = In_Start Start_go"
    using p that by simp
  have add: "bc_worker s = None" if "bc_pc s i = In_Start Start_add" "bc_starts s' = Suc (bc_starts s)"
    using p that one by (auto simp: phase_defs)
  show ?thesis
  proof (cases "j = i")
    case own: True
    have "bc_pc s i \<noteq> In_Start Start_go" using step_go [OF step] True own by auto
    from step_worker_own [OF step _ this] True ok [of i] own show ?thesis by (simp add: worker_ok_def)
  next
    case False
    from step_worker_new [OF step True False] show ?thesis
    proof
      assume "bc_pc s' j = bc_pc s j"
      with True ok [of j] have "bc_worker s = Some j \<and> bc_wg s = 1" by (simp add: worker_ok_def)
      moreover have "\<not> is_worker (bc_pc s i)" using ok [of i] calculation False by (auto simp: worker_ok_def)
      ultimately show ?thesis
        using step_worker_other [OF step] go add by (auto simp: worker_ok_def)
    qed (use go in \<open>auto simp: worker_ok_def\<close>)
  qed
qed (simp add: worker_ok_def)

text \<open>The invariant of the broadcasters that were started at most once.\<close>

definition inv_once :: "'a Broadcaster \<Rightarrow> bool" where
  "inv_once s \<longleftrightarrow> (bc_starts s \<le> 1 \<longrightarrow> phase s (cs s) \<and> (\<forall>i. worker_ok s i))"

lemma bc_reach_know: "bc_reach z s \<Longrightarrow> inv_know s"
  by (induction rule: bc_reach.induct) (blast intro: inv_know_new inv_know_step)+

lemma inv_once_new: "inv_once (bc_New clients)"
  by (auto simp: inv_once_def bc_New_def writer_pc_def newStatusBarrier_def phase_defs worker_ok_def)

lemma inv_once_step:
  assumes step: "bc_step z i s s'" and "inv_know s" and "inv_once s"
  shows "inv_once s'"
proof -
  have locks: "inv_locks s" using assms(2) by (simp add: inv_know_def)
  show ?thesis
    using phase_step [OF step assms(2)] worker_ok_step [OF step _ _ locks] starts_mono [OF step] assms(3)
    by (auto simp: inv_once_def)
qed

lemma bc_reach_once: "bc_reach z s \<Longrightarrow> inv_once s"
  by (induction rule: bc_reach.induct) (blast intro: inv_once_new inv_once_step bc_reach_know)+

subsection \<open>Closed listeners\<close>

fun l_marking :: "'a bc_pc \<Rightarrow> bool" where
  "l_marking (In_L_stop k c p) = (p = L_mark)"
| "l_marking _ = False"

lemma l_marking_step:
  assumes "bc_step z i s s'" and "know s (bc_pc s i)"
    and "l_is_closed s k \<and> l_started s k \<longrightarrow> l_marking p" and "holds_lw k (bc_pc s i) \<longrightarrow> p = bc_pc s i"
    and "sb_writer (l_barrier (bc_ls s k)) = None \<longrightarrow> p = Unborn"
    and "l_is_closed s' k \<and> l_started s' k"
  shows "l_marking (if holds_lw k (bc_pc s' i) then bc_pc s' i
                    else if holds_lw k (bc_pc s i) then Unborn else p)"
  using assms
  by (elim bc_elims) (auto simp: barrier_defs startListener_def split: if_splits)

definition inv_l :: "'a Broadcaster \<Rightarrow> bool" where
  "inv_l s \<longleftrightarrow> (\<forall>k. l_is_closed s k \<and> l_started s k \<longrightarrow> l_marking (l_cs s k))"

lemma inv_l_step:
  assumes step: "bc_step z i s s'" and "inv_know s" and "inv_l s"
  shows "inv_l s'"
proof -
  have locks: "inv_locks s" and k: "know s (bc_pc s i)"
    using assms(2) by (simp_all add: inv_know_def)
  have free: "sb_writer (l_barrier (bc_ls s k)) = None \<longrightarrow> l_cs s k = Unborn" for k
    by (simp add: writer_pc_def)
  show ?thesis
    using l_marking_step [OF step k _ cs_at(3) [OF locks] free] assms(3)
    by (simp add: inv_l_def l_cs_step [OF step locks])
qed

lemma bc_reach_l: "bc_reach z s \<Longrightarrow> inv_l s"
  by (induction rule: bc_reach.induct)
     (simp add: inv_l_def bc_New_def startListener_def, blast intro: inv_l_step bc_reach_know)

text \<open>A listener handed out is subscribed, closed, or in the hands of a goroutine.\<close>

fun handling :: "nat \<Rightarrow> 'a bc_pc \<Rightarrow> bool" where
  "handling k (In_Sub (Sub_store j)) = (j = k)"
| "handling k (In_L_stop j c p) = (j = k \<and> (p = L_lock \<or> p = L_check \<or> p = L_close))"
| "handling k _ = False"

definition accounted :: "'a Broadcaster \<Rightarrow> nat \<Rightarrow> bool" where
  "accounted s k \<longleftrightarrow>
     (k < bc_next s \<longrightarrow> k \<in> bc_listeners s \<or> l_is_closed s k \<or> (\<exists>i. handling k (bc_pc s i)))"

lemma handling_own:
  assumes "bc_step z i s s'" and "handling k (bc_pc s i)" and "know s (bc_pc s i)" and "l_state_ok s"
    and "k < bc_next s"
  shows "k \<in> bc_listeners s' \<or> l_is_closed s' k \<or> handling k (bc_pc s' i)"
  using assms by (elim bc_elims) (auto simp: l_state_ok_def barrier_defs)

lemma listeners_step:
  assumes "bc_step z i s s'" and "k \<in> bc_listeners s" and "k \<notin> bc_listeners s'"
  shows "bc_pc s i = In_Sub (Unsub_load k) \<and> handling k (bc_pc s' i) \<or>
         (\<exists>vis. bc_pc s i = In_Stop (Stop_delete k vis) \<and> bc_ls s' = bc_ls s)"
  using assms by (elim bc_elims) auto

lemma next_step:
  assumes "bc_step z i s s'" and "bc_next s \<le> k" and "k < bc_next s'"
  shows "handling k (bc_pc s' i)"
  using assms by (elim bc_elims) auto

lemma accounted_step:
  assumes step: "bc_step z i s s'" and inv: "inv_know s" and acc: "accounted s k"
  shows "accounted s' k"
proof (cases "k < bc_next s")
  case True
  have ki: "know s (bc_pc s i)" and ls: "l_state_ok s" using inv by (simp_all add: inv_know_def)
  from acc True consider "l_is_closed s k" | "k \<in> bc_listeners s" | j where "handling k (bc_pc s j)"
    by (auto simp: accounted_def)
  then show ?thesis
  proof cases
    case 1
    then show ?thesis using step_closed_mono [OF step True] by (simp add: accounted_def)
  next
    case 2
    then show ?thesis
      using listeners_step [OF step, of k] ki
      by (cases "k \<in> bc_listeners s'") (auto simp: accounted_def)
  next
    case (3 j)
    show ?thesis
    proof (cases "j = i")
      case True
      with 3 handling_own [OF step _ ki ls \<open>k < bc_next s\<close>] show ?thesis by (auto simp: accounted_def)
    next
      case False
      with 3 step_other [OF step, of j] have "handling k (bc_pc s' j)" by auto
      then show ?thesis by (auto simp: accounted_def)
    qed
  qed
next
  case False
  then show ?thesis using next_step [OF step, of k] by (auto simp: accounted_def)
qed

lemma bc_reach_accounted: "bc_reach z s \<Longrightarrow> accounted s k"
  by (induction rule: bc_reach.induct)
     (simp add: accounted_def bc_New_def, blast intro: accounted_step bc_reach_know)

subsection \<open>No panics\<close>

lemma panic_step:
  assumes "bc_step z i s s'" and "bc_panic s'"
  shows "bc_panic s \<or> bc_closed s \<and> (bc_pc s i = In_Stop Stop_close \<or>
            (\<exists>t. bc_pc s i = In_Write (Send_select t) \<or> bc_pc s i = In_Write (WriteSync_send t))) \<or>
         (\<exists>k. l_is_closed s k \<and> ((\<exists>c. bc_pc s i = In_L_stop k c L_close) \<or>
            (\<exists>r. bc_pc s i = In_L_write k r LW_send)))"
  using assms by (elim bc_elims) auto

lemma no_panic_step:
  assumes step: "bc_step z i s s'" and inv: "inv_know s" and "inv_once s" and "inv_l s"
    and one: "bc_starts s \<le> 1" and "\<not> bc_panic s"
  shows "\<not> bc_panic s'"
proof
  assume "bc_panic s'"
  have locks: "inv_locks s" and k: "know s (bc_pc s i)" using inv by (simp_all add: inv_know_def)
  have ph: "phase s (cs s)" using assms(3) one by (simp add: inv_once_def)
  note at = cs_at [OF locks, of i]
  from panic_step [OF step \<open>bc_panic s'\<close>] \<open>\<not> bc_panic s\<close> consider
      "bc_closed s" "bc_pc s i = In_Stop Stop_close"
    | t where "bc_closed s" "bc_pc s i = In_Write (Send_select t) \<or> bc_pc s i = In_Write (WriteSync_send t)"
    | k c where "l_is_closed s k" "bc_pc s i = In_L_stop k c L_close"
    | k r where "l_is_closed s k" "bc_pc s i = In_L_write k r LW_send"
    by blast
  then show False
  proof cases
    case 1
    then show ?thesis using at(1) ph by (simp add: phase_defs)
  next
    case (2 t)
    then have "cs s = Unborn" "bc_started s" using at(2) k by auto
    then show ?thesis using 2 ph by (auto simp: phase_defs)
  next
    case (3 k c)
    with cs_at(3) [OF locks, of k i] k assms(4) show ?thesis by (auto simp: inv_l_def)
  next
    case (4 k r)
    with cs_at(4) [OF locks, of k i] k assms(4) show ?thesis by (auto simp: inv_l_def)
  qed
qed

lemma bc_reach_no_panic: "bc_reach z s \<Longrightarrow> bc_starts s \<le> 1 \<Longrightarrow> \<not> bc_panic s"
proof (induction rule: bc_reach.induct)
  case (bc_more s i s')
  then have one: "bc_starts s \<le> 1" using starts_mono by (metis le_trans)
  with bc_more no_panic_step bc_reach_know bc_reach_once bc_reach_l show ?case by metis
qed (simp add: bc_New_def)

subsection \<open>What the channels carry\<close>

text \<open>
  The value the worker is passing on, and the listeners it is done with: all others have not been
  given it yet.
\<close>

fun passing :: "'a bc_pc \<Rightarrow> ('a \<times> nat set) option" where
  "passing (In_Worker (W_range r)) = Some (rg_value r, rg_vis r)"
| "passing (In_Worker (W_visit k r)) = Some (rg_value r, rg_vis r)"
| "passing (In_L_write k r p) =
     Some (rg_value r, if p = LW_out then insert k (rg_vis r) else rg_vis r)"
| "passing _ = None"

fun not_yet :: "'a bc_pc \<Rightarrow> bool" where
  "not_yet (In_Worker (W_visit k r)) = (k \<notin> rg_vis r)"
| "not_yet (In_L_write k r p) = (k \<notin> rg_vis r)"
| "not_yet _ = True"

definition passing_ok :: "'a Broadcaster \<Rightarrow> 'a bc_pc \<Rightarrow> bool" where
  "passing_ok s p \<longleftrightarrow> (\<forall>d vis. passing p = Some (d, vis) \<longrightarrow>
     (\<exists>ts. bc_taken s = ts @ [d] \<and> (\<forall>k. k \<notin> vis \<longrightarrow> subseq (l_log (bc_ls s k)) ts)))"

definition logs_ok :: "'a Broadcaster \<Rightarrow> bool" where
  "logs_ok s \<longleftrightarrow> bc_accepted s = bc_taken s @ bc_c s \<and> (\<forall>k. subseq (l_log (bc_ls s k)) (bc_taken s))"

lemma passing_worker: "passing p \<noteq> None \<Longrightarrow> is_worker p"
  by (cases p) auto

lemma passing_ok_None: "passing p = None \<Longrightarrow> passing_ok s p"
  by (simp add: passing_ok_def)

lemma not_yet_step:
  assumes "bc_step z i s s'" and "not_yet (bc_pc s i)" and "not_yet (bc_pc s j)"
  shows "not_yet (bc_pc s' j)"
  using assms by (elim bc_elims) (auto simp: l_stop_return_def split: stop_caller.splits)

lemma subseq_snoc: "subseq xs ys \<Longrightarrow> subseq xs (ys @ [y])"
  by (rule list_emb_prefix)

lemma subseq_snoc_both: "subseq xs ys \<Longrightarrow> subseq (xs @ [y]) (ys @ [y])"
  by (simp add: list_emb_append_mono)

lemma logs_other:
  assumes "bc_step z i s s'" and "\<not> is_worker (bc_pc s i)"
  shows "bc_taken s' = bc_taken s \<and> (l_log (bc_ls s' k) = l_log (bc_ls s k) \<or> l_log (bc_ls s' k) = []) \<and>
         (bc_accepted s = bc_taken s @ bc_c s \<longrightarrow> bc_accepted s' = bc_taken s' @ bc_c s')"
  using assms by (elim bc_elims) (auto simp: startListener_def)

lemma logs_env:
  assumes "env_step s s'"
  shows "bc_taken s' = bc_taken s" and "l_log (bc_ls s' k) = l_log (bc_ls s k)" and "bc_c s' = bc_c s"
    and "bc_accepted s' = bc_accepted s" and "bc_pc s' = bc_pc s"
  using assms by (cases rule: env_step.cases; simp)+

lemma logs_worker:
  assumes "worker_step z i s s'" and "logs_ok s" and "passing_ok s (bc_pc s i)" and "not_yet (bc_pc s i)"
    and "\<not> bc_closed s"
  shows "logs_ok s'" and "passing_ok s' (bc_pc s' i)"
  using assms
  by (elim worker_step.cases l_write_step.cases;
      auto simp: logs_ok_def passing_ok_def intro: subseq_snoc subseq_snoc_both)+

text \<open>A step that takes nothing out of the channel, and only resets logs, keeps it.\<close>

lemma passing_frame:
  assumes "passing_ok s p" and "bc_taken s' = bc_taken s"
    and "\<And>k. l_log (bc_ls s' k) = l_log (bc_ls s k) \<or> l_log (bc_ls s' k) = []"
  shows "passing_ok s' p"
  using assms unfolding passing_ok_def by (metis list_emb_Nil)

lemma logs_frame:
  assumes "logs_ok s" and "bc_taken s' = bc_taken s"
    and "\<And>k. l_log (bc_ls s' k) = l_log (bc_ls s k) \<or> l_log (bc_ls s' k) = []"
    and "bc_accepted s' = bc_taken s' @ bc_c s'"
  shows "logs_ok s'"
  using assms unfolding logs_ok_def by (metis list_emb_Nil)

lemma step_new_passing:
  assumes "bc_step z i s s'" and "\<not> is_worker (bc_pc s i)"
  shows "passing (bc_pc s' j) = None \<or> j \<noteq> i \<and> bc_pc s' j = bc_pc s j"
  using assms passing_worker [of "bc_pc s i"]
  by (elim bc_elims) (auto simp: l_stop_return_def split: stop_caller.splits)

definition inv_logs :: "'a Broadcaster \<Rightarrow> bool" where
  "inv_logs s \<longleftrightarrow>
     (\<forall>i. not_yet (bc_pc s i)) \<and> (bc_starts s \<le> 1 \<longrightarrow> logs_ok s \<and> (\<forall>i. passing_ok s (bc_pc s i)))"

lemma phase_closed: "phase s p \<Longrightarrow> bc_closed s \<Longrightarrow> bc_listeners s = {} \<and> bc_wg s = 0"
  by (cases "(s, p)" rule: phase.cases)
     (auto simp: phase_defs split: start_pc.splits stop_pc.splits stop_caller.splits)

lemma worker_step_other: "worker_step z i s s' \<Longrightarrow> j \<noteq> i \<Longrightarrow> bc_pc s' j = bc_pc s j"
  by (elim worker_step.cases l_write_step.cases) auto

lemma worker_step_is_worker: "worker_step z i s s' \<Longrightarrow> is_worker (bc_pc s i)"
  by (elim worker_step.cases l_write_step.cases) auto

lemma bc_step_worker:
  assumes "bc_step z i s s'" and "is_worker (bc_pc s i)"
  shows "worker_step z i s s' \<or> env_step s s'"
  using assms
  by (cases rule: bc_step.cases)
     (auto elim: start_step.cases stop_step.cases l_stop_step.cases sub_step.cases write_step.cases)

lemma logs_passing_step:
  assumes step: "bc_step z i s s'" and once: "inv_once s" and one: "bc_starts s \<le> 1"
    and logs: "logs_ok s" and pass: "\<And>j. passing_ok s (bc_pc s j)" and ny: "not_yet (bc_pc s i)"
  shows "logs_ok s' \<and> passing_ok s' (bc_pc s' j)"
proof (cases "is_worker (bc_pc s i)")
  case True
  have wk: "worker_ok s j" for j using once one by (simp add: inv_once_def)
  have ph: "phase s (cs s)" using once one by (simp add: inv_once_def)
  have "\<not> bc_closed s"
    using phase_closed [OF ph] wk [of i] True by (auto simp: worker_ok_def)
  from bc_step_worker [OF step True] show ?thesis
  proof
    assume w: "worker_step z i s s'"
    note wi = logs_worker [OF w logs pass ny \<open>\<not> bc_closed s\<close>]
    have "passing (bc_pc s' j) = None" if "j \<noteq> i"
    proof -
      have "\<not> is_worker (bc_pc s j)" using wk [of i] wk [of j] True that by (auto simp: worker_ok_def)
      with worker_step_other [OF w that] passing_worker show ?thesis by metis
    qed
    with wi show ?thesis by (cases "j = i") (simp_all add: passing_ok_None)
  next
    assume e: "env_step s s'"
    show ?thesis
      using logs_frame [OF logs, of s'] passing_frame [OF pass, of s'] logs_env [OF e] logs
      by (simp add: logs_ok_def)
  qed
next
  case False
  note same = logs_other [OF step False]
  have "logs_ok s'"
    using logs_frame [OF logs, of s'] same logs by (simp add: logs_ok_def)
  moreover have "passing_ok s' (bc_pc s' j)"
    using step_new_passing [OF step False, of j] passing_frame [OF pass [of j], of s'] same
    by (auto simp: passing_ok_None)
  ultimately show ?thesis ..
qed

lemma inv_logs_step:
  assumes step: "bc_step z i s s'" and "inv_once s" and inv: "inv_logs s"
  shows "inv_logs s'"
  unfolding inv_logs_def
proof (intro conjI allI impI)
  show "not_yet (bc_pc s' j)" for j
    using not_yet_step [OF step] inv by (simp add: inv_logs_def)
next
  assume one: "bc_starts s' \<le> 1"
  have "bc_starts s \<le> 1" using starts_mono [OF step] one by simp
  with inv logs_passing_step [OF step assms(2)]
  have "logs_ok s' \<and> passing_ok s' (bc_pc s' j)" for j
    by (simp add: inv_logs_def)
  then show "logs_ok s'" and "passing_ok s' (bc_pc s' j)" for j by blast+
qed

lemma bc_reach_logs: "bc_reach z s \<Longrightarrow> inv_logs s"
proof (induction rule: bc_reach.induct)
  case (bc_new clients)
  then show ?case
    by (simp add: inv_logs_def logs_ok_def passing_ok_def bc_New_def startListener_def)
qed (blast intro: inv_logs_step bc_reach_once)

subsection \<open>Runs\<close>

text \<open>Whole calls as runs, from a state in which no goroutine holds the barrier.\<close>

abbreviation sb_free :: "bool \<Rightarrow> statusBarrier" where
  "sb_free st \<equiv> \<lparr>sb_writer = None, sb_readers = {}, sb_started = st\<rparr>"

abbreviation sb_held :: "nat \<Rightarrow> bool \<Rightarrow> statusBarrier" where
  "sb_held i st \<equiv> \<lparr>sb_writer = Some i, sb_readers = {}, sb_started = st\<rparr>"

lemma at_at [simp]: "at i p (at i q s) = at i p s"
  unfolding at_def by (cases s) (simp add: fun_upd_upd)

lemma at_norm [simp]:
  "(at i p s)\<lparr>bc_barrier := b\<rparr> = at i p (s\<lparr>bc_barrier := b\<rparr>)"
  "(at i p s)\<lparr>bc_wg := n\<rparr> = at i p (s\<lparr>bc_wg := n\<rparr>)"
  "(at i p s)\<lparr>bc_starts := n\<rparr> = at i p (s\<lparr>bc_starts := n\<rparr>)"
  "(at i p s)\<lparr>bc_worker := w\<rparr> = at i p (s\<lparr>bc_worker := w\<rparr>)"
  "(at i p s)\<lparr>bc_cancelled := c\<rparr> = at i p (s\<lparr>bc_cancelled := c\<rparr>)"
  "(at i p s)\<lparr>bc_closed := c\<rparr> = at i p (s\<lparr>bc_closed := c\<rparr>)"
  unfolding at_def by (cases s; simp)+

lemma bc_to: "bc_reach z s \<Longrightarrow> bc_step z i s s1 \<Longrightarrow> s1 = s2 \<Longrightarrow> bc_reach z s2"
  by (simp add: bc_more)

lemma run_start:
  assumes r: "bc_reach z s" and "bc_pc s i = Client" and "bc_barrier s = sb_free False" and "bc_pc s j = Unborn"
  shows "bc_reach z (at i Client (at j (In_Worker W_select)
    (s\<lparr>bc_wg := Suc (bc_wg s), bc_starts := Suc (bc_starts s), bc_worker := Some j,
       bc_barrier := sb_free True\<rparr>)))"
proof -
  have ij: "i \<noteq> j" using assms by auto
  let ?h = "s\<lparr>bc_barrier := sb_held i False\<rparr>"
  let ?a = "?h\<lparr>bc_wg := Suc (bc_wg s), bc_starts := Suc (bc_starts s)\<rparr>"
  let ?w = "at j (In_Worker W_select) (?a\<lparr>bc_worker := Some j\<rparr>)"
  have 1: "bc_reach z (at i (In_Start Start_lock) s)"
    by (rule bc_to [OF r by_start [OF start_call]]) (simp_all add: assms)
  have 2: "bc_reach z (at i (In_Start Start_check) ?h)"
    by (rule bc_to [OF 1 by_start [OF start_lock [of _ i "sb_held i False"]]])
       (simp_all add: assms EnteringStatusArea_def)
  have 3: "bc_reach z (at i (In_Start Start_add) ?h)"
    by (rule bc_to [OF 2 by_start [OF start_check [of _ i]]]) (simp_all add: IsStopped_def)
  have 4: "bc_reach z (at i (In_Start Start_go) ?a)"
    by (rule bc_to [OF 3 by_start [OF start_add [of _ i]]]) simp_all
  have 5: "bc_reach z (at i (In_Start Start_mark) ?w)"
    by (rule bc_to [OF 4 by_start [OF start_go [of _ i j]]])
       (use assms ij in \<open>simp_all add: at_def fun_upd_twist\<close>)
  have 6: "bc_reach z (at i (In_Start Start_unlock) (?w\<lparr>bc_barrier := sb_held i True\<rparr>))"
    by (rule bc_to [OF 5 by_start [OF start_mark [of _ i]]]) (simp_all add: MarkStarted_def)
  have 7: "bc_reach z (at i (Returned RetVoid) (?w\<lparr>bc_barrier := sb_free True\<rparr>))"
    by (rule bc_to [OF 6 by_start [OF start_unlock [of _ i]]]) (simp_all add: OutOfStatusArea_def)
  have "bc_reach z (at i Client (?w\<lparr>bc_barrier := sb_free True\<rparr>))"
    by (rule bc_to [OF 7 by_sub [OF return [of _ i]]]) simp_all
  then show ?thesis by simp
qed

text \<open>\<open>Stop\<close> of a broadcaster without listeners whose only worker \<open>j\<close> waits for a value.\<close>

lemma run_stop:
  assumes r: "bc_reach z s" and "bc_pc s i = Client" and "bc_barrier s = sb_free True"
    and "bc_pc s j = In_Worker W_select" and "bc_wg s = 1" and "bc_listeners s = {}" and "\<not> bc_closed s"
  shows "bc_reach z (at i Client (at j Exited
    (s\<lparr>bc_cancelled := True, bc_wg := 0, bc_closed := True, bc_barrier := sb_free False\<rparr>)))"
proof -
  have ij: "i \<noteq> j" using assms by auto
  let ?h = "s\<lparr>bc_barrier := sb_held i True\<rparr>"
  let ?c = "?h\<lparr>bc_cancelled := True\<rparr>"
  let ?e = "at j Exited (?c\<lparr>bc_wg := 0\<rparr>)"
  have 1: "bc_reach z (at i (In_Stop Stop_lock) s)"
    by (rule bc_to [OF r by_stop [OF stop_call]]) (simp_all add: assms)
  have 2: "bc_reach z (at i (In_Stop Stop_check) ?h)"
    by (rule bc_to [OF 1 by_stop [OF stop_lock [of _ i "sb_held i True"]]])
       (simp_all add: assms EnteringStatusArea_def)
  have 3: "bc_reach z (at i (In_Stop Stop_cancel) ?h)"
    by (rule bc_to [OF 2 by_stop [OF stop_check [of _ i]]]) (simp_all add: IsStopped_def)
  have 4: "bc_reach z (at i (In_Stop Stop_wait) ?c)"
    by (rule bc_to [OF 3 by_stop [OF stop_cancel [of _ i]]]) simp_all
  have 5: "bc_reach z (at i (In_Stop Stop_wait) (at j (In_Worker W_done) ?c))"
    by (rule bc_to [OF 4 by_worker [OF w_cancelled [of _ j]]])
       (use assms ij in \<open>simp_all add: at_def fun_upd_twist\<close>)
  have 6: "bc_reach z (at i (In_Stop Stop_wait) ?e)"
    by (rule bc_to [OF 5 by_worker [OF w_done [of _ j]]])
       (use assms ij in \<open>simp_all add: at_def fun_upd_twist\<close>)
  have 7: "bc_reach z (at i (In_Stop (Stop_range {})) ?e)"
    by (rule bc_to [OF 6 by_stop [OF stop_wait [of _ i]]]) simp_all
  have 8: "bc_reach z (at i (In_Stop Stop_close) ?e)"
    by (rule bc_to [OF 7 by_stop [OF stop_range_end [of _ i "{}"]]]) (simp_all add: assms)
  have 9: "bc_reach z (at i (In_Stop Stop_mark) (?e\<lparr>bc_closed := True\<rparr>))"
    by (rule bc_to [OF 8 by_stop [OF stop_close [of _ i]]]) (simp_all add: assms)
  have 10: "bc_reach z (at i (In_Stop (Stop_unlock None)) (?e\<lparr>bc_closed := True, bc_barrier := sb_held i False\<rparr>))"
    by (rule bc_to [OF 9 by_stop [OF stop_mark [of _ i]]]) (simp_all add: MarkStopped_def)
  have 11: "bc_reach z (at i (Returned (RetErr None)) (?e\<lparr>bc_closed := True, bc_barrier := sb_free False\<rparr>))"
    by (rule bc_to [OF 10 by_stop [OF stop_unlock [of _ i None]]]) (simp_all add: OutOfStatusArea_def)
  have "bc_reach z (at i Client (?e\<lparr>bc_closed := True, bc_barrier := sb_free False\<rparr>))"
    by (rule bc_to [OF 11 by_sub [OF return [of _ i]]]) simp_all
  then show ?thesis by simp
qed

lemma run_write_sync_closed:
  assumes r: "bc_reach z s" and "bc_pc s i = Client" and "bc_barrier s = sb_free True" and "bc_closed s"
  shows "\<exists>s'. bc_reach z s' \<and> bc_panic s' \<and> bc_starts s' = bc_starts s"
proof -
  let ?b = "\<lparr>sb_writer = None, sb_readers = {i}, sb_started = True\<rparr>"
  let ?h = "s\<lparr>bc_barrier := ?b\<rparr>"
  have 1: "bc_reach z (at i (In_Write (WriteSync_enter z)) s)"
    by (rule bc_to [OF r by_write [OF write_sync_call]]) (simp_all add: assms)
  have 2: "bc_reach z (at i (In_Write (WriteSync_check z)) ?h)"
    by (rule bc_to [OF 1 by_write [OF write_sync_enter [of _ i _ ?b]]]) (simp_all add: assms Entering_def)
  have 3: "bc_reach z (at i (In_Write (WriteSync_send z)) ?h)"
    by (rule bc_to [OF 2 by_write [OF write_sync_check [of _ i]]]) (simp_all add: IsStopped_def)
  have "bc_reach z (at i Panicked (?h\<lparr>bc_panic := True, bc_barrier := Out i ?b\<rparr>))"
    by (rule bc_to [OF 3 by_write [OF write_sync_closed [of _ i]]]) (simp_all add: assms at_def)
  then show ?thesis by (intro exI conjI) (assumption, simp_all)
qed

lemma run_write_sync:
  assumes r: "bc_reach z s" and "bc_pc s i = Client" and "bc_barrier s = sb_free True" and "\<not> bc_closed s"
    and "bc_c s = []"
  shows "\<exists>s'. bc_reach z s' \<and> bc_accepted s' = bc_accepted s @ [t] \<and> bc_starts s' = bc_starts s"
proof -
  let ?b = "\<lparr>sb_writer = None, sb_readers = {i}, sb_started = True\<rparr>"
  let ?h = "s\<lparr>bc_barrier := ?b\<rparr>"
  have 1: "bc_reach z (at i (In_Write (WriteSync_enter t)) s)"
    by (rule bc_to [OF r by_write [OF write_sync_call]]) (simp_all add: assms)
  have 2: "bc_reach z (at i (In_Write (WriteSync_check t)) ?h)"
    by (rule bc_to [OF 1 by_write [OF write_sync_enter [of _ i _ ?b]]]) (simp_all add: assms Entering_def)
  have 3: "bc_reach z (at i (In_Write (WriteSync_send t)) ?h)"
    by (rule bc_to [OF 2 by_write [OF write_sync_check [of _ i]]]) (simp_all add: IsStopped_def)
  have "bc_reach z (at i (Leave (RetErr None)) (?h\<lparr>bc_c := [t], bc_accepted := bc_accepted s @ [t]\<rparr>))"
    by (rule bc_to [OF 3 by_write [OF write_sync_put [of _ i]]]) (simp_all add: assms at_def)
  then show ?thesis by (intro exI conjI) (assumption, simp_all)
qed

subsection \<open>Properties\<close>

text \<open>A broadcaster on which goroutine 0 has called \<open>Start\<close>, and then \<open>Stop\<close>; goroutine 1 was the worker.\<close>

definition bc_up :: "nat Broadcaster" where
  "bc_up = at 0 Client (at 1 (In_Worker W_select)
     ((bc_New {0})\<lparr>bc_wg := 1, bc_starts := 1, bc_worker := Some 1, bc_barrier := sb_free True\<rparr>))"

definition bc_down :: "nat Broadcaster" where
  "bc_down = at 0 Client (at 1 Exited
     (bc_up\<lparr>bc_cancelled := True, bc_wg := 0, bc_closed := True, bc_barrier := sb_free False\<rparr>))"

lemma bc_up_reach: "bc_reach z bc_up"
  using run_start [OF bc_new [of z "{0}"], of 0 1]
  by (simp add: bc_up_def bc_New_def newStatusBarrier_def)

lemma bc_up_sel [simp]:
  "bc_pc bc_up 0 = Client" "bc_pc bc_up (Suc 0) = In_Worker W_select" "bc_pc bc_up 2 = Unborn"
  "bc_barrier bc_up = sb_free True" "bc_wg bc_up = 1" "bc_listeners bc_up = {}" "\<not> bc_closed bc_up"
  "bc_starts bc_up = 1" "bc_next bc_up = 0"
  by (simp_all add: bc_up_def bc_New_def)

lemma bc_down_reach: "bc_reach z bc_down"
  unfolding bc_down_def by (rule run_stop [OF bc_up_reach]) simp_all

lemma bc_down_sel [simp]:
  "bc_pc bc_down 0 = Client" "bc_pc bc_down 2 = Unborn" "bc_barrier bc_down = sb_free False"
  "bc_closed bc_down" "bc_starts bc_down = 1"
  by (simp_all add: bc_down_def)

text \<open>C5. The status barrier: whatever the goroutines do, while one is inside \<open>Start\<close> or \<open>Stop\<close> (past the
  lock) no other is inside any method of the broadcaster, and a listener being stopped is not being
  written to.\<close>

theorem barrier_exclusion:
  assumes "bc_reach z s"
  shows "(holds_w (bc_pc s i) \<and> (holds_w (bc_pc s j) \<or> holds_r (bc_pc s j)) \<longrightarrow> i = j) \<and>
         (holds_lw k (bc_pc s i) \<and> (holds_lw k (bc_pc s j) \<or> holds_lr k (bc_pc s j)) \<longrightarrow> i = j)"
  using bc_reach_locks [OF assms] holds_w_unique holds_w_no_reader holds_lw_unique holds_lw_no_reader
  by blast

theorem barrier_exclusion_witness:
  "\<not> holds_w (bc_pc (at 0 (In_Stop Stop_lock) bc_up) 1)"
proof -
  have "bc_reach 0 (at 0 (In_Stop Stop_lock) bc_up)"
    by (rule bc_to [OF bc_up_reach by_stop [OF stop_call [of _ 0]]]) simp_all
  from bc_to [OF this by_stop [OF stop_lock [of _ 0 "sb_held 0 True"]] refl]
  have "bc_reach 0 (at 0 (In_Stop Stop_check) ((at 0 (In_Stop Stop_lock) bc_up)\<lparr>bc_barrier := sb_held 0 True\<rparr>))"
    by (simp add: EnteringStatusArea_def)
  from barrier_exclusion [OF this, of 0 1] show ?thesis by simp
qed

text \<open>C1. Nothing panics: as long as the broadcaster was started at most once, no interleaving of \<open>Start\<close>,
  \<open>Stop\<close>, \<open>Subscribe\<close>, \<open>Unsubscribe\<close>, \<open>IsSubscribed\<close>, \<open>Write\<close>, \<open>WriteSync\<close>, the goroutines \<open>Write\<close>
  leaves behind and the worker sends on a closed channel or closes a channel twice.\<close>

theorem bc_no_panic:
  assumes "bc_reach z s" and "bc_starts s \<le> 1"
  shows "\<not> bc_panic s"
  using assms by (rule bc_reach_no_panic)

theorem bc_no_panic_witness: "\<not> bc_panic bc_down"
  by (rule bc_no_panic [OF bc_down_reach [of 0]]) simp

text \<open>C2. A completed \<open>Stop\<close> leaves nothing behind: once the channel is closed, there is no worker any more,
  no listener is subscribed, and every listener ever handed out has its channel closed, so its reader
  sees the end.\<close>

theorem bc_stopped_complete:
  assumes "bc_reach z s" and "bc_starts s \<le> 1" and "bc_closed s"
  shows "bc_listeners s = {} \<and> bc_wg s = 0 \<and> (\<forall>i. \<not> is_worker (bc_pc s i)) \<and>
         (\<forall>k < bc_next s. l_is_closed s k)"
proof -
  have inv: "inv_know s" and locks: "inv_locks s"
    using bc_reach_know [OF assms(1)] by (simp_all add: inv_know_def)
  have ph: "phase s (cs s)" and w: "\<And>i. worker_ok s i"
    using bc_reach_once [OF assms(1)] assms(2) by (simp_all add: inv_once_def)
  note closed = phase_closed [OF ph assms(3)]
  have "\<not> handling k (bc_pc s i)" for k i
  proof
    assume h: "handling k (bc_pc s i)"
    then have "bc_started s" and held: "holds_r (bc_pc s i) \<or> (\<exists>vis p. bc_pc s i = In_L_stop k (By_Stop vis) p)"
      using inv by (cases "(k, bc_pc s i)" rule: handling.cases;
        auto simp: inv_know_def dest!: spec [of _ i] intro: stop_caller.exhaust)+
    show False
      using held
    proof
      assume "holds_r (bc_pc s i)"
      with cs_at(2) [OF locks, of i] ph \<open>bc_started s\<close> assms(3) show False by (auto simp: phase_defs)
    next
      assume "\<exists>vis p. bc_pc s i = In_L_stop k (By_Stop vis) p"
      with cs_at(1) [OF locks, of i] ph assms(3) show False by (auto simp: phase_defs)
    qed
  qed
  then have "l_is_closed s k" if "k < bc_next s" for k
    using bc_reach_accounted [OF assms(1), of k] closed that by (auto simp: accounted_def)
  with closed w show ?thesis by (auto simp: worker_ok_def)
qed

theorem bc_stopped_complete_witness: "bc_listeners bc_down = {} \<and> bc_wg bc_down = 0"
  using bc_stopped_complete [OF bc_down_reach [of 0]] by simp




end
