(* ===== verification/Broadcaster_Live.thy ===== *)
theory Broadcaster_Live
  imports Broadcaster_Props
begin

text \<open>
  The broadcaster never deadlocks: the worker's wait group counts the workers there are, and a goroutine
  that waits for a barrier or for the wait group waits for one that can go on.  Nothing is supposed about
  how often the broadcaster was started.
\<close>

subsection \<open>What the wait group counts\<close>

definition counted :: "'a bc_pc \<Rightarrow> bool" where
  "counted p \<longleftrightarrow> is_worker p \<or> p = In_Start Start_go"

definition wg_ok :: "'a Broadcaster \<Rightarrow> bool" where
  "wg_ok s \<longleftrightarrow> finite {j. counted (bc_pc s j)} \<and> card {j. counted (bc_pc s j)} = bc_wg s"

text \<open>What a step does to the goroutine that takes it.\<close>

definition wg_moves :: "'a Broadcaster \<Rightarrow> 'a Broadcaster \<Rightarrow> nat \<Rightarrow> bool" where
  "wg_moves s s' i \<longleftrightarrow>
     counted (bc_pc s' i) = counted (bc_pc s i) \<and> bc_wg s' = bc_wg s \<or>
     \<not> counted (bc_pc s i) \<and> counted (bc_pc s' i) \<and> bc_wg s' = Suc (bc_wg s) \<or>
     counted (bc_pc s i) \<and> \<not> counted (bc_pc s' i) \<and> bc_wg s' = bc_wg s - 1"

lemma wg_moves_step:
  assumes "bc_step z i s s'" and "bc_pc s i \<noteq> In_Start Start_go"
  shows "wg_moves s s' i"
proof -
  have u: "bc_pc s j = Unborn \<Longrightarrow> bc_pc s i \<noteq> Unborn \<Longrightarrow> j \<noteq> i" for j by auto
  show ?thesis
    using assms u
    by (elim bc_elims)
       (auto simp: wg_moves_def counted_def l_stop_return_def split: stop_caller.splits if_splits)
qed

lemma wg_go_step:
  assumes "bc_step z i s s'" and "bc_pc s i = In_Start Start_go"
  shows "bc_wg s' = bc_wg s \<and>
    (bc_pc s' = bc_pc s \<or>
     (\<exists>j. bc_pc s j = Unborn \<and> j \<noteq> i \<and> bc_pc s' = (bc_pc s)(i := In_Start Start_mark, j := In_Worker W_select)))"
  using assms by (elim bc_elims) auto

lemma wg_ok_step:
  assumes step: "bc_step z i s s'" and ok: "wg_ok s"
  shows "wg_ok s'"
proof (cases "bc_pc s i = In_Start Start_go")
  case True
  show ?thesis
    using wg_go_step [OF step True]
  proof (elim conjE disjE exE)
    fix j
    assume j: "bc_pc s j = Unborn" "j \<noteq> i"
      and pc: "bc_pc s' = (bc_pc s)(i := In_Start Start_mark, j := In_Worker W_select)"
      and wg: "bc_wg s' = bc_wg s"
    let ?A = "{k. counted (bc_pc s k)}"
    have i: "i \<in> ?A" using True by (simp add: counted_def)
    have "{k. counted (bc_pc s' k)} = insert j (?A - {i})"
      using j by (auto simp: pc counted_def)
    moreover have "j \<notin> ?A" using j by (simp add: counted_def)
    moreover have "card ?A \<noteq> 0" using card_0_eq [of ?A] ok i unfolding wg_ok_def by blast
    ultimately show ?thesis
      using ok i by (simp add: wg_ok_def wg card_Diff_singleton)
  qed (use ok in \<open>simp_all add: wg_ok_def\<close>)
next
  case False
  let ?A = "{k. counted (bc_pc s k)}"
  have same: "counted (bc_pc s' j) = counted (bc_pc s j)" if "j \<noteq> i" for j
    using step_other [OF step that] False by (auto simp: counted_def)
  have A: "{k. counted (bc_pc s' k)} =
      (if counted (bc_pc s' i) then insert i ?A else ?A - {i})"
  proof (intro set_eqI)
    fix x
    show "x \<in> {k. counted (bc_pc s' k)} \<longleftrightarrow> x \<in> (if counted (bc_pc s' i) then insert i ?A else ?A - {i})"
      by (cases "x = i") (simp_all add: same)
  qed
  have f: "finite ?A" and c: "card ?A = bc_wg s" using ok by (simp_all add: wg_ok_def)
  have iA: "i \<in> ?A \<longleftrightarrow> counted (bc_pc s i)" by simp
  from wg_moves_step [OF step False] show ?thesis
    unfolding wg_moves_def
  proof (elim disjE conjE)
    assume m: "counted (bc_pc s' i) = counted (bc_pc s i)" "bc_wg s' = bc_wg s"
    have "{k. counted (bc_pc s' k)} = ?A" unfolding A using m(1) by auto
    then show ?thesis using f c m(2) by (simp add: wg_ok_def)
  next
    assume m: "\<not> counted (bc_pc s i)" "counted (bc_pc s' i)" "bc_wg s' = Suc (bc_wg s)"
    then have "card (insert i ?A) = Suc (card ?A)" using f by (simp add: card_insert_if)
    then show ?thesis using A f c m by (simp add: wg_ok_def)
  next
    assume m: "counted (bc_pc s i)" "\<not> counted (bc_pc s' i)" "bc_wg s' = bc_wg s - 1"
    then have "card (?A - {i}) = card ?A - 1" using f by (simp add: card_Diff_singleton)
    then show ?thesis using A f c m by (simp add: wg_ok_def)
  qed
qed

lemma wg_ok_reach: "bc_reach z s \<Longrightarrow> wg_ok s"
proof (induction rule: bc_reach.induct)
  case (bc_new clients)
  then show ?case by (auto simp: wg_ok_def bc_New_def counted_def)
qed (rule wg_ok_step)

lemma wait_cancelled:
  assumes "bc_reach z s" and "bc_pc s i = In_Stop Stop_wait"
  shows "bc_cancelled s"
  using assms
proof (induction arbitrary: i rule: bc_reach.induct)
  case (bc_new clients)
  then show ?case by (auto simp: bc_New_def split: if_splits)
next
  case (bc_more s k s')
  have "bc_cancelled s \<Longrightarrow> bc_cancelled s'" using bc_more.hyps(2) by (elim bc_elims) auto
  moreover have "bc_cancelled s'" if "bc_pc s' k = In_Stop Stop_wait" "bc_pc s k \<noteq> In_Stop Stop_wait"
    using that bc_more.hyps(2)
    by (elim bc_elims) (auto simp: l_stop_return_def split: stop_caller.splits if_splits)
  ultimately show ?case
    using bc_more step_other [OF bc_more.hyps(2), of i] by (cases "i = k") fastforce+
qed

subsection \<open>Who can go on\<close>

text \<open>While the worker ranges, every key that was there when it began is one it may visit.\<close>

fun range_of :: "'a bc_pc \<Rightarrow> 'a ranging option" where
  "range_of (In_Worker (W_range r)) = Some r"
| "range_of (In_Worker (W_visit k r)) = Some r"
| "range_of (In_L_write k r p) = Some r"
| "range_of _ = None"

lemma range_own:
  assumes "bc_step z i s s'" and "\<forall>r. range_of (bc_pc s i) = Some r \<longrightarrow> rg_snap r \<subseteq> rg_cand r"
    and "range_of (bc_pc s' i) = Some r"
  shows "rg_snap r \<subseteq> rg_cand r"
proof -
  have u: "bc_pc s j = Unborn \<Longrightarrow> bc_pc s i \<noteq> Unborn \<Longrightarrow> j \<noteq> i" for j by auto
  show ?thesis
    using assms u
    by (elim bc_elims) (auto simp: l_stop_return_def split: stop_caller.splits if_splits)
qed

lemma range_cand:
  "bc_reach z s \<Longrightarrow> \<forall>i r. range_of (bc_pc s i) = Some r \<longrightarrow> rg_snap r \<subseteq> rg_cand r"
proof (induction rule: bc_reach.induct)
  case (bc_new clients)
  then show ?case by (simp add: bc_New_def)
next
  case (bc_more s k s')
  show ?case
  proof (intro allI impI)
    fix i r assume r: "range_of (bc_pc s' i) = Some r"
    show "rg_snap r \<subseteq> rg_cand r"
    proof (cases "i = k")
      case True
      then show ?thesis using range_own [OF bc_more.hyps(2)] bc_more.IH r by blast
    next
      case False
      then have "bc_pc s' i = bc_pc s i" using step_other [OF bc_more.hyps(2), of i] r by auto
      then show ?thesis using bc_more.IH r by metis
    qed
  qed
qed

fun in_range :: "'a bc_pc \<Rightarrow> bool" where
  "in_range (In_Worker (W_range r)) = True"
| "in_range _ = False"

text \<open>
  A step of the program that is not a new call; that the worker merely notices a key (\<open>w_notice\<close>) does not
  count.
\<close>

inductive own_step :: "'a \<Rightarrow> nat \<Rightarrow> 'a Broadcaster \<Rightarrow> 'a Broadcaster \<Rightarrow> bool" for z i where
  own_start: "bc_pc s i \<noteq> Client \<Longrightarrow> start_step i s s' \<Longrightarrow> own_step z i s s'"
| own_stop: "bc_pc s i \<noteq> Client \<Longrightarrow> stop_step i s s' \<Longrightarrow> own_step z i s s'"
| own_l_stop: "l_stop_step i s s' \<Longrightarrow> own_step z i s s'"
| own_sub: "bc_pc s i \<noteq> Client \<Longrightarrow> sub_step i s s' \<Longrightarrow> own_step z i s s'"
| own_write: "bc_pc s i \<noteq> Client \<Longrightarrow> write_step i s s' \<Longrightarrow> own_step z i s s'"
| own_worker: "worker_step z i s s' \<Longrightarrow> \<not> in_range (bc_pc s i) \<or> \<not> in_range (bc_pc s' i) \<Longrightarrow> own_step z i s s'"

definition can :: "'a \<Rightarrow> 'a Broadcaster \<Rightarrow> nat \<Rightarrow> bool" where
  "can z s i \<longleftrightarrow> (\<exists>s'. own_step z i s s')"

lemma can_intros:
  "bc_pc s i \<noteq> Client \<Longrightarrow> start_step i s s' \<Longrightarrow> can z s i"
  "bc_pc s i \<noteq> Client \<Longrightarrow> stop_step i s s' \<Longrightarrow> can z s i"
  "l_stop_step i s s' \<Longrightarrow> can z s i"
  "bc_pc s i \<noteq> Client \<Longrightarrow> sub_step i s s' \<Longrightarrow> can z s i"
  "bc_pc s i \<noteq> Client \<Longrightarrow> write_step i s s' \<Longrightarrow> can z s i"
  "worker_step z i s s' \<Longrightarrow> \<not> in_range (bc_pc s i) \<Longrightarrow> can z s i"
  "worker_step z i s s' \<Longrightarrow> \<not> in_range (bc_pc s' i) \<Longrightarrow> can z s i"
  unfolding can_def by (blast intro: own_step.intros)+

text \<open>The places at which a goroutine may have to wait: for the barrier, for a listener's, for the wait group.\<close>

fun at_barrier :: "'a bc_pc \<Rightarrow> bool" where
  "at_barrier (In_Start Start_lock) = True"
| "at_barrier (In_Stop Stop_lock) = True"
| "at_barrier (In_Sub p) = (\<not> sub_inside p)"
| "at_barrier (In_Write p) = (\<not> write_inside p)"
| "at_barrier _ = False"

fun at_listener :: "'a bc_pc \<Rightarrow> nat option" where
  "at_listener (In_L_stop k c L_lock) = Some k"
| "at_listener (In_L_write k r LW_enter) = Some k"
| "at_listener _ = None"

fun resting :: "'a bc_pc \<Rightarrow> bool" where
  "resting Unborn = True" | "resting Exited = True" | "resting Panicked = True" | "resting Client = True"
| "resting (In_Worker W_select) = True"
| "resting _ = False"

lemma can_start:
  assumes "bc_pc s i = In_Start p" and "p \<noteq> Start_lock" and "bc_pc s j = Unborn"
  shows "can z s i"
  using assms
  by (cases p)
     (auto intro: can_intros(1) [OF _ start_check] can_intros(1) [OF _ start_add] can_intros(1) [OF _ start_go]
       can_intros(1) [OF _ start_mark] can_intros(1) [OF _ start_unlock])

lemma can_stop:
  assumes "bc_pc s i = In_Stop p" and "p \<noteq> Stop_lock" and "p = Stop_wait \<Longrightarrow> bc_wg s = 0"
  shows "can z s i"
proof (cases p)
  case (Stop_range vis)
  then have pc: "bc_pc s i = In_Stop (Stop_range vis)" using assms(1) by simp
  show ?thesis
  proof (cases "bc_listeners s \<subseteq> vis")
    case True
    then show ?thesis using can_intros(2) [OF _ stop_range_end [OF pc]] pc by simp
  next
    case False
    then obtain k where "k \<in> bc_listeners s - vis" by blast
    then show ?thesis using can_intros(2) [OF _ stop_visit [OF pc]] pc by simp
  qed
next
  case Stop_close
  then show ?thesis
    using assms(1) by (cases "bc_closed s")
      (auto intro: can_intros(2) [OF _ stop_close] can_intros(2) [OF _ stop_close_panic])
qed (use assms in \<open>auto intro: can_intros(2) [OF _ stop_check] can_intros(2) [OF _ stop_cancel]
    can_intros(2) [OF _ stop_wait] can_intros(2) [OF _ stop_delete] can_intros(2) [OF _ stop_mark]
    can_intros(2) [OF _ stop_unlock]\<close>)

lemma can_l_stop:
  assumes "bc_pc s i = In_L_stop k c p" and "p \<noteq> L_lock"
  shows "can z s i"
  using assms
  by (cases p; cases "l_closed (bc_ls s k)")
     (auto intro: can_intros(3) [OF l_check] can_intros(3) [OF l_close] can_intros(3) [OF l_close_panic]
       can_intros(3) [OF l_mark] can_intros(3) [OF l_unlock])

lemma can_l_write:
  assumes "bc_pc s i = In_L_write k r p" and "p \<noteq> LW_enter"
  shows "can z s i"
  using assms
  by (cases r; cases p)
     (auto intro: can_intros(6) [OF w_in_write [OF lw_check]] can_intros(6) [OF w_in_write [OF lw_timeout]]
       can_intros(6) [OF w_in_write [OF lw_out]])

lemma can_sub:
  assumes "bc_pc s i = In_Sub p" and "sub_inside p"
  shows "can z s i"
proof (cases p)
  case (Unsub_load k)
  then show ?thesis
    using assms(1) by (cases "k \<in> bc_listeners s")
      (auto intro: can_intros(4) [OF _ unsub_load] can_intros(4) [OF _ unsub_absent])
qed (use assms in \<open>auto intro: can_intros(4) [OF _ sub_check] can_intros(4) [OF _ sub_new]
    can_intros(4) [OF _ sub_store] can_intros(4) [OF _ unsub_check] can_intros(4) [OF _ is_sub_check]
    can_intros(4) [OF _ is_sub_load] can_intros(4) [OF _ is_stopped_read]\<close>)

lemma can_leave: "bc_pc s i = Leave r \<Longrightarrow> can z s i" "bc_pc s i = Returned r \<Longrightarrow> can z s i"
  by (auto intro: can_intros(4) [OF _ leave] can_intros(4) [OF _ return])

lemma can_write:
  assumes "inv_locks s" and "bc_pc s i = In_Write p" and "write_inside p" and "bc_pc s j = Unborn"
  shows "can z s i"
proof (cases p)
  case (Write_go t)
  have "i \<in> sb_readers (bc_barrier s)"
    using inv_locks_ok(1) [OF assms(1)] assms(2,3) by (simp add: sb_ok_def)
  then have "sb_writer (bc_barrier s) = None"
    using inv_locks_ok(1) [OF assms(1)] unfolding sb_ok_def by blast
  then obtain b where b: "Entering j (Out i (bc_barrier s)) = Some b" by (simp add: Entering_def Out_def)
  show ?thesis
    by (rule can_intros(5) [OF _ write_go [OF _ assms(4) b]]) (use assms(2) Write_go in simp_all)
qed (use assms in \<open>auto intro: can_intros(5) [OF _ write_check] can_intros(5) [OF _ send_timeout]
    can_intros(5) [OF _ send_out] can_intros(5) [OF _ write_sync_check] can_intros(5) [OF _ write_sync_timeout]\<close>)

lemma can_worker:
  assumes "bc_reach z s" and "bc_pc s i = In_Worker p" and "p = W_select \<Longrightarrow> bc_cancelled s"
  shows "can z s i"
proof (cases p)
  case (W_range r)
  obtain d snap cand vis where r: "r = Ranging d snap cand vis" by (cases r)
  then have pc: "bc_pc s i = In_Worker (W_range (Ranging d snap cand vis))" using assms(2) W_range by simp
  have "range_of (bc_pc s i) = Some (Ranging d snap cand vis)" by (simp add: pc)
  then have sub: "snap \<subseteq> cand" using range_cand [OF assms(1)] by fastforce
  show ?thesis
  proof (cases "snap \<inter> bc_listeners s \<subseteq> vis")
    case True
    then show ?thesis by (intro can_intros(7) [OF w_range_end [OF pc]]) simp_all
  next
    case False
    then obtain k where "k \<in> cand - vis" using sub by blast
    then show ?thesis by (intro can_intros(7) [OF w_visit [OF pc]]) simp_all
  qed
next
  case (W_visit k r)
  obtain d snap cand vis where r: "r = Ranging d snap cand vis" by (cases r)
  then have pc: "bc_pc s i = In_Worker (W_visit k (Ranging d snap cand vis))" using assms(2) W_visit by simp
  show ?thesis
    by (cases "bc_cancelled s")
       (auto simp: pc intro: can_intros(6) [OF w_stop_range [OF pc]] can_intros(6) [OF w_write [OF pc]])
qed (use assms in \<open>auto intro: can_intros(6) [OF w_cancelled] can_intros(6) [OF worker_step.w_done]\<close>)

subsection \<open>No deadlock\<close>

text \<open>A barrier that keeps a goroutine out has a holder.\<close>

lemma barrier_holder:
  assumes "sb_ok W R b pc" and "\<not> (sb_writer b = None \<and> sb_readers b = {})"
  shows "\<exists>h. W (pc h) \<or> R (pc h)"
proof (cases "sb_writer b")
  case None
  then obtain h where "h \<in> sb_readers b" using assms(2) by blast
  then show ?thesis using assms(1) by (auto simp: sb_ok_def)
next
  case (Some h)
  then show ?thesis using assms(1) by (auto simp: sb_ok_def)
qed

lemma listener_can:
  assumes "bc_pc s i = In_L_stop k c p \<or> bc_pc s i = In_L_write k r p'" and "inv_locks s"
  shows "\<exists>h. can z s h"
proof (cases "sb_writer (l_barrier (bc_ls s k)) = None \<and> sb_readers (l_barrier (bc_ls s k)) = {}")
  case True
  then obtain b b' where e: "EnteringStatusArea i (l_barrier (bc_ls s k)) = Some b"
      "Entering i (l_barrier (bc_ls s k)) = Some b'"
    by (simp add: EnteringStatusArea_def Entering_def)
  have "can z s i"
    using assms(1)
  proof
    assume pc: "bc_pc s i = In_L_stop k c p"
    then show ?thesis
      by (cases "p = L_lock") (auto intro: can_l_stop can_intros(3) [OF l_lock [OF _ e(1)]])
  next
    assume pc: "bc_pc s i = In_L_write k r p'"
    then show ?thesis
      by (cases r; cases "p' = LW_enter")
         (auto intro: can_l_write can_intros(6) [OF w_in_write [OF lw_enter [OF _ e(2)]]])
  qed
  then show ?thesis ..
next
  case False
  from barrier_holder [OF inv_locks_ok(2) [OF assms(2)] this]
  obtain h where "holds_lw k (bc_pc s h) \<or> holds_lr k (bc_pc s h)" ..
  then have "can z s h"
    by (auto elim!: holds_lw.elims holds_lr.elims intro: can_l_stop can_l_write)
  then show ?thesis ..
qed

lemma wait_can:
  assumes r: "bc_reach z s" and pc: "bc_pc s i = In_Stop Stop_wait" and u: "bc_pc s j = Unborn"
  shows "\<exists>h. can z s h"
proof (cases "bc_wg s = 0")
  case True
  then have "can z s i" by (intro can_stop [OF pc]) simp_all
  then show ?thesis ..
next
  case False
  then have "card {k. counted (bc_pc s k)} \<noteq> 0" using wg_ok_reach [OF r] by (simp add: wg_ok_def)
  then have "{k. counted (bc_pc s k)} \<noteq> {}" by (metis card.empty)
  then obtain k where "counted (bc_pc s k)" by blast
  then consider p where "bc_pc s k = In_Worker p" | l q p where "bc_pc s k = In_L_write l q p"
    | "bc_pc s k = In_Start Start_go"
    by (auto simp: counted_def elim: is_worker.elims)
  then show ?thesis
  proof cases
    case 1
    then have "can z s k" using wait_cancelled [OF r pc] by (rule can_worker [OF r])
    then show ?thesis ..
  next
    case 2
    then show ?thesis by (intro listener_can [OF disjI2 bc_reach_locks [OF r]])
  next
    case 3
    then have "can z s k" by (rule can_start [OF _ _ u]) simp
    then show ?thesis ..
  qed
qed

lemma inside_can:
  assumes r: "bc_reach z s" and u: "bc_pc s j = Unborn" and h: "holds_w (bc_pc s i) \<or> holds_r (bc_pc s i)"
  shows "\<exists>h. can z s h"
proof (cases "bc_pc s i")
  case (In_Stop p)
  then show ?thesis
    using h by (cases "p = Stop_wait") (auto intro: wait_can [OF r _ u] can_stop)
next
  case (In_Start p)
  then show ?thesis using h by (auto intro: can_start [OF _ _ u])
next
  case (In_L_stop k c p)
  then show ?thesis by (intro listener_can [OF disjI1 bc_reach_locks [OF r]])
next
  case (In_L_write k g p)
  then show ?thesis by (intro listener_can [OF disjI2 bc_reach_locks [OF r]])
next
  case (In_Write p)
  then show ?thesis using h by (auto intro: can_write [OF bc_reach_locks [OF r] _ _ u])
qed (use h in \<open>auto intro: can_sub can_leave\<close>)

lemma barrier_can:
  assumes r: "bc_reach z s" and u: "bc_pc s j = Unborn" and pc: "at_barrier (bc_pc s i)"
  shows "\<exists>h. can z s h"
proof (cases "sb_writer (bc_barrier s) = None \<and> sb_readers (bc_barrier s) = {}")
  case True
  then obtain b b' where e: "EnteringStatusArea i (bc_barrier s) = Some b" "Entering i (bc_barrier s) = Some b'"
    by (simp add: EnteringStatusArea_def Entering_def)
  have "can z s i"
    using pc e
    by (auto elim!: at_barrier.elims sub_inside.elims write_inside.elims
        intro: can_intros(1) [OF _ start_lock] can_intros(2) [OF _ stop_lock] can_intros(4) [OF _ sub_enter]
          can_intros(4) [OF _ unsub_enter] can_intros(4) [OF _ is_sub_enter] can_intros(4) [OF _ is_stopped_enter]
          can_intros(5) [OF _ write_enter] can_intros(5) [OF _ write_sync_enter])
  then show ?thesis ..
next
  case False
  from barrier_holder [OF inv_locks_ok(1) [OF bc_reach_locks [OF r]] this]
  obtain h where "holds_w (bc_pc s h) \<or> holds_r (bc_pc s h)" ..
  then show ?thesis by (rule inside_can [OF r u])
qed

text \<open>
  C4. The broadcaster never deadlocks: as long as a goroutine is inside a call, or the worker has something to
  do, some goroutine of the program can go on, whatever was called before and however often it was
  started.  (Somebody must be left to be born: \<open>Start\<close> and \<open>Write\<close> create goroutines.)
\<close>

theorem bc_deadlock_free:
  assumes "bc_reach z s" and "bc_pc s j = Unborn" and "\<not> resting (bc_pc s i)"
  shows "\<exists>h s'. own_step z h s s'"
proof -
  note l = bc_reach_locks [OF assms(1)]
  have "\<exists>h. can z s h"
  proof (cases "bc_pc s i")
    case (In_Stop p)
    then show ?thesis
      by (cases "p = Stop_lock") (auto intro: barrier_can [OF assms(1,2), of i] inside_can [OF assms(1,2), of i])
  next
    case (In_Start p)
    then show ?thesis
      by (cases "p = Start_lock") (auto intro: barrier_can [OF assms(1,2), of i] inside_can [OF assms(1,2), of i])
  next
    case (In_Sub p)
    then show ?thesis
      by (cases "sub_inside p") (auto intro: barrier_can [OF assms(1,2), of i] inside_can [OF assms(1,2), of i])
  next
    case (In_Write p)
    then show ?thesis
      by (cases "write_inside p") (auto intro: barrier_can [OF assms(1,2), of i] inside_can [OF assms(1,2), of i])
  next
    case (In_Worker p)
    then show ?thesis using assms(3) by (cases "p = W_select") (auto intro: can_worker [OF assms(1)])
  next
    case (In_L_stop k c p)
    then show ?thesis by (intro listener_can [OF disjI1 l])
  next
    case (In_L_write k g p)
    then show ?thesis by (intro listener_can [OF disjI2 l])
  qed (use assms(3) in \<open>auto intro: can_leave\<close>)
  then show ?thesis by (simp add: can_def)
qed

text \<open>The call of \<open>Stop\<close> on a running broadcaster, which waits for its worker.\<close>

theorem bc_deadlock_free_witness:
  "\<exists>h s'. own_step 0 h (at 0 (In_Stop Stop_lock) bc_up) s'"
proof -
  have "bc_reach 0 (at 0 (In_Stop Stop_lock) bc_up)"
    by (rule bc_to [OF bc_up_reach by_stop [OF stop_call [of _ 0]]]) simp_all
  then show ?thesis by (rule bc_deadlock_free [of _ _ 2 0]) simp_all
qed

end
