(* ===== verification/Ioutil.thy ===== *)
theory Ioutil
  imports Bytes Go_Strings
begin

text \<open>
  \<^verbatim>\<open>pkg/ioutil/ioutil.go\<close>: \<open>LastLines\<close>, which reads a file backwards in blocks, and the functions that
  create, list and read files.
\<close>

subsection \<open>\<open>LastLines\<close>\<close>

text \<open>
  A Go string is the list of its code points here.  \<^verbatim>\<open>string(buffer[i])\<close> makes a string of one code
  point, whose number is the byte's value.
\<close>

type_synonym runes = "nat list"

definition string_of_byte :: "byte \<Rightarrow> runes" where
  "string_of_byte b = [unat b]"

text \<open>\<^verbatim>\<open>unicode.IsSpace\<close>, and \<^verbatim>\<open>strings.TrimSpace\<close> on code points.\<close>

definition unicode_IsSpace :: "nat \<Rightarrow> bool" where
  "unicode_IsSpace r \<longleftrightarrow>
     9 \<le> r \<and> r \<le> 13 \<or> r \<in> {32, 133, 160, 5760, 8232, 8233, 8239, 8287, 12288} \<or> 8192 \<le> r \<and> r \<le> 8202"

definition runes_TrimSpace :: "runes \<Rightarrow> runes" where
  "runes_TrimSpace s = rev (dropWhile unicode_IsSpace (rev (dropWhile unicode_IsSpace s)))"

definition removeCRLF :: "bool \<Rightarrow> runes \<Rightarrow> runes" where
  "removeCRLF noincludecrlf currLine = (if noincludecrlf then runes_TrimSpace currLine else currLine)"

record ll_state =
  currLine :: runes
  accLines :: "runes list"
  firstCharacter :: bool

text \<open>One turn of the inner loop; the flag says that it left both loops.\<close>

definition ll_byte :: "int \<Rightarrow> bool \<Rightarrow> bool \<Rightarrow> byte \<Rightarrow> ll_state \<Rightarrow> bool \<times> ll_state" where
  "ll_byte nlines skipEmpty noincludecrlf b s =
     (if (b = 10 \<or> b = 13) \<and> (currLine s \<noteq> [10] \<or> b = 10) then
        (let appendLine = (\<not> firstCharacter s \<and> \<not> (skipEmpty \<and> runes_TrimSpace (currLine s) = []));
             s1 = s\<lparr>firstCharacter := False\<rparr>;
             line = removeCRLF noincludecrlf (currLine s);
             s2 = (if appendLine then s1\<lparr>currLine := line, accLines := accLines s @ [line]\<rparr> else s1)
         in if appendLine \<and> nlines = int (length (accLines s2)) then (True, s2)
            else (False, s2\<lparr>currLine := string_of_byte b\<rparr>))
      else (False, s\<lparr>currLine := string_of_byte b @ currLine s\<rparr>))"

text \<open>The inner loop: the bytes read, from the last to the first.\<close>

fun ll_buffer :: "int \<Rightarrow> bool \<Rightarrow> bool \<Rightarrow> bytes \<Rightarrow> ll_state \<Rightarrow> bool \<times> ll_state" where
  "ll_buffer nlines skipEmpty noincludecrlf [] s = (False, s)"
| "ll_buffer nlines skipEmpty noincludecrlf (b # bs) s =
     (case ll_byte nlines skipEmpty noincludecrlf b s of
        (True, s') \<Rightarrow> (True, s')
      | (False, s') \<Rightarrow> ll_buffer nlines skipEmpty noincludecrlf bs s')"

text \<open>What follows the loop over the last block.\<close>

definition ll_rest :: "bool \<Rightarrow> ll_state \<Rightarrow> runes list" where
  "ll_rest noincludecrlf s =
     (if currLine s \<noteq> [] then accLines s @ [removeCRLF noincludecrlf (currLine s)] else accLines s)"

text \<open>
  The outer loop.  \<open>cursor\<close> is the offset from the end given to \<open>Seek\<close>, \<open>n\<close> the length of the buffer;
  \<open>None\<close> is a run that needs more than \<open>fuel\<close> turns.
\<close>

primrec ll_loop ::
    "nat \<Rightarrow> int \<Rightarrow> bool \<Rightarrow> bool \<Rightarrow> bytes \<Rightarrow> int \<Rightarrow> int \<Rightarrow> nat \<Rightarrow> ll_state \<Rightarrow> (go_err + runes list) option"
where
  "ll_loop 0 nlines skipEmpty noincludecrlf f bufferSize cursor n s = None"
| "ll_loop (Suc fuel) nlines skipEmpty noincludecrlf f bufferSize cursor n s =
     (let newOffset = int (length f) + cursor in
      if newOffset < 0 then Some (Inl (Err ''invalid argument''))
      else
        (let buffer = take n (drop (nat newOffset) f);
             bytesRead = length buffer
         in if bytesRead = 0 \<and> 0 < n then Some (Inl (Err ''EOF''))
            else
              (case ll_buffer nlines skipEmpty noincludecrlf (rev buffer) s of
                 (True, s') \<Rightarrow> Some (Inr (accLines s'))
               | (False, s') \<Rightarrow>
                   (if newOffset = 0 then Some (Inr (ll_rest noincludecrlf s'))
                    else if newOffset > bufferSize then
                      ll_loop fuel nlines skipEmpty noincludecrlf f bufferSize (cursor - int bytesRead) n s'
                    else
                      ll_loop fuel nlines skipEmpty noincludecrlf f bufferSize (cursor - newOffset)
                        (nat newOffset) s'))))"

text \<open>
  \<open>LastLines\<close> of a file whose opening fails or gives its bytes.  The file does not change while it is
  read, and a read fills the buffer as far as the file goes.
\<close>

definition LastLines ::
    "go_err + bytes \<Rightarrow> int \<Rightarrow> bool \<Rightarrow> bool \<Rightarrow> (go_err + runes list) option" where
  "LastLines file nlines skipEmpty noincludecrlf =
     (case file of
        Inl err \<Rightarrow> Some (Inl err)
      | Inr f \<Rightarrow>
          (let filesize = int (length f);
               bufferSize = (if 4096 > filesize then filesize else 4096)
           in map_option (map_sum id rev)
                (ll_loop (Suc (length f)) nlines skipEmpty noincludecrlf f bufferSize (- bufferSize)
                   (nat bufferSize) \<lparr>currLine = [], accLines = [], firstCharacter = True\<rparr>)))"

subsection \<open>One scan from the end\<close>

definition ll_start :: ll_state where
  "ll_start = \<lparr>currLine = [], accLines = [], firstCharacter = True\<rparr>"

definition ll_finish :: "bool \<Rightarrow> bool \<times> ll_state \<Rightarrow> runes list" where
  "ll_finish noincludecrlf r = (if fst r then accLines (snd r) else ll_rest noincludecrlf (snd r))"

text \<open>The function the blocks compute: the whole file scanned from its end to its beginning.\<close>

definition scan_lines :: "int \<Rightarrow> bool \<Rightarrow> bool \<Rightarrow> bytes \<Rightarrow> runes list" where
  "scan_lines nlines skipEmpty noincludecrlf f =
     rev (ll_finish noincludecrlf (ll_buffer nlines skipEmpty noincludecrlf (rev f) ll_start))"

lemma ll_buffer_append:
  "ll_buffer nl se nc (xs @ ys) s =
     (case ll_buffer nl se nc xs s of (True, s') \<Rightarrow> (True, s') | (False, s') \<Rightarrow> ll_buffer nl se nc ys s')"
  by (induction xs arbitrary: s) (auto split: prod.splits bool.splits)

lemma ll_loop_turn:
  assumes "off + n \<le> length f"
  shows "ll_loop (Suc fuel) nl se nc f bs (int off - int (length f)) n s =
    (case ll_buffer nl se nc (rev (take n (drop off f))) s of
       (True, s') \<Rightarrow> Some (Inr (accLines s'))
     | (False, s') \<Rightarrow>
         if off = 0 then Some (Inr (ll_rest nc s'))
         else if bs < int off then ll_loop fuel nl se nc f bs (int off - int (length f) - int n) n s'
         else ll_loop fuel nl se nc f bs (- int (length f)) off s')"
proof -
  have "length (take n (drop off f)) = n" using assms by simp
  then show ?thesis
    using assms by (cases "n = 0") (auto simp: Let_def split: prod.splits bool.splits)
qed

lemma ll_loop_scan:
  assumes "off < fuel" and "off + n \<le> length f" and "0 < n \<or> off = 0" and "int n \<le> bs"
  shows "ll_loop fuel nl se nc f bs (int off - int (length f)) n s =
         Some (Inr (ll_finish nc (ll_buffer nl se nc (rev (take (off + n) f)) s)))"
  using assms
proof (induction fuel arbitrary: off n s)
  case (Suc fuel)
  have split: "rev (take (off + n) f) = rev (take n (drop off f)) @ rev (take off f)"
    by (simp add: take_add)
  obtain brk s' where step: "ll_buffer nl se nc (rev (take n (drop off f))) s = (brk, s')"
    by (cases "ll_buffer nl se nc (rev (take n (drop off f))) s")
  have next1: "ll_loop fuel nl se nc f bs (int off - int (length f) - int n) n s' =
      Some (Inr (ll_finish nc (ll_buffer nl se nc (rev (take off f)) s')))" if "bs < int off"
  proof -
    have "n \<le> off" "off - n + n = off" using that Suc.prems by simp_all
    then show ?thesis
      using Suc.IH [of "off - n" n s'] Suc.prems that
      by (simp add: of_nat_diff algebra_simps)
  qed
  have next2: "ll_loop fuel nl se nc f bs (- int (length f)) off s' =
      Some (Inr (ll_finish nc (ll_buffer nl se nc (rev (take off f)) s')))" if "0 < off" "int off \<le> bs"
    using Suc.IH [of 0 off s'] Suc.prems that by auto
  show ?case
    using ll_loop_turn [OF Suc.prems(2)] step next1 next2
    by (cases brk; cases "off = 0") (auto simp: split ll_buffer_append ll_finish_def)
qed simp

lemma LastLines_scan: "LastLines (Inr f) nl se nc = Some (Inr (scan_lines nl se nc f))"
proof -
  define n where "n = min 4096 (length f)"
  have bs: "(if 4096 > int (length f) then int (length f) else 4096) = int n"
    by (auto simp: n_def)
  have "ll_loop (Suc (length f)) nl se nc f (int n) (int (length f - n) - int (length f)) n ll_start =
        Some (Inr (ll_finish nc (ll_buffer nl se nc (rev (take (length f - n + n) f)) ll_start)))"
    by (rule ll_loop_scan) (auto simp: n_def)
  moreover have "int (length f - n) - int (length f) = - int n" by (simp add: n_def of_nat_diff)
  moreover have "length f - n + n = length f" by (simp add: n_def)
  ultimately have "ll_loop (Suc (length f)) nl se nc f (int n) (- int n) (nat (int n)) ll_start =
        Some (Inr (ll_finish nc (ll_buffer nl se nc (rev f) ll_start)))"
    by (simp del: ll_loop.simps)
  then show ?thesis
    unfolding LastLines_def Let_def sum.case bs ll_start_def [symmetric] scan_lines_def by simp
qed

subsection \<open>Lines\<close>

text \<open>The lines of a file, without their terminators; a line holds no CR and no LF.\<close>

definition plain :: "bytes \<Rightarrow> bool" where
  "plain l \<longleftrightarrow> 10 \<notin> set l \<and> 13 \<notin> set l"

definition file_of :: "bytes list \<Rightarrow> bytes" where
  "file_of ls = concat (map (\<lambda>l. l @ [10]) ls)"

text \<open>How \<open>LastLines\<close> sees a line, and what it puts into the result.\<close>

definition line_runes :: "bytes \<Rightarrow> runes" where
  "line_runes l = map unat l @ [10]"

definition keep_line :: "bool \<Rightarrow> bytes \<Rightarrow> bool" where
  "keep_line skipEmpty l \<longleftrightarrow> \<not> (skipEmpty \<and> runes_TrimSpace (line_runes l) = [])"

definition first_n :: "int \<Rightarrow> 'a list \<Rightarrow> 'a list" where
  "first_n n xs = (if 0 < n then take (nat n) xs else xs)"

text \<open>
  The lines taken from the end: an empty line is skipped on demand, but the first line of the file,
  which the loop leaves in \<open>currLine\<close>, never is.
\<close>

definition kept :: "bool \<Rightarrow> bytes list \<Rightarrow> bytes list" where
  "kept skipEmpty rls = (if rls = [] then [] else filter (keep_line skipEmpty) (butlast rls) @ [last rls])"

lemma ll_buffer_plain:
  "plain l \<Longrightarrow> ll_buffer nl se nc (rev l) s = (False, s\<lparr>currLine := map unat l @ currLine s\<rparr>)"
proof (induction l arbitrary: s rule: rev_induct)
  case (snoc b l)
  then have "plain l" "b \<noteq> 10" "b \<noteq> 13" by (auto simp: plain_def)
  with snoc.IH show ?case by (simp add: ll_byte_def string_of_byte_def)
qed simp

lemma kept_Cons2: "kept se (l # l' # rls) = (if keep_line se l then [l] else []) @ kept se (l' # rls)"
  by (simp add: kept_def)

lemma scan_rest:
  assumes "plain l" and "\<forall>x \<in> set rls. plain x" and "0 < nl \<longrightarrow> int (length acc) < nl"
  shows "ll_finish nc (ll_buffer nl se nc (rev l @ concat (map (\<lambda>l. 10 # rev l) rls))
           \<lparr>currLine = [10], accLines = acc, firstCharacter = False\<rparr>) =
         first_n nl (acc @ map (\<lambda>l. removeCRLF nc (line_runes l)) (kept se (l # rls)))"
  using assms
proof (induction rls arbitrary: l acc)
  case Nil
  have "first_n nl (acc @ [x]) = acc @ [x]" for x
    using Nil.prems(3) by (auto simp: first_n_def)
  then show ?case
    using Nil.prems(1)
    by (simp add: ll_buffer_plain ll_finish_def ll_rest_def kept_def line_runes_def)
next
  case (Cons l' rls)
  let ?line = "removeCRLF nc (line_runes l)"
  let ?st = "\<lparr>currLine = line_runes l, accLines = acc, firstCharacter = False\<rparr>"
  have "ll_buffer nl se nc (rev l @ concat (map (\<lambda>l. 10 # rev l) (l' # rls)))
           \<lparr>currLine = [10], accLines = acc, firstCharacter = False\<rparr> =
        ll_buffer nl se nc (10 # rev l' @ concat (map (\<lambda>l. 10 # rev l) rls)) ?st"
    using Cons.prems(1) by (simp add: ll_buffer_append ll_buffer_plain line_runes_def)
  moreover have "ll_byte nl se nc 10 ?st =
      (if keep_line se l \<and> nl = int (Suc (length acc))
       then (True, \<lparr>currLine = ?line, accLines = acc @ [?line], firstCharacter = False\<rparr>)
       else (False, \<lparr>currLine = [10], accLines = (if keep_line se l then acc @ [?line] else acc),
                     firstCharacter = False\<rparr>))"
    by (auto simp: ll_byte_def keep_line_def string_of_byte_def Let_def)
  moreover have "first_n nl (acc @ ?line # xs) = acc @ [?line]" if "nl = int (Suc (length acc))" for xs
    using that by (simp add: first_n_def nat_add_distrib)
  ultimately show ?case
    using Cons.IH [of l' "acc @ [?line]"] Cons.IH [of l' acc] Cons.prems
    by (auto simp: kept_Cons2 ll_finish_def)
qed

lemma rev_file_of: "rev (file_of (ls @ [l])) = 10 # rev l @ concat (map (\<lambda>l. 10 # rev l) (rev ls))"
proof -
  have "rev (file_of ls) = concat (map (\<lambda>l. 10 # rev l) (rev ls))"
    by (induction ls) (simp_all add: file_of_def)
  then show ?thesis by (simp add: file_of_def)
qed

lemma scan_lines_of:
  assumes "\<forall>l \<in> set ls. plain l"
  shows "scan_lines nl se nc (file_of ls) =
         rev (first_n nl (map (\<lambda>l. removeCRLF nc (line_runes l)) (kept se (rev ls))))"
proof (cases ls rule: rev_cases)
  case Nil
  then show ?thesis
    by (simp add: scan_lines_def file_of_def ll_finish_def ll_rest_def ll_start_def kept_def first_n_def)
next
  case (snoc ls' l)
  have "ll_byte nl se nc 10 ll_start = (False, \<lparr>currLine = [10], accLines = [], firstCharacter = False\<rparr>)"
    by (simp add: ll_byte_def ll_start_def string_of_byte_def)
  then show ?thesis
    using scan_rest [of l "rev ls'" nl "[]" nc se] assms snoc
    by (simp add: scan_lines_def rev_file_of)
qed

subsection \<open>Properties of \<open>LastLines\<close>\<close>

text \<open>The bytes of a string of code points below 256, as UTF-8.\<close>

definition utf8_byte :: "byte \<Rightarrow> bytes" where
  "utf8_byte b = (if b < 128 then [b] else [or 192 (drop_bit 6 b), or 128 (and b 63)])"

lemma rev_first_n: "rev (first_n n (rev xs)) = (if 0 < n then drop (length xs - nat n) xs else xs)"
  by (simp add: first_n_def rev_take)

definition utf8 :: "runes \<Rightarrow> bytes" where
  "utf8 r = concat (map (\<lambda>c. utf8_byte (word_of_nat c)) r)"

lemma utf8_map_unat: "utf8 (map unat l) = concat (map utf8_byte l)"
  by (simp add: utf8_def comp_def)

lemma utf8_longer: "length l \<le> length (concat (map utf8_byte l))"
  by (induction l) (auto simp: utf8_byte_def)

lemma utf8_ascii: "concat (map utf8_byte l) = l \<longleftrightarrow> (\<forall>b \<in> set l. b < 128)"
proof (induction l)
  case (Cons b l)
  show ?case
  proof (cases "b < 128")
    case False
    then have "length (concat (map utf8_byte (b # l))) \<noteq> length (b # l)"
      using utf8_longer [of l] by (simp add: utf8_byte_def)
    with False show ?thesis by (metis list.set_intros(1))
  qed (use Cons in \<open>simp add: utf8_byte_def\<close>)
qed simp

lemma scan_unterminated:
  assumes "plain t" and "ls \<noteq> []"
  shows "scan_lines nl se nc (file_of ls @ t) = scan_lines nl se nc (file_of ls)"
proof -
  obtain ls' l where ls: "ls = ls' @ [l]" using assms(2) by (cases ls rule: rev_cases) auto
  let ?r = "rev l @ concat (map (\<lambda>l. 10 # rev l) (rev ls'))"
  have nl: "ll_buffer nl se nc (10 # ?r) \<lparr>currLine = c, accLines = [], firstCharacter = True\<rparr> =
        ll_buffer nl se nc ?r \<lparr>currLine = [10], accLines = [], firstCharacter = False\<rparr>" for c
    by (simp add: ll_byte_def string_of_byte_def)
  have "ll_buffer nl se nc (rev (file_of ls @ t)) ll_start =
        ll_buffer nl se nc (10 # ?r) \<lparr>currLine = map unat t, accLines = [], firstCharacter = True\<rparr>"
    unfolding ls rev_append rev_file_of
    by (simp only: ll_buffer_append ll_buffer_plain [OF assms(1)] ll_start_def)
       (simp only: prod.case bool.case ll_state.simps append_Nil2)
  also have "\<dots> = ll_buffer nl se nc (rev (file_of ls)) ll_start"
    unfolding ls rev_file_of ll_start_def nl ..
  finally show ?thesis by (simp only: scan_lines_def)
qed

text \<open>C21. For a file of newline-terminated lines \<open>LastLines\<close> always returns, and returns the last \<open>nlines\<close>
  lines in their order (all of them when \<open>nlines\<close> is not positive), however the file's length falls on
  the 4096-byte blocks it is read in; with \<open>skipEmpty\<close> the lines of white space are left out before
  counting, except the first line of the file.\<close>

theorem LastLines_last:
  assumes "\<forall>l \<in> set ls. plain l"
  shows "LastLines (Inr (file_of ls)) nl se nc = Some (Inr
    (let lines = (case ls of [] \<Rightarrow> [] | l # ls' \<Rightarrow> l # filter (keep_line se) ls');
         out = map (\<lambda>l. removeCRLF nc (line_runes l)) lines
     in if 0 < nl then drop (length out - nat nl) out else out))"
proof -
  have "kept se (rev ls) = rev (case ls of [] \<Rightarrow> [] | l # ls' \<Rightarrow> l # filter (keep_line se) ls')"
    by (cases ls) (simp_all add: kept_def butlast_append rev_filter)
  then show ?thesis
    by (simp add: LastLines_scan scan_lines_of [OF assms] rev_first_n Let_def flip: rev_map)
qed

theorem LastLines_last_witness:
  "LastLines (Inr (file_of [bytes_of ''a'', bytes_of '''', bytes_of ''bc''])) 2 True True =
     Some (Inr [[97], [98, 99]])"
  using LastLines_last [of "[bytes_of ''a'', bytes_of '''', bytes_of ''bc'']" 2 True True]
  by (simp add: plain_def bytes_of_def byte_of_def line_runes_def keep_line_def removeCRLF_def
      runes_TrimSpace_def unicode_IsSpace_def)

text \<open>A last line without a terminator is lost: appending text without a line break to a file of
  terminated lines does not change what \<open>LastLines\<close> returns, although the same text alone in a file is
  returned as its only line.\<close>

theorem LastLines_drops_unterminated:
  assumes "plain t"
  shows "(if ls = [] then
            LastLines (Inr (file_of ls @ t)) nl se nc =
              Some (Inr (if t = [] then [] else [removeCRLF nc (map unat t)]))
          else LastLines (Inr (file_of ls @ t)) nl se nc = LastLines (Inr (file_of ls)) nl se nc)"
proof (cases "ls = []")
  case True
  then show ?thesis
    by (simp add: LastLines_scan scan_lines_def file_of_def ll_buffer_plain [OF assms] ll_finish_def
        ll_rest_def ll_start_def)
qed (simp add: LastLines_scan scan_unterminated [OF assms])

theorem LastLines_drops_unterminated_witness:
  "LastLines (Inr (file_of [bytes_of ''a''] @ bytes_of ''b'')) 5 False True =
   LastLines (Inr (file_of [bytes_of ''a''])) 5 False True"
  using LastLines_drops_unterminated [of "bytes_of ''b''" "[bytes_of ''a'']" 5 False True]
  by (simp add: plain_def bytes_of_def byte_of_def)

text \<open>Bytes are turned into characters one by one: the line returned has the file's bytes (as UTF-8)
  exactly when all of them are ASCII; any other text comes out garbled.\<close>

theorem LastLines_ascii_only:
  assumes "plain l"
  shows "\<exists>r. LastLines (Inr (l @ [10])) nl False False = Some (Inr [r]) \<and>
             (utf8 r = l @ [10] \<longleftrightarrow> (\<forall>b \<in> set l. b < 128))"
proof -
  have "LastLines (Inr (l @ [10])) nl False False = Some (Inr [line_runes l])"
    using scan_lines_of [of "[l]" nl False False] assms
    by (simp add: LastLines_scan file_of_def kept_def first_n_def removeCRLF_def)
  moreover have "utf8 (line_runes l) = concat (map utf8_byte l) @ [10]"
    using utf8_map_unat [of l] by (simp add: line_runes_def utf8_def utf8_byte_def)
  ultimately show ?thesis using utf8_ascii [of l] by simp
qed

theorem LastLines_ascii_only_witness:
  "\<exists>r. LastLines (Inr [195, 169, 10]) 1 False False = Some (Inr [r]) \<and> utf8 r \<noteq> [195, 169, 10]"
  using LastLines_ascii_only [of "[195, 169]" 1] by (simp add: plain_def)

text \<open>
  C22. \<open>LastLines\<close> of a file that can be opened always returns, within as many blocks as the file has
  bytes and one more, and reading the file backwards block by block gives the lines of one scan of
  the whole file from its end: no line is cut or repeated where blocks meet.
\<close>

theorem LastLines_blocks_one_scan:
  "LastLines (Inr f) nlines skipEmpty noincludecrlf =
     Some (Inr (scan_lines nlines skipEmpty noincludecrlf f))"
  by (rule LastLines_scan)

end
