(* ===== verification/Ioutil_Files.thy ===== *)
theory Ioutil_Files
  imports Ioutil "HOL-Library.Multiset"
begin

text \<open>
  The rest of \<^verbatim>\<open>pkg/ioutil/ioutil.go\<close>: creating files, and listing and reading the files below a
  directory by modification time.

  The operating system is seen through what the package calls.  A snapshot of the disk (\<open>disk\<close>) gives
  for a path the error of \<^verbatim>\<open>os.Stat\<close> or the node there; a directory's entries are in the order
  \<^verbatim>\<open>os.ReadDir\<close> gives them.  The functions take one snapshot per moment at which they look at the
  disk, so that a file may disappear between the walk and the sort.  Symbolic links are left out.
\<close>

subsection \<open>The disk\<close>

datatype node =
    FNode (f_bytes: bytes) (f_mtime: int) (f_read_err: "go_err option")
  | DNode int "go_err option" "(string \<times> node) list"

definition ErrNotExist :: go_err where
  "ErrNotExist = Err ''file does not exist''"

type_synonym disk = "string \<Rightarrow> go_err + node"

text \<open>A \<^verbatim>\<open>fs.DirEntry\<close>; the root's entry keeps its \<open>FileInfo\<close>, the others ask the disk again.\<close>

record DirEntry =
  de_name :: string
  de_path :: string
  de_node :: node
  de_cached :: bool

fun node_IsDir :: "node \<Rightarrow> bool" where
  "node_IsDir (DNode t e es) = True"
| "node_IsDir (FNode b t e) = False"

fun node_ModTime :: "node \<Rightarrow> int" where
  "node_ModTime (DNode t e es) = t"
| "node_ModTime (FNode b t e) = t"

definition de_IsDir :: "DirEntry \<Rightarrow> bool" where
  "de_IsDir d = node_IsDir (de_node d)"

definition de_Info :: "disk \<Rightarrow> DirEntry \<Rightarrow> go_err + node" where
  "de_Info D d = (if de_cached d then Inr (de_node d) else D (de_path d))"

text \<open>Modification times are nanoseconds; \<open>Unix\<close> is the whole seconds.\<close>

definition Unix :: "int \<Rightarrow> int" where
  "Unix t = t div 1000000000"

definition os_ReadFile :: "disk \<Rightarrow> string \<Rightarrow> go_err + bytes" where
  "os_ReadFile D p =
     (case D p of
        Inl e \<Rightarrow> Inl e
      | Inr (FNode b t None) \<Rightarrow> Inr b
      | Inr (FNode b t (Some e)) \<Rightarrow> Inl e
      | Inr (DNode t e es) \<Rightarrow> Inl (Err ''is a directory''))"

text \<open>
  \<^verbatim>\<open>filepath.WalkDir\<close> with a callback that changes its closure's state and never answers \<open>SkipDir\<close>: the
  node itself, then the entries of a directory in order; a directory that cannot be read is reported
  by a second call.
\<close>

type_synonym 's walk_fn = "string \<Rightarrow> DirEntry \<Rightarrow> go_err option \<Rightarrow> 's \<Rightarrow> go_err option \<times> 's"

fun walk_node :: "'s walk_fn \<Rightarrow> string \<Rightarrow> string \<Rightarrow> bool \<Rightarrow> node \<Rightarrow> 's \<Rightarrow> go_err option \<times> 's"
  and walk_entries :: "'s walk_fn \<Rightarrow> string \<Rightarrow> (string \<times> node) list \<Rightarrow> 's \<Rightarrow> go_err option \<times> 's"
where
  "walk_node fn path name cached (FNode b t e) s =
     fn path \<lparr>de_name = name, de_path = path, de_node = FNode b t e, de_cached = cached\<rparr> None s"
| "walk_node fn path name cached (DNode t e es) s =
     (let d = \<lparr>de_name = name, de_path = path, de_node = DNode t e es, de_cached = cached\<rparr> in
      case fn path d None s of
        (Some err, s1) \<Rightarrow> (Some err, s1)
      | (None, s1) \<Rightarrow>
          (case e of
             None \<Rightarrow> walk_entries fn path es s1
           | Some err \<Rightarrow>
               (case fn path d (Some err) s1 of
                  (Some err', s2) \<Rightarrow> (Some err', s2)
                | (None, s2) \<Rightarrow> (None, s2))))"
| "walk_entries fn path [] s = (None, s)"
| "walk_entries fn path ((n, c) # es) s =
     (case walk_node fn (filepath_Join [path, n]) n False c s of
        (Some err, s1) \<Rightarrow> (Some err, s1)
      | (None, s1) \<Rightarrow> walk_entries fn path es s1)"

text \<open>The last element of a path, the name the root's entry has.\<close>

definition filepath_Base :: "string \<Rightarrow> string" where
  "filepath_Base p =
     (if p = [] then ''.''
      else
        (let q = rev (dropWhile (\<lambda>c. c = CHR ''/'') (rev p)) in
         if q = [] then ''/'' else rev (takeWhile (\<lambda>c. c \<noteq> CHR ''/'') (rev q))))"

definition no_entry :: DirEntry where
  "no_entry = \<lparr>de_name = [], de_path = [], de_node = FNode [] 0 None, de_cached = True\<rparr>"

definition filepath_WalkDir :: "disk \<Rightarrow> string \<Rightarrow> 's walk_fn \<Rightarrow> 's \<Rightarrow> go_err option \<times> 's" where
  "filepath_WalkDir D root fn s =
     (case D root of
        Inl err \<Rightarrow> fn root no_entry (Some err) s
      | Inr nd \<Rightarrow> walk_node fn root (filepath_Base root) True nd s)"

subsection \<open>Sorting by modification time\<close>

text \<open>
  \<^verbatim>\<open>sort.Slice\<close> is not stable: the order of equal keys is a parameter \<open>srt\<close>.  The comparison drops the
  error of \<open>Info\<close> and dereferences the nil \<open>FileInfo\<close> that comes with it; every element of a slice of
  two or more is compared.
\<close>

type_synonym 'a sorter = "('a \<Rightarrow> int) \<Rightarrow> 'a list \<Rightarrow> 'a list"

definition sorter_ok :: "'a sorter \<Rightarrow> bool" where
  "sorter_ok srt \<longleftrightarrow>
     (\<forall>key xs. mset (srt key xs) = mset xs \<and> sorted (map key (srt key xs)))"

definition unix_of :: "disk \<Rightarrow> DirEntry \<Rightarrow> int" where
  "unix_of D d = (case de_Info D d of Inr nd \<Rightarrow> Unix (node_ModTime nd) | Inl e \<Rightarrow> 0)"

definition sort_by_mtime ::
    "'a sorter \<Rightarrow> disk \<Rightarrow> ('a \<Rightarrow> DirEntry) \<Rightarrow> 'a list \<Rightarrow> 'a list go" where
  "sort_by_mtime srt D entry xs =
     (if 2 \<le> length xs \<and> (\<exists>x \<in> set xs. \<exists>e. de_Info D (entry x) = Inl e) then Inl NilDereference
      else Inr (srt (\<lambda>x. unix_of D (entry x)) xs))"

subsection \<open>Listing and reading\<close>

record file_info =
  fullName :: string
  entry :: DirEntry

text \<open>The callbacks given to \<open>WalkDir\<close>: they append to the slice of their closure.\<close>

definition collect_file :: "string \<Rightarrow> string \<Rightarrow> file_info list walk_fn" where
  "collect_file preffix suff path d err acc =
     (if err \<noteq> None then (err, acc)
      else if strings_HasPrefix (de_name d) preffix \<and> strings_HasSuffix (de_name d) suff
      then (None, acc @ [\<lparr>fullName = path, entry = d\<rparr>])
      else (None, acc))"

definition collect_entry :: "(string \<Rightarrow> DirEntry \<Rightarrow> bool) \<Rightarrow> DirEntry list walk_fn" where
  "collect_entry flt path d err acc =
     (if err \<noteq> None then (err, acc) else if flt path d then (None, acc @ [d]) else (None, acc))"

definition os_IsNotExist :: "disk \<Rightarrow> string \<Rightarrow> bool" where
  "os_IsNotExist D p = (D p = Inl ErrNotExist)"

definition err_getting :: "go_err \<Rightarrow> go_err" where
  "err_getting e = ErrJoin [Err ''error getting files'', e]"

text \<open>\<open>D\<close> is the disk during the walk, \<open>D'\<close> the disk during the sort.\<close>

definition filesSorted ::
    "file_info sorter \<Rightarrow> disk \<Rightarrow> disk \<Rightarrow> string \<Rightarrow> string \<Rightarrow> string \<Rightarrow> (go_err + file_info list) go" where
  "filesSorted srt D D' path preffix suff =
     (if os_IsNotExist D path then Inr (Inr [])
      else
        (case filepath_WalkDir D path (collect_file preffix suff) [] of
           (Some err, fs) \<Rightarrow> Inr (Inl (err_getting err))
         | (None, fs) \<Rightarrow> go_bind (sort_by_mtime srt D' entry fs) (\<lambda>fs'. Inr (Inr fs'))))"

definition files_of ::
    "DirEntry sorter \<Rightarrow> disk \<Rightarrow> disk \<Rightarrow> string \<Rightarrow> (string \<Rightarrow> DirEntry \<Rightarrow> bool) \<Rightarrow>
     (go_err + DirEntry list) go" where
  "files_of srt D D' pathFiles flt =
     (if os_IsNotExist D pathFiles then Inr (Inr [])
      else
        (case filepath_WalkDir D pathFiles (collect_entry flt) [] of
           (Some err, fs) \<Rightarrow> Inr (Inl (err_getting err))
         | (None, fs) \<Rightarrow> go_bind (sort_by_mtime srt D' id fs) (\<lambda>fs'. Inr (Inr fs'))))"

definition Files :: "DirEntry sorter \<Rightarrow> disk \<Rightarrow> disk \<Rightarrow> string \<Rightarrow> (go_err + DirEntry list) go" where
  "Files srt D D' path = files_of srt D D' path (\<lambda>p d. \<not> de_IsDir d)"

definition Dirs :: "DirEntry sorter \<Rightarrow> disk \<Rightarrow> disk \<Rightarrow> string \<Rightarrow> (go_err + DirEntry list) go" where
  "Dirs srt D D' pathDir = files_of srt D D' pathDir (\<lambda>p d. if p = pathDir then False else de_IsDir d)"

definition topNfilesSorted ::
    "file_info sorter \<Rightarrow> disk \<Rightarrow> disk \<Rightarrow> string \<Rightarrow> string \<Rightarrow> string \<Rightarrow> int \<Rightarrow> (go_err + file_info list) go" where
  "topNfilesSorted srt D D' path preffix suff n =
     go_bind (filesSorted srt D D' path preffix suff)
       (\<lambda>r. case r of
          Inl err \<Rightarrow> Inr (Inl err)
        | Inr fs \<Rightarrow>
            (if int (length fs) < n then Inr (Inr fs)
             else go_bind (go_slice fs 0 n) (\<lambda>fs'. Inr (Inr fs'))))"

record File =
  Name :: string
  Bytes :: bytes

text \<open>The reading loop: it stops at the first file that cannot be read.\<close>

fun read_all :: "disk \<Rightarrow> file_info list \<Rightarrow> go_err + File list" where
  "read_all D [] = Inr []"
| "read_all D (f # fs) =
     (case os_ReadFile D (fullName f) of
        Inl err \<Rightarrow> Inl err
      | Inr data \<Rightarrow>
          (case read_all D fs of
             Inl err \<Rightarrow> Inl err
           | Inr ret \<Rightarrow> Inr (\<lparr>Name = fullName f, Bytes = data\<rparr> # ret)))"

definition ReadOldestFiles ::
    "file_info sorter \<Rightarrow> disk \<Rightarrow> disk \<Rightarrow> disk \<Rightarrow> string \<Rightarrow> string \<Rightarrow> string \<Rightarrow> int \<Rightarrow>
     (go_err + File list) go" where
  "ReadOldestFiles srt D D' D'' path preffix suff n =
     go_bind (topNfilesSorted srt D D' path preffix suff n)
       (\<lambda>r. case r of
          Inl err \<Rightarrow> Inr (Inl err)
        | Inr fs \<Rightarrow> (if fs = [] then Inr (Inr []) else Inr (read_all D'' fs)))"

definition ReadOldestFile ::
    "file_info sorter \<Rightarrow> disk \<Rightarrow> disk \<Rightarrow> disk \<Rightarrow> string \<Rightarrow> string \<Rightarrow> string \<Rightarrow>
     (go_err + (bytes \<times> string) option) go" where
  "ReadOldestFile srt D D' D'' path preffix suff =
     go_bind (ReadOldestFiles srt D D' D'' path preffix suff 1)
       (\<lambda>r. case r of
          Inl err \<Rightarrow> Inr (Inl err)
        | Inr fs \<Rightarrow>
            (if fs = [] then Inr (Inr None)
             else go_bind (go_index fs 0) (\<lambda>f. Inr (Inr (Some (Bytes f, Name f))))))"

subsection \<open>Creating and writing\<close>

text \<open>
  The files on the disk are a map from paths to contents, and the operations of an open file are
  parameters: a write stores a prefix of the data and answers how much with an error when it is not
  all of it.
\<close>

type_synonym store = "string \<rightharpoonup> bytes"

record file_ops =
  fo_create :: "string \<Rightarrow> go_err option"
  fo_write :: "bytes \<Rightarrow> nat \<times> go_err option"
  fo_close :: "go_err option"

definition file_write :: "file_ops \<Rightarrow> string \<Rightarrow> bytes \<Rightarrow> store \<Rightarrow> go_err option \<times> store" where
  "file_write F p data st =
     (case fo_write F data of
        (k, None) \<Rightarrow> (None, st(p \<mapsto> the (st p) @ data))
      | (k, Some err) \<Rightarrow> (Some err, st(p \<mapsto> the (st p) @ take k data)))"

text \<open>
  \<^verbatim>\<open>bufio.Writer\<close> with its default buffer of 4096 bytes, on a fresh writer: a longer slice goes to
  the file at once, a shorter one stays in the buffer until \<open>Flush\<close>.
\<close>

definition bufio_Write ::
    "file_ops \<Rightarrow> string \<Rightarrow> bytes \<Rightarrow> store \<Rightarrow> go_err option \<times> bytes \<times> store" where
  "bufio_Write F p data st =
     (if 4096 < length data then (case file_write F p data st of (err, st') \<Rightarrow> (err, [], st'))
      else (None, data, st))"

definition bufio_Flush :: "file_ops \<Rightarrow> string \<Rightarrow> bytes \<Rightarrow> store \<Rightarrow> go_err option \<times> store" where
  "bufio_Flush F p buf st = (if buf = [] then (None, st) else file_write F p buf st)"

definition write_file :: "file_ops \<Rightarrow> string \<Rightarrow> bytes \<Rightarrow> store \<Rightarrow> go_err option \<times> store" where
  "write_file F file0 data st =
     (let p = filepath_Clean file0 in
      case fo_create F p of
        Some err \<Rightarrow> (errors_Join [Some (Err ''error creating file''), Some err], st)
      | None \<Rightarrow>
          (let st0 = st(p \<mapsto> []);
               (errr, st1) =
                 (case bufio_Write F p data st0 of
                    (Some err, buf, st1) \<Rightarrow>
                      (errors_Join [Some (Err ''error writing file''), Some err], st1)
                  | (None, buf, st1) \<Rightarrow>
                      (case bufio_Flush F p buf st1 of
                         (Some err, st2) \<Rightarrow>
                           (errors_Join [Some (Err ''error flushing data''), Some err], st2)
                       | (None, st2) \<Rightarrow> (None, st2)))
           in case fo_close F of
                None \<Rightarrow> (errr, st1)
              | Some err \<Rightarrow> (errors_Join [Some (Err ''error closing the file''), Some err], st1)))"

definition FileExists :: "disk \<Rightarrow> string \<Rightarrow> bool \<times> go_err option" where
  "FileExists D fullPath =
     (case D fullPath of
        Inl err \<Rightarrow> (if errors_Is (Some err) ErrNotExist then (False, None) else (False, Some err))
      | Inr nd \<Rightarrow> (True, None))"

definition Touch :: "disk \<Rightarrow> file_ops \<Rightarrow> string \<Rightarrow> store \<Rightarrow> go_err option \<times> store" where
  "Touch D F fullpath st =
     (case FileExists D fullpath of
        (e, Some err) \<Rightarrow> (Some err, st)
      | (e, None) \<Rightarrow> (if \<not> e then write_file F fullpath [] st else (None, st)))"

text \<open>\<^verbatim>\<open>base64.URLEncoding\<close>: three bytes are four digits, a rest is padded with \<open>=\<close>.\<close>

definition b64_digits :: string where
  "b64_digits = ''ABCDEFGHIJKLMNOPQRSTUVWXYZabcdefghijklmnopqrstuvwxyz0123456789-_''"

definition b64_digit :: "nat \<Rightarrow> char" where
  "b64_digit k = b64_digits ! (k mod 64)"

fun b64_encode :: "bytes \<Rightarrow> string" where
  "b64_encode (a # b # c # bs) =
     [b64_digit (unat a div 4), b64_digit (unat a mod 4 * 16 + unat b div 16),
      b64_digit (unat b mod 16 * 4 + unat c div 64), b64_digit (unat c mod 64)] @ b64_encode bs"
| "b64_encode [a, b] =
     [b64_digit (unat a div 4), b64_digit (unat a mod 4 * 16 + unat b div 16),
      b64_digit (unat b mod 16 * 4), CHR ''='']"
| "b64_encode [a] = [b64_digit (unat a div 4), b64_digit (unat a mod 4 * 16), CHR ''='', CHR ''='']"
| "b64_encode [] = []"

text \<open>\<open>rnd\<close> is what \<^verbatim>\<open>crypto/rand.Read\<close> answers: an error or the bytes it filled in.\<close>

definition randomFileName :: "go_err + bytes \<Rightarrow> string \<Rightarrow> string \<Rightarrow> string \<times> go_err option" where
  "randomFileName rnd preffix suff =
     (case rnd of
        Inl err \<Rightarrow> ([], Some err)
      | Inr rb \<Rightarrow> (preffix @ b64_encode rb @ suff, None))"

definition WriteToRandomFile ::
    "go_err + bytes \<Rightarrow> file_ops \<Rightarrow> string \<Rightarrow> string \<Rightarrow> string \<Rightarrow> bytes \<Rightarrow> store \<Rightarrow>
     (string \<times> go_err option) \<times> store" where
  "WriteToRandomFile rnd F path0 preffix suff data st =
     (let path = filepath_Clean path0 in
      case randomFileName rnd preffix suff of
        (fn, Some err) \<Rightarrow> (([], Some err), st)
      | (fn, None) \<Rightarrow>
          (let fullpath = filepath_Join [path, filepath_Clean fn] in
           case write_file F fullpath data st of
             (Some err, st') \<Rightarrow> (([], Some err), st')
           | (None, st') \<Rightarrow> ((fullpath, None), st')))"

subsection \<open>What the walk collects\<close>

text \<open>The entries below a node in the order of the walk, and the first directory that cannot be read.\<close>

fun tree_list :: "string \<Rightarrow> string \<Rightarrow> bool \<Rightarrow> node \<Rightarrow> DirEntry list"
  and entries_list :: "string \<Rightarrow> (string \<times> node) list \<Rightarrow> DirEntry list"
where
  "tree_list path name cached (FNode b t e) =
     [\<lparr>de_name = name, de_path = path, de_node = FNode b t e, de_cached = cached\<rparr>]"
| "tree_list path name cached (DNode t e es) =
     \<lparr>de_name = name, de_path = path, de_node = DNode t e es, de_cached = cached\<rparr>
     # entries_list path es"
| "entries_list path [] = []"
| "entries_list path ((n, c) # es) = tree_list (filepath_Join [path, n]) n False c @ entries_list path es"

fun readable :: "node \<Rightarrow> bool"
  and entries_readable :: "(string \<times> node) list \<Rightarrow> bool"
where
  "readable (FNode b t e) = True"
| "readable (DNode t e es) = (e = None \<and> entries_readable es)"
| "entries_readable [] = True"
| "entries_readable ((n, c) # es) = (readable c \<and> entries_readable es)"

definition listing :: "string \<Rightarrow> node \<Rightarrow> DirEntry list" where
  "listing path nd = tree_list path (filepath_Base path) True nd"

definition name_matches :: "string \<Rightarrow> string \<Rightarrow> DirEntry \<Rightarrow> bool" where
  "name_matches pre suf d = (strings_HasPrefix (de_name d) pre \<and> strings_HasSuffix (de_name d) suf)"

definition info_of :: "DirEntry \<Rightarrow> file_info" where
  "info_of d = \<lparr>fullName = de_path d, entry = d\<rparr>"

lemma fullName_info_of [simp]: "fullName (info_of d) = de_path d" "entry (info_of d) = d"
  by (simp_all add: info_of_def)

lemma walk_collect:
  "readable nd \<Longrightarrow>
   walk_node (collect_file pre suf) path name cached nd acc =
     (None, acc @ map info_of (filter (name_matches pre suf) (tree_list path name cached nd)))"
  "entries_readable es \<Longrightarrow>
   walk_entries (collect_file pre suf) path es acc =
     (None, acc @ map info_of (filter (name_matches pre suf) (entries_list path es)))"
  by (induction nd and es arbitrary: path name cached acc and path acc
        rule: readable_entries_readable.induct)
     (auto simp: collect_file_def name_matches_def info_of_def Let_def)

lemma walk_collect_entry:
  "readable nd \<Longrightarrow>
   walk_node (collect_entry flt) path name cached nd acc =
     (None, acc @ filter (\<lambda>d. flt (de_path d) d) (tree_list path name cached nd))"
  "entries_readable es \<Longrightarrow>
   walk_entries (collect_entry flt) path es acc =
     (None, acc @ filter (\<lambda>d. flt (de_path d) d) (entries_list path es))"
  by (induction nd and es arbitrary: path name cached acc and path acc
        rule: readable_entries_readable.induct)
     (auto simp: collect_entry_def Let_def)

text \<open>A directory that cannot be read makes the walk fail, whatever was collected.\<close>

lemma walk_unreadable:
  "\<not> readable nd \<Longrightarrow> fst (walk_node (collect_file pre suf) path name cached nd acc) \<noteq> None"
  "\<not> entries_readable es \<Longrightarrow> fst (walk_entries (collect_file pre suf) path es acc) \<noteq> None"
  by (induction nd and es arbitrary: path name cached acc and path acc
        rule: readable_entries_readable.induct)
     (auto simp: collect_file_def Let_def walk_collect split: option.splits prod.splits;
      metis fst_conv walk_collect)+

lemma filesSorted_walked:
  assumes "D path = Inr nd" and "readable nd"
  shows "filesSorted srt D D' path pre suf =
    go_bind (sort_by_mtime srt D' entry (map info_of (filter (name_matches pre suf) (listing path nd))))
      (\<lambda>fs. Inr (Inr fs))"
  using assms
  by (simp add: filesSorted_def os_IsNotExist_def filepath_WalkDir_def walk_collect listing_def)

subsection \<open>The oldest files\<close>

text \<open>A disk that does not change: asking for an entry again gives the node of the walk.\<close>

definition disk_steady :: "disk \<Rightarrow> string \<Rightarrow> node \<Rightarrow> bool" where
  "disk_steady D path nd \<longleftrightarrow>
     D path = Inr nd \<and> (\<forall>d \<in> set (listing path nd). D (de_path d) = Inr (de_node d))"

definition matching :: "string \<Rightarrow> string \<Rightarrow> string \<Rightarrow> node \<Rightarrow> DirEntry list" where
  "matching path pre suf nd = filter (name_matches pre suf) (listing path nd)"

definition seconds :: "DirEntry \<Rightarrow> int" where
  "seconds d = Unix (node_ModTime (de_node d))"

lemma steady_info:
  "disk_steady D path nd \<Longrightarrow> d \<in> set (listing path nd) \<Longrightarrow> de_Info D d = Inr (de_node d)"
  by (simp add: disk_steady_def de_Info_def)

lemma steady_unix:
  "disk_steady D path nd \<Longrightarrow> d \<in> set (listing path nd) \<Longrightarrow> unix_of D d = seconds d"
  by (simp add: unix_of_def steady_info seconds_def)

lemma sorterD: "sorter_ok srt \<Longrightarrow> mset (srt key xs) = mset xs"
  "sorter_ok srt \<Longrightarrow> sorted (map key (srt key xs))"
  "sorter_ok srt \<Longrightarrow> set (srt key xs) = set xs"
  "sorter_ok srt \<Longrightarrow> length (srt key xs) = length xs"
  by (auto simp: sorter_ok_def dest: mset_eq_setD)
     (metis sorter_ok_def size_mset)

lemma sorter_sort_key: "sorter_ok (\<lambda>key xs. sort_key key xs)"
  by (simp add: sorter_ok_def)

lemma filesSorted_steady:
  assumes "sorter_ok srt" and "disk_steady D path nd" and "readable nd"
  shows "\<exists>ds. filesSorted srt D D path pre suf = Inr (Inr (map info_of ds)) \<and>
              mset ds = mset (matching path pre suf nd) \<and> sorted (map seconds ds)"
proof -
  let ?m = "map info_of (matching path pre suf nd)"
  let ?r = "srt (\<lambda>x. unix_of D (entry x)) ?m"
  have D: "D path = Inr nd" using assms(2) by (simp add: disk_steady_def)
  have sub: "set (matching path pre suf nd) \<subseteq> set (listing path nd)"
    by (auto simp: matching_def)
  have no_err: "\<not> (\<exists>x \<in> set ?m. \<exists>e. de_Info D (entry x) = Inl e)"
    using steady_info [OF assms(2)] sub by fastforce
  have r: "filesSorted srt D D path pre suf = Inr (Inr ?r)"
    using no_err by (simp add: filesSorted_walked [where D = D, OF D assms(3)] sort_by_mtime_def matching_def)
  have set_r: "set ?r = set ?m" by (rule sorterD(3) [OF assms(1)])
  have rt: "?r = map info_of (map entry ?r)"
    unfolding map_map by (rule map_idI [symmetric]) (use set_r in auto)
  have "mset (map entry ?r) = image_mset entry (mset ?m)"
    using sorterD(1) [OF assms(1), of "\<lambda>x. unix_of D (entry x)" ?m] by simp
  then have ms: "mset (map entry ?r) = mset (matching path pre suf nd)"
    by (simp add: multiset.map_comp comp_def)
  have "map (\<lambda>x. unix_of D (entry x)) ?r = map seconds (map entry ?r)"
    using steady_unix [OF assms(2)] sub by (auto simp: set_r)
  then have "sorted (map seconds (map entry ?r))"
    using sorterD(2) [OF assms(1), of "\<lambda>x. unix_of D (entry x)" ?m] by metis
  then show ?thesis using r rt ms by metis
qed

lemma take_min: "take (min n (length xs)) xs = take n xs"
  by (simp add: min_def)

lemma topN_cases:
  assumes "filesSorted srt D D' path pre suf = Inr (Inr fs)" and "0 \<le> n"
  shows "topNfilesSorted srt D D' path pre suf n = Inr (Inr (take (nat n) fs))"
  using assms by (auto simp: topNfilesSorted_def go_slice_def)

lemma read_all_files:
  "(\<And>d. d \<in> set ds \<Longrightarrow> os_ReadFile D (de_path d) = Inr (f_bytes (de_node d))) \<Longrightarrow>
   read_all D (map info_of ds) =
     Inr (map (\<lambda>d. \<lparr>Name = de_path d, Bytes = f_bytes (de_node d)\<rparr>) ds)"
  by (induction ds) auto

definition plain_file :: "node \<Rightarrow> bool" where
  "plain_file nd \<longleftrightarrow> (\<exists>b t. nd = FNode b t None)"

text \<open>
  C23. \<open>ReadOldestFiles\<close> of \<open>n\<close> on a disk that does not change returns the names and contents of \<open>n\<close> of
  the files below \<open>path\<close> whose names match (all of them when there are fewer), the oldest ones in order of
  their modification second: every file it leaves out was modified in the same second as the last
  one returned or later.  It needs every match to be a file that can be read.
\<close>

theorem ReadOldestFiles_oldest:
  assumes "sorter_ok srt" and "disk_steady D path nd" and "readable nd" and "0 \<le> n"
    and "\<forall>d \<in> set (matching path pre suf nd). plain_file (de_node d)"
  shows "\<exists>chosen rest.
    ReadOldestFiles srt D D D path pre suf n =
      Inr (Inr (map (\<lambda>d. \<lparr>Name = de_path d, Bytes = f_bytes (de_node d)\<rparr>) chosen)) \<and>
    mset (chosen @ rest) = mset (matching path pre suf nd) \<and>
    length chosen = min (nat n) (length (matching path pre suf nd)) \<and>
    sorted (map seconds (chosen @ rest))"
proof -
  obtain ds where fs: "filesSorted srt D D path pre suf = Inr (Inr (map info_of ds))"
    and ms: "mset ds = mset (matching path pre suf nd)" and so: "sorted (map seconds ds)"
    using filesSorted_steady [OF assms(1-3)] by blast
  let ?c = "take (nat n) ds"
  have sub: "set ?c \<subseteq> set (matching path pre suf nd)"
    using ms by (metis mset_eq_setD set_take_subset)
  have rd: "os_ReadFile D (de_path d) = Inr (f_bytes (de_node d))" if "d \<in> set ?c" for d
  proof -
    have "d \<in> set (matching path pre suf nd)" using that sub by blast
    then have "plain_file (de_node d)" and "D (de_path d) = Inr (de_node d)"
      using assms(2,5) by (auto simp: disk_steady_def matching_def)
    then show ?thesis by (auto simp: os_ReadFile_def plain_file_def)
  qed
  have "ReadOldestFiles srt D D D path pre suf n =
      Inr (Inr (map (\<lambda>d. \<lparr>Name = de_path d, Bytes = f_bytes (de_node d)\<rparr>) ?c))"
    using topN_cases [OF fs assms(4)] read_all_files [of ?c D] rd
    by (simp add: ReadOldestFiles_def take_map)
  moreover have "length ds = length (matching path pre suf nd)" using ms by (metis size_mset)
  ultimately show ?thesis
    using ms so by (intro exI [of _ ?c] exI [of _ "drop (nat n) ds"]) (simp add: min.commute)
qed

definition demo_tree :: node where
  "demo_tree = DNode 0 None
     [(''a.log'', FNode [1] 7000000000 None), (''b.log'', FNode [2] 3000000000 None),
      (''c.txt'', FNode [3] 1000000000 None)]"

definition demo_disk :: disk where
  "demo_disk p =
     (if p = ''d'' then Inr demo_tree
      else if p = ''d/a.log'' then Inr (FNode [1] 7000000000 None)
      else if p = ''d/b.log'' then Inr (FNode [2] 3000000000 None)
      else if p = ''d/c.txt'' then Inr (FNode [3] 1000000000 None)
      else Inl ErrNotExist)"

lemma demo_listing: "listing ''d'' demo_tree =
  [\<lparr>de_name = ''d'', de_path = ''d'', de_node = demo_tree, de_cached = True\<rparr>,
   \<lparr>de_name = ''a.log'', de_path = ''d/a.log'', de_node = FNode [1] 7000000000 None, de_cached = False\<rparr>,
   \<lparr>de_name = ''b.log'', de_path = ''d/b.log'', de_node = FNode [2] 3000000000 None, de_cached = False\<rparr>,
   \<lparr>de_name = ''c.txt'', de_path = ''d/c.txt'', de_node = FNode [3] 1000000000 None, de_cached = False\<rparr>]"
  by (simp add: listing_def demo_tree_def filepath_Base_def filepath_Join_def filepath_Clean_def)

lemma demo_steady: "disk_steady demo_disk ''d'' demo_tree" "readable demo_tree"
  by (simp_all add: disk_steady_def demo_listing demo_disk_def) (simp add: demo_tree_def)

lemma demo_matching: "matching ''d'' [] ''.log'' demo_tree =
  [\<lparr>de_name = ''a.log'', de_path = ''d/a.log'', de_node = FNode [1] 7000000000 None, de_cached = False\<rparr>,
   \<lparr>de_name = ''b.log'', de_path = ''d/b.log'', de_node = FNode [2] 3000000000 None, de_cached = False\<rparr>]"
  by (simp add: matching_def demo_listing name_matches_def strings_HasPrefix_def strings_HasSuffix_def
      suffix_def)

theorem ReadOldestFiles_oldest_witness:
  "\<exists>chosen rest.
    ReadOldestFiles (\<lambda>key xs. sort_key key xs) demo_disk demo_disk demo_disk ''d'' [] ''.log'' 1 =
      Inr (Inr (map (\<lambda>d. \<lparr>Name = de_path d, Bytes = f_bytes (de_node d)\<rparr>) chosen)) \<and>
    mset (chosen @ rest) = mset (matching ''d'' [] ''.log'' demo_tree) \<and>
    length chosen = min (nat 1) (length (matching ''d'' [] ''.log'' demo_tree)) \<and>
    sorted (map seconds (chosen @ rest))"
  by (rule ReadOldestFiles_oldest [OF sorter_sort_key demo_steady])
     (simp_all add: demo_matching plain_file_def)

text \<open>
  \<open>ReadOldestFile\<close> does not look whether a match is a directory: when the oldest match is one, it
  fails, whatever files match besides it.
\<close>

theorem ReadOldestFile_directory:
  assumes "sorter_ok srt" and "disk_steady D path nd" and "readable nd"
    and "d \<in> set (matching path pre suf nd)" and "de_IsDir d"
    and "\<forall>d' \<in> set (matching path pre suf nd). d' \<noteq> d \<longrightarrow> seconds d < seconds d'"
  shows "ReadOldestFile srt D D D path pre suf = Inr (Inl (Err ''is a directory''))"
proof -
  obtain ds where fs: "filesSorted srt D D path pre suf = Inr (Inr (map info_of ds))"
    and ms: "mset ds = mset (matching path pre suf nd)" and so: "sorted (map seconds ds)"
    using filesSorted_steady [OF assms(1-3)] by blast
  have set_ds: "set ds = set (matching path pre suf nd)" using ms by (rule mset_eq_setD)
  obtain d0 ds' where ds: "ds = d0 # ds'" using set_ds assms(4) by (cases ds) auto
  have "seconds d0 \<le> seconds d" using so ds set_ds assms(4) by auto
  then have d0: "d0 = d" using assms(6) set_ds ds by force
  have "D (de_path d) = Inr (de_node d)"
    using assms(2,4) by (auto simp: disk_steady_def matching_def)
  moreover obtain t e es where "de_node d = DNode t e es"
    using assms(5) by (auto simp: de_IsDir_def elim: node_IsDir.elims)
  ultimately have "os_ReadFile D (de_path d) = Inl (Err ''is a directory'')"
    by (simp add: os_ReadFile_def)
  then show ?thesis
    using topN_cases [OF fs, of 1] by (simp add: ReadOldestFile_def ReadOldestFiles_def ds d0)
qed

definition demo_tree2 :: node where
  "demo_tree2 = DNode 9000000000 None
     [(''a.log'', FNode [1] 7000000000 None), (''old.log'', DNode 1000000000 None [])]"

definition demo_disk2 :: disk where
  "demo_disk2 p =
     (if p = ''d'' then Inr demo_tree2
      else if p = ''d/a.log'' then Inr (FNode [1] 7000000000 None)
      else if p = ''d/old.log'' then Inr (DNode 1000000000 None [])
      else Inl ErrNotExist)"

lemma demo_listing2: "listing ''d'' demo_tree2 =
  [\<lparr>de_name = ''d'', de_path = ''d'', de_node = demo_tree2, de_cached = True\<rparr>,
   \<lparr>de_name = ''a.log'', de_path = ''d/a.log'', de_node = FNode [1] 7000000000 None, de_cached = False\<rparr>,
   \<lparr>de_name = ''old.log'', de_path = ''d/old.log'', de_node = DNode 1000000000 None [],
    de_cached = False\<rparr>]"
  by (simp add: listing_def demo_tree2_def filepath_Base_def filepath_Join_def filepath_Clean_def)

lemma demo_steady2: "disk_steady demo_disk2 ''d'' demo_tree2" "readable demo_tree2"
  by (simp_all add: disk_steady_def demo_listing2 demo_disk2_def) (simp add: demo_tree2_def)

lemma demo_matching2: "matching ''d'' [] ''.log'' demo_tree2 =
  [\<lparr>de_name = ''a.log'', de_path = ''d/a.log'', de_node = FNode [1] 7000000000 None, de_cached = False\<rparr>,
   \<lparr>de_name = ''old.log'', de_path = ''d/old.log'', de_node = DNode 1000000000 None [],
    de_cached = False\<rparr>]"
  by (simp add: matching_def demo_listing2 name_matches_def strings_HasPrefix_def strings_HasSuffix_def
      suffix_def)

theorem ReadOldestFile_directory_witness:
  "ReadOldestFile (\<lambda>key xs. sort_key key xs) demo_disk2 demo_disk2 demo_disk2 ''d'' [] ''.log'' =
     Inr (Inl (Err ''is a directory''))"
  by (rule ReadOldestFile_directory [OF sorter_sort_key demo_steady2,
        of "\<lparr>de_name = ''old.log'', de_path = ''d/old.log'', de_node = DNode 1000000000 None [],
             de_cached = False\<rparr>"])
     (simp_all add: demo_matching2 de_IsDir_def seconds_def Unix_def)

text \<open>
  The panics of \<open>ReadOldestFiles\<close>: it dereferences a nil \<open>FileInfo\<close> when at least two entries match and
  one of them is gone when they are compared, and otherwise slices out of bounds when \<open>n\<close> is negative.
\<close>

theorem ReadOldestFiles_panics:
  assumes "sorter_ok srt" and "D path = Inr nd" and "readable nd"
  shows "ReadOldestFiles srt D D' D'' path pre suf n = Inl x \<longleftrightarrow>
    (let gone = 2 \<le> length (matching path pre suf nd) \<and>
                (\<exists>d \<in> set (matching path pre suf nd). \<exists>e. de_Info D' d = Inl e)
     in gone \<and> x = NilDereference \<or> \<not> gone \<and> n < 0 \<and> x = SliceBounds)"
proof -
  let ?m = "matching path pre suf nd"
  let ?r = "srt (\<lambda>x. unix_of D' (entry x)) (map info_of ?m)"
  show ?thesis
  proof (cases "2 \<le> length ?m \<and> (\<exists>d \<in> set ?m. \<exists>e. de_Info D' d = Inl e)")
    case True
    then show ?thesis
      by (auto simp: ReadOldestFiles_def topNfilesSorted_def sort_by_mtime_def matching_def
          filesSorted_walked [where D = D, OF assms(2,3)])
  next
    case False
    then have fs: "filesSorted srt D D' path pre suf = Inr (Inr ?r)"
      by (auto simp: filesSorted_walked [where D = D, OF assms(2,3)] sort_by_mtime_def matching_def)
    show ?thesis using False
      by (auto simp: fs ReadOldestFiles_def topNfilesSorted_def go_slice_def)
  qed
qed

text \<open>The disk after \<open>b.log\<close> was removed.\<close>

definition demo_disk_gone :: disk where
  "demo_disk_gone p = (if p = ''d/b.log'' then Inl ErrNotExist else demo_disk p)"

theorem ReadOldestFiles_panics_witness:
  "ReadOldestFiles (\<lambda>key xs. sort_key key xs) demo_disk demo_disk_gone demo_disk_gone ''d'' [] ''.log'' 1 =
     Inl NilDereference"
proof -
  have D: "demo_disk ''d'' = Inr demo_tree" using demo_steady by (simp add: disk_steady_def)
  show ?thesis
    unfolding ReadOldestFiles_panics [where D = demo_disk, OF sorter_sort_key D demo_steady(2)]
    by (simp add: demo_matching Let_def de_Info_def demo_disk_gone_def)
qed

subsection \<open>What writing leaves on the disk\<close>

text \<open>
  \<open>write\<close> answers no error exactly when the file could be created, took the data (an empty slice
  is never written) and could be closed; the file then holds exactly the data, and on every path
  no other file changes.  When closing fails too, its error replaces that of the write.
\<close>

theorem write_file_result:
  "(case write_file F f data st of (err, st') \<Rightarrow>
      (err = None \<longleftrightarrow>
         fo_create F (filepath_Clean f) = None \<and>
         (data = [] \<or> snd (fo_write F data) = None) \<and> fo_close F = None) \<and>
      (err = None \<longrightarrow> st' = st(filepath_Clean f \<mapsto> data)) \<and>
      (\<forall>q. q \<noteq> filepath_Clean f \<longrightarrow> st' q = st q) \<and>
      (fo_create F (filepath_Clean f) = None \<longrightarrow> fo_close F = Some e \<longrightarrow>
         err = Some (ErrJoin [Err ''error closing the file'', e])))"
  by (cases "fo_create F (filepath_Clean f)"; cases "fo_write F data"; cases "snd (fo_write F data)")
     (auto simp: write_file_def bufio_Write_def bufio_Flush_def file_write_def errors_Join_def Let_def
        fun_upd_twist split: option.splits)

definition disk_full :: file_ops where
  "disk_full = \<lparr>fo_create = (\<lambda>p. None), fo_write = (\<lambda>b. (1, Some (Err ''no space left''))),
                fo_close = Some (Err ''input/output error'')\<rparr>"

theorem write_file_result_witness:
  "(case write_file disk_full ''a//b'' [1, 2] Map.empty of (err, st') \<Rightarrow>
      err = Some (ErrJoin [Err ''error closing the file'', Err ''input/output error'']) \<and>
      st' ''c'' = None)"
  using write_file_result [of disk_full "''a//b''" "[1, 2]" Map.empty "Err ''input/output error''"]
  by (auto simp: disk_full_def filepath_Clean_def)

end
