(* ===== verification/Wasm.thy ===== *)
theory Wasm
  imports Bytes
begin

text \<open>
  \<^verbatim>\<open>pkg/runtimes/wasm\<close>: \<open>module.go\<close>, which runs a function of a WebAssembly module on a string, and
  \<open>runtime.go\<close>, which sets up the compilation cache.

  The module is not this program's code.  Its instance is a value of a type \<open>'g\<close> with the operations of
  wazero's \<^verbatim>\<open>api.Memory\<close> (\<open>memory\<close>), and an exported function takes 64-bit words and the instance and
  answers an error or its results, with the next instance.  A function that is not exported is nil.
  A panic is a value of \<open>go\<close>; the deferred calls that still run while it spreads are not shown.
\<close>

type_synonym u32 = "32 word"
type_synonym u64 = "64 word"

type_synonym 'g api_Function = "u64 list \<Rightarrow> 'g \<Rightarrow> (go_err + u64 list) \<times> 'g"

record 'g memory =
  mem_Read :: "u32 \<Rightarrow> u32 \<Rightarrow> 'g \<Rightarrow> bytes option"
  mem_Write :: "u32 \<Rightarrow> bytes \<Rightarrow> 'g \<Rightarrow> 'g option"
  mem_Close :: "'g \<Rightarrow> go_err option \<times> 'g"

type_synonym LogFn = "u32 \<Rightarrow> string \<Rightarrow> go_err option"

record 'g Module =
  mainFunc :: "'g api_Function option"
  initFunc :: "'g api_Function option"
  mallocFunc :: "'g api_Function option"
  freeFunc :: "'g api_Function option"
  logFn :: "LogFn option"
  module :: "'g memory"
  ver :: u32

definition TypeDefault :: u32 where "TypeDefault = 0"
definition TypeRust :: u32 where "TypeRust = 1"

record EventFuncResult =
  Errno :: u64
  StrPtrEncoded :: u64

text \<open>\<^verbatim>\<open>f.Call\<close> on a nil \<open>api.Function\<close> is a nil dereference.\<close>

definition call :: "'g api_Function option \<Rightarrow> u64 list \<Rightarrow> 'g \<Rightarrow> ((go_err + u64 list) \<times> 'g) go" where
  "call f params g = (case f of None \<Rightarrow> Inl NilDereference | Some fn \<Rightarrow> Inr (fn params g))"

definition free :: "'g Module \<Rightarrow> u64 \<Rightarrow> u64 \<Rightarrow> 'g \<Rightarrow> ((go_err + u64 list) \<times> 'g) go" where
  "free M offset sz g =
     (if ver M = TypeDefault then call (freeFunc M) [offset] g
      else call (freeFunc M) [offset, sz] g)"

text \<open>The deferred call: its error is only logged.\<close>

definition defer_free :: "'g Module \<Rightarrow> u64 \<Rightarrow> u64 \<Rightarrow> 'g \<Rightarrow> 'g go" where
  "defer_free M offset sz g = go_bind (free M offset sz g) (\<lambda>(r, g'). Inr g')"

definition err_range :: "string \<Rightarrow> go_err" where
  "err_range op = Err (''Memory.'' @ op @ '' out of range of memory size'')"

definition reserveMemoryForResult :: "'g Module \<Rightarrow> 'g \<Rightarrow> ((go_err + u64 \<times> u64) \<times> 'g) go" where
  "reserveMemoryForResult M g =
     (let eventDataSize = 16 in
      go_bind (call (mallocFunc M) [eventDataSize] g)
        (\<lambda>(r, g1). case r of
           Inl err \<Rightarrow> Inr (Inl err, g1)
         | Inr results \<Rightarrow>
             go_bind (go_index results 0) (\<lambda>eventDataPtr. Inr (Inr (eventDataPtr, eventDataSize), g1))))"

definition writeToMemory :: "'g Module \<Rightarrow> string \<Rightarrow> 'g \<Rightarrow> ((go_err + u64 \<times> u64) \<times> 'g) go" where
  "writeToMemory M data g =
     (let sz = word_of_nat (length data) in
      go_bind (call (mallocFunc M) [sz] g)
        (\<lambda>(r, g1). case r of
           Inl err \<Rightarrow> Inr (Inl err, g1)
         | Inr results \<Rightarrow>
             go_bind (go_index results 0)
               (\<lambda>offset. case mem_Write (module M) (ucast offset) (bytes_of data) g1 of
                  None \<Rightarrow> Inr (Inl (err_range ''Write''), g1)
                | Some g2 \<Rightarrow> Inr (Inr (offset, sz), g2))))"

text \<open>\<open>offset\<close> and \<open>size\<close> are the halves of the word; the block is freed when the offset is not 0.\<close>

definition getResultStr :: "'g Module \<Rightarrow> u64 \<Rightarrow> 'g \<Rightarrow> ((go_err + string) \<times> 'g) go" where
  "getResultStr M encodedPtr g =
     (let offset = (ucast (drop_bit 32 encodedPtr) :: u32);
          sz = (ucast encodedPtr :: u32);
          r = (case mem_Read (module M) offset sz g of
                 None \<Rightarrow> Inl (err_range ''Read'')
               | Some bs \<Rightarrow> Inr (string_of bs))
      in if offset \<noteq> 0 then go_bind (defer_free M (ucast offset) (ucast sz) g) (\<lambda>g'. Inr (r, g'))
         else Inr (r, g))"

unbundle bit_operations_syntax

text \<open>\<^verbatim>\<open>binary.Read\<close> of the struct: its two words, least significant byte first.\<close>

fun le_word :: "bytes \<Rightarrow> u64" where
  "le_word [] = 0"
| "le_word (b # bs) = ucast b OR push_bit 8 (le_word bs)"

definition binary_Read :: "bytes \<Rightarrow> go_err + EventFuncResult" where
  "binary_Read data =
     (if data = [] then Inl (Err ''EOF'')
      else if length data < 16 then Inl (Err ''unexpected EOF'')
      else Inr \<lparr>Errno = le_word (take 8 data), StrPtrEncoded = le_word (take 8 (drop 8 data))\<rparr>)"

definition getResult :: "'g Module \<Rightarrow> u64 \<Rightarrow> u64 \<Rightarrow> 'g \<Rightarrow> ((go_err + u64 \<times> string) \<times> 'g) go" where
  "getResult M offset sz g =
     (case mem_Read (module M) (ucast offset) (ucast sz) g of
        None \<Rightarrow> Inr (Inl (err_range ''Read''), g)
      | Some data \<Rightarrow>
          (case binary_Read data of
             Inl err \<Rightarrow> Inr (Inl err, g)
           | Inr result \<Rightarrow>
               go_bind (getResultStr M (StrPtrEncoded result) g)
                 (\<lambda>(r, g1). case r of
                    Inl err \<Rightarrow> Inr (Inl err, g1)
                  | Inr resultStr \<Rightarrow> Inr (Inr (Errno result, resultStr), g1))))"

text \<open>What \<open>Run\<close> does between the two deferred calls: the inner one frees the result's block.\<close>

definition Run_call :: "'g Module \<Rightarrow> u64 \<Rightarrow> u64 \<Rightarrow> u64 \<Rightarrow> u64 \<Rightarrow> 'g \<Rightarrow> ((go_err + u64 \<times> string) \<times> 'g) go"
where
  "Run_call M resultFuncPtr resultFuncSize strParamOffset strParamSize g =
     go_bind (call (mainFunc M) [resultFuncPtr, strParamOffset, strParamSize] g)
       (\<lambda>(r, g1). case r of
          Inl err \<Rightarrow> Inr (Inl err, g1)
        | Inr results \<Rightarrow> getResult M resultFuncPtr resultFuncSize g1)"

definition Run :: "'g Module \<Rightarrow> string \<Rightarrow> 'g \<Rightarrow> ((u64 \<times> string \<times> go_err option) \<times> 'g) go" where
  "Run M data g =
     go_bind (writeToMemory M data g)
       (\<lambda>(w, g1). case w of
          Inl err \<Rightarrow> Inr ((0, [], Some err), g1)
        | Inr (strParamOffset, strParamSize) \<Rightarrow>
            go_bind
              (go_bind (reserveMemoryForResult M g1)
                 (\<lambda>(v, g2). case v of
                    Inl err \<Rightarrow> Inr ((0, [], Some err), g2)
                  | Inr (resultFuncPtr, resultFuncSize) \<Rightarrow>
                      go_bind (Run_call M resultFuncPtr resultFuncSize strParamOffset strParamSize g2)
                        (\<lambda>(r, g3).
                           go_bind (defer_free M resultFuncPtr resultFuncSize g3)
                             (\<lambda>g4. case r of
                                Inl err \<Rightarrow> Inr ((0, [], Some err), g4)
                              | Inr (errno, res) \<Rightarrow> Inr ((errno, res, None), g4)))))
              (\<lambda>(ret, g5).
                 go_bind (defer_free M strParamOffset strParamSize g5) (\<lambda>g6. Inr (ret, g6))))"

text \<open>
  The host function \<open>log\<close>: the events are the lines written (\<^verbatim>\<open>zerolog.Level\<close> is an \<open>int8\<close>, so the level
  is cut to eight bits) and the call of the module's own log function.
\<close>

datatype log_event =
    Logged "8 word" string
  | LoggedError string
  | LogFnCalled u32 string

definition Module_log :: "'g Module \<Rightarrow> u32 \<Rightarrow> u32 \<Rightarrow> u32 \<Rightarrow> 'g \<Rightarrow> log_event list" where
  "Module_log M level offset byteCount g =
     (let r = mem_Read (module M) offset byteCount g;
          msg = (case r of None \<Rightarrow> [] | Some buf \<Rightarrow> string_of buf)
      in (if r = None then [LoggedError ''Memory.Read out of range''] else [])
         @ [Logged (ucast level) msg]
         @ (case logFn M of
              None \<Rightarrow> []
            | Some f \<Rightarrow> LogFnCalled level msg
                # (if f level msg \<noteq> None then [LoggedError ''error executing log function.''] else [])))"

definition Module_Close :: "'g Module \<Rightarrow> 'g \<Rightarrow> go_err option \<times> 'g" where
  "Module_Close M g = mem_Close (module M) g"

text \<open>
  \<open>NewModule\<close>.  wazero is a parameter: building the host module, instantiating WASI (which panics on an
  error) and the module itself, whose instance comes with its exported functions and its memory.
\<close>

record 'g wazero =
  wz_host_env :: "go_err option"
  wz_wasi :: "go_err option"
  wz_instantiate :: "bytes \<Rightarrow> go_err + 'g"
  wz_exported :: "bytes \<Rightarrow> string \<Rightarrow> 'g api_Function option"
  wz_memory :: "'g memory"

definition NewModule ::
    "'g wazero \<Rightarrow> bytes \<Rightarrow> string \<Rightarrow> LogFn option \<Rightarrow> (go_err + 'g Module \<times> 'g) go" where
  "NewModule W wasmModule mainFuncName logExt =
     (case wz_host_env W of
        Some err \<Rightarrow> Inr (Inl err)
      | None \<Rightarrow>
          (case wz_wasi W of
             Some err \<Rightarrow> Inl (PanicMsg ''wasi_snapshot_preview1'')
           | None \<Rightarrow>
               (case wz_instantiate W wasmModule of
                  Inl err \<Rightarrow> Inr (Inl err)
                | Inr g \<Rightarrow>
                    (let fn = wz_exported W wasmModule in
                     go_bind
                       (case fn ''ver'' of
                          None \<Rightarrow> Inr (TypeDefault, g)
                        | Some verFunc \<Rightarrow>
                            go_bind (call (Some verFunc) [] g)
                              (\<lambda>(v, g1). case v of
                                 Inl err \<Rightarrow> Inr (TypeDefault, g1)
                               | Inr vs \<Rightarrow> go_bind (go_index vs 0) (\<lambda>v0. Inr (ucast v0, g1))))
                       (\<lambda>(vr, g1).
                          let wm = \<lparr>mainFunc = fn mainFuncName, initFunc = fn ''init'',
                                    mallocFunc = fn ''malloc'', freeFunc = fn ''free'',
                                    logFn = logExt, module = wz_memory W, ver = vr\<rparr>
                          in go_bind (call (initFunc wm) [] g1)
                               (\<lambda>(r, g2). case r of
                                  Inl err \<Rightarrow> Inr (Inl err)
                                | Inr vs \<Rightarrow> Inr (Inr (wm, g2))))))))"

subsection \<open>The runtime\<close>

record 'c Runtime =
  cacheDir :: "string option"
  cache :: "'c option"

record 'c cache_env =
  ce_MkdirAll :: "string \<Rightarrow> go_err option"
  ce_MkdirTemp :: "string \<Rightarrow> string \<Rightarrow> go_err + string"
  ce_NewCache :: "string \<Rightarrow> go_err + 'c"
  ce_RemoveAll :: "string \<Rightarrow> go_err option"
  ce_CloseCache :: "'c \<Rightarrow> go_err option"

definition NewRuntimeWithCompilationCache ::
    "'c cache_env \<Rightarrow> string \<Rightarrow> 'c Runtime option \<times> go_err option" where
  "NewRuntimeWithCompilationCache E tempDir =
     (if tempDir = [] then (None, Some (Err ''directory cannot be empty''))
      else
        (case ce_MkdirAll E tempDir of
           Some err \<Rightarrow> (None, Some err)
         | None \<Rightarrow>
             (case ce_MkdirTemp E tempDir ''cache'' of
                Inl err \<Rightarrow> (None, Some err)
              | Inr dir \<Rightarrow>
                  (case ce_NewCache E dir of
                     Inl err \<Rightarrow> (let err = ce_RemoveAll E dir in (None, err))
                   | Inr c \<Rightarrow> (Some \<lparr>cacheDir = Some dir, cache = Some c\<rparr>, None)))))"

definition Runtime_Close :: "'c cache_env \<Rightarrow> 'c Runtime \<Rightarrow> go_err option" where
  "Runtime_Close E r =
     (let errs1 = (case cache r of
                     None \<Rightarrow> None
                   | Some c \<Rightarrow> (case ce_CloseCache E c of
                                 None \<Rightarrow> None
                               | Some err \<Rightarrow> errors_Join [None, Some err]))
      in case cacheDir r of
           None \<Rightarrow> errs1
         | Some d \<Rightarrow> (case ce_RemoveAll E d of
                       None \<Rightarrow> errs1
                     | Some err \<Rightarrow> errors_Join [errs1, Some err]))"

subsection \<open>Blocks of the guest's heap\<close>

text \<open>
  What the code relies on in a guest, as the C library documents \<open>malloc\<close> and \<open>free\<close>: \<open>live\<close> gives the
  allocated blocks of an instance and their sizes.  \<open>malloc\<close> traps and allocates nothing, or answers one
  offset that was not allocated; \<open>free\<close> (with the size as a second argument for a Rust module) releases
  an allocated block; writing into the memory allocates nothing.
\<close>

type_synonym 'g heap = "'g \<Rightarrow> u64 \<rightharpoonup> u64"

definition free_args :: "'g Module \<Rightarrow> u64 \<Rightarrow> u64 \<Rightarrow> u64 list" where
  "free_args M p n = (if ver M = TypeDefault then [p] else [p, n])"

definition alloc_ok :: "'g Module \<Rightarrow> 'g heap \<Rightarrow> bool" where
  "alloc_ok M live \<longleftrightarrow>
     (\<exists>mf. mallocFunc M = Some mf \<and>
        (\<forall>n g. case mf [n] g of
                 (Inl e, g') \<Rightarrow> live g' = live g
               | (Inr rs, g') \<Rightarrow> (\<exists>p. rs = [p] \<and> live g p = None \<and> live g' = (live g)(p \<mapsto> n)))) \<and>
     (\<exists>ff. freeFunc M = Some ff \<and>
        (\<forall>p n g. live g p = Some n \<longrightarrow>
           (\<exists>rs g'. ff (free_args M p n) g = (Inr rs, g') \<and> live g' = (live g)(p := None)))) \<and>
     (\<forall>off bs g g'. mem_Write (module M) off bs g = Some g' \<longrightarrow> live g' = live g)"

text \<open>
  The main function traps and allocates nothing, or stores in the block it is given an error number
  and the encoded offset and size of a block that it allocated for the result (offset 0: none).
\<close>

definition owns_result :: "'g heap \<Rightarrow> u64 \<Rightarrow> (u64 \<rightharpoonup> u64) \<Rightarrow> 'g \<Rightarrow> bool" where
  "owns_result live ptr l g' \<longleftrightarrow>
     (let off = (ucast (drop_bit 32 ptr) :: u32); n = (ucast ptr :: u32)
      in if off = 0 then live g' = l
         else l (ucast off) = None \<and> live g' = l(ucast off \<mapsto> ucast n))"

definition main_ok :: "'g Module \<Rightarrow> 'g heap \<Rightarrow> bool" where
  "main_ok M live \<longleftrightarrow>
     (\<exists>mf. mainFunc M = Some mf \<and>
        (\<forall>rp sp sz g. live g rp = Some 16 \<longrightarrow> live g sp = Some sz \<longrightarrow>
           (case mf [rp, sp, sz] g of
              (Inl e, g') \<Rightarrow> live g' = live g
            | (Inr rs, g') \<Rightarrow>
                (\<exists>data res. mem_Read (module M) (ucast rp) 16 g' = Some data \<and> binary_Read data = Inr res \<and>
                   owns_result live (StrPtrEncoded res) (live g) g'))))"

lemma defer_free_ok:
  assumes "alloc_ok M live" and "live g p = Some n"
  shows "\<exists>g'. defer_free M p n g = Inr g' \<and> live g' = (live g)(p := None)"
  using assms unfolding alloc_ok_def defer_free_def free_def call_def free_args_def
  by (auto split: if_splits) (metis (mono_tags, lifting) case_prod_conv go_bind_simps(2))+

lemma malloc_ok:
  fixes n :: u64
  assumes "alloc_ok M live"
  obtains (trap) e g' where "call (mallocFunc M) [n] g = Inr (Inl e, g')" and "live g' = live g"
  | (block) p g' where "call (mallocFunc M) [n] g = Inr (Inr [p], g')" and "live g p = None"
      and "live g' = (live g)(p \<mapsto> n)"
proof -
  obtain mf where mf: "mallocFunc M = Some mf" and all: "\<forall>n g. case mf [n] g of
      (Inl e, g') \<Rightarrow> live g' = live g
    | (Inr rs, g') \<Rightarrow> (\<exists>p. rs = [p] \<and> live g p = None \<and> live g' = (live g)(p \<mapsto> n))"
    using assms by (auto simp: alloc_ok_def)
  obtain r g' where r: "mf [n] g = (r, g')" by fastforce
  show ?thesis
  proof (cases r)
    case (Inl e)
    then show ?thesis using r spec [OF spec [OF all, of n], of g] by (intro trap [of e g']) (auto simp: call_def mf)
  next
    case (Inr rs)
    then obtain p where "rs = [p]" "live g p = None" "live g' = (live g)(p \<mapsto> n)"
      using r spec [OF spec [OF all, of n], of g] by auto
    then show ?thesis using r Inr by (intro block [of p g']) (auto simp: call_def mf)
  qed
qed

lemma reserve_ok:
  assumes "alloc_ok M live"
  obtains (trap) e g' where "reserveMemoryForResult M g = Inr (Inl e, g')" and "live g' = live g"
  | (block) p g' where "reserveMemoryForResult M g = Inr (Inr (p, 16), g')" and "live g p = None"
      and "live g' = (live g)(p \<mapsto> 16)"
  by (cases rule: malloc_ok [OF assms, of 16 g])
     (auto simp: reserveMemoryForResult_def go_index_def intro: trap block)

lemma write_ok:
  assumes "alloc_ok M live"
  obtains (trap) e g' where "writeToMemory M data g = Inr (Inl e, g')" and "live g' = live g"
      and "call (mallocFunc M) [word_of_nat (length data)] g = Inr (Inl e, g')"
  | (out_of_range) p g' where "writeToMemory M data g = Inr (Inl (err_range ''Write''), g')"
      and "live g' = (live g)(p \<mapsto> word_of_nat (length data))" and "live g p = None"
      and "call (mallocFunc M) [word_of_nat (length data)] g = Inr (Inr [p], g')"
      and "mem_Write (module M) (ucast p) (bytes_of data) g' = None"
  | (block) p g1 g' where "writeToMemory M data g = Inr (Inr (p, word_of_nat (length data)), g')"
      and "live g p = None" and "live g' = (live g)(p \<mapsto> word_of_nat (length data))"
      and "call (mallocFunc M) [word_of_nat (length data)] g = Inr (Inr [p], g1)"
      and "mem_Write (module M) (ucast p) (bytes_of data) g1 = Some g'"
proof -
  have w: "live g' = live g1" if "mem_Write (module M) off bs g1 = Some g'" for off bs g1 g'
    using assms that by (auto simp: alloc_ok_def)
  show ?thesis
    using assms
  proof (cases rule: malloc_ok [where n = "word_of_nat (length data)" and g = g])
    case (trap e g')
    then show ?thesis by (intro that(1) [of e g']) (auto simp: writeToMemory_def)
  next
    case (block p g1)
    show ?thesis
    proof (cases "mem_Write (module M) (ucast p) (bytes_of data) g1")
      case None
      then show ?thesis using block by (intro that(2) [of g1 p]) (auto simp: writeToMemory_def go_index_def)
    next
      case (Some g2)
      then show ?thesis using block w [OF Some]
        by (intro that(3) [of p g2 g1]) (auto simp: writeToMemory_def go_index_def)
    qed
  qed
qed

lemma getResultStr_ok:
  assumes "alloc_ok M live"
    and "owns_result live ptr l g"
  shows "\<exists>r g'. getResultStr M ptr g = Inr (r, g') \<and> live g' = l"
proof (cases "(ucast (drop_bit 32 ptr) :: u32) = 0")
  case True
  then show ?thesis using assms(2) by (auto simp: getResultStr_def owns_result_def Let_def)
next
  case False
  let ?off = "ucast (drop_bit 32 ptr) :: u32" and ?n = "ucast ptr :: u32"
  have l: "l (ucast ?off) = None" "live g = l(ucast ?off \<mapsto> ucast ?n)"
    using assms(2) False by (auto simp: owns_result_def Let_def)
  then obtain g' where g': "defer_free M (ucast ?off) (ucast ?n) g = Inr g'"
      "live g' = (live g)(ucast ?off := None)"
    using defer_free_ok [OF assms(1), of g "ucast ?off" "ucast ?n"] by auto
  then have "live g' = l" using l by (auto simp: fun_eq_iff)
  then show ?thesis using g'(1) False by (auto simp: getResultStr_def Let_def)
qed

lemma Run_call_ok:
  assumes "alloc_ok M live" and "main_ok M live" and "live g rp = Some 16" and "live g sp = Some sz"
  shows "\<exists>r g'. Run_call M rp 16 sp sz g = Inr (r, g') \<and> live g' = live g"
proof -
  obtain mf where mf: "mainFunc M = Some mf" and all: "\<forall>rp sp sz g. live g rp = Some 16 \<longrightarrow>
      live g sp = Some sz \<longrightarrow> (case mf [rp, sp, sz] g of
         (Inl e, g') \<Rightarrow> live g' = live g
       | (Inr rs, g') \<Rightarrow>
           (\<exists>data res. mem_Read (module M) (ucast rp) 16 g' = Some data \<and> binary_Read data = Inr res \<and>
              owns_result live (StrPtrEncoded res) (live g) g'))"
    using assms(2) unfolding main_ok_def by blast
  have main: "case mf [rp, sp, sz] g of
         (Inl e, g') \<Rightarrow> live g' = live g
       | (Inr rs, g') \<Rightarrow>
           (\<exists>data res. mem_Read (module M) (ucast rp) 16 g' = Some data \<and> binary_Read data = Inr res \<and>
              owns_result live (StrPtrEncoded res) (live g) g')"
    using all [rule_format, OF assms(3,4)] .
  obtain r g1 where r: "mf [rp, sp, sz] g = (r, g1)" by fastforce
  show ?thesis
  proof (cases r)
    case (Inl e)
    then show ?thesis using main r by (auto simp: Run_call_def call_def mf)
  next
    case (Inr rs)
    then obtain data res where d: "mem_Read (module M) (ucast rp) 16 g1 = Some data"
        "binary_Read data = Inr res"
      and enc: "owns_result live (StrPtrEncoded res) (live g) g1"
      using main r by auto
    obtain r' g' where "getResultStr M (StrPtrEncoded res) g1 = Inr (r', g')" and "live g' = live g"
      using getResultStr_ok [OF assms(1) enc] by blast
    then show ?thesis
      using r Inr d by (cases r') (auto simp: Run_call_def call_def mf getResult_def)
  qed
qed

text \<open>The block that a run loses: it was allocated for the argument, which then could not be written.\<close>

definition lost_block :: "'g Module \<Rightarrow> string \<Rightarrow> 'g \<Rightarrow> u64 option" where
  "lost_block M data g =
     (case call (mallocFunc M) [word_of_nat (length data)] g of
        Inr (Inr (p # ps), g1) \<Rightarrow>
          (if mem_Write (module M) (ucast p) (bytes_of data) g1 = None then Some p else None)
      | _ \<Rightarrow> None)"


subsection \<open>The result's encoding\<close>

text \<open>What a guest stores: two little-endian words, the second an offset above a size.\<close>

definition le_bytes :: "u64 \<Rightarrow> bytes" where
  "le_bytes w = map (\<lambda>i. ucast (drop_bit (8 * i) w)) [0..<8]"

definition encode_ptr :: "u32 \<Rightarrow> u32 \<Rightarrow> u64" where
  "encode_ptr off n = push_bit 32 (ucast off) OR ucast n"

lemma length_le_bytes [simp]: "length (le_bytes w) = 8"
  by (simp add: le_bytes_def)

lemma bit_le_word:
  "n < 64 \<Longrightarrow> bit (le_word bs) n \<longleftrightarrow> n div 8 < length bs \<and> bit (bs ! (n div 8)) (n mod 8)"
proof (induction bs arbitrary: n)
  case Nil
  then show ?case by simp
next
  case (Cons b bs)
  show ?case
  proof (cases "n < 8")
    case True
    then show ?thesis by (simp add: bit_simps)
  next
    case False
    then have "\<not> bit b n" using bit_imp_le_length [of b n] by auto
    moreover have "n div 8 = Suc ((n - 8) div 8)" and "n mod 8 = (n - 8) mod 8"
      using False by (simp_all add: le_div_geq le_mod_geq not_less)
    ultimately show ?thesis
      using Cons.prems False Cons.IH [of "n - 8"] by (simp add: bit_simps)
  qed
qed

lemma le_word_le_bytes [simp]: "le_word (le_bytes w) = w"
proof (rule bit_word_eqI)
  fix n
  assume n: "n < LENGTH(64)"
  then have "n div 8 < 8" by simp
  then show "bit (le_word (le_bytes w)) n = bit w n"
    using n by (simp add: bit_le_word le_bytes_def bit_simps mult.commute)
qed

lemma encode_ptr_offset [simp]: "(ucast (drop_bit 32 (encode_ptr off n)) :: u32) = off"
  by (rule bit_word_eqI) (auto simp: encode_ptr_def bit_simps dest: bit_imp_le_length)

lemma encode_ptr_size [simp]: "(ucast (encode_ptr off n) :: u32) = n"
  by (rule bit_word_eqI) (auto simp: encode_ptr_def bit_simps)

lemma binary_Read_le_bytes [simp]:
  "binary_Read (le_bytes e @ le_bytes p) = Inr \<lparr>Errno = e, StrPtrEncoded = p\<rparr>"
proof -
  have "le_bytes e \<noteq> []" by (metis length_le_bytes list.size(3) zero_neq_numeral)
  then show ?thesis by (simp add: binary_Read_def)
qed

text \<open>
  C20. \<open>getResult\<close> reads back what a guest stored: the error number and the text at the encoded offset
  and size, for all 64 bits of the number and all 32 of the offset and of the size.
\<close>

theorem getResult_roundtrip:
  assumes "mem_Read (module M) (ucast p) 16 g = Some (le_bytes errno @ le_bytes (encode_ptr off n))"
    and "mem_Read (module M) off n g = Some (bytes_of s)"
    and "off = 0 \<or> freeFunc M \<noteq> None"
  shows "\<exists>g'. getResult M p 16 g = Inr (Inr (errno, s), g')"
  using assms
  by (auto simp: getResult_def getResultStr_def defer_free_def free_def call_def Let_def
      split: prod.splits)

subsection \<open>A guest\<close>

text \<open>
  A guest on which the hypotheses hold: 64 KB of memory, a \<open>malloc\<close> that goes upwards, and a main
  function that answers 7 with a copy of its argument's block.
\<close>

record demo_guest =
  dg_mem :: "u32 \<Rightarrow> byte"
  dg_next :: u64
  dg_live :: "u64 \<rightharpoonup> u64"

definition dg_Read :: "u32 \<Rightarrow> u32 \<Rightarrow> demo_guest \<Rightarrow> bytes option" where
  "dg_Read off n g =
     (if unat off + unat n \<le> 65536
      then Some (map (\<lambda>i. dg_mem g (off + word_of_nat i)) [0..<unat n]) else None)"

definition dg_Write :: "u32 \<Rightarrow> bytes \<Rightarrow> demo_guest \<Rightarrow> demo_guest option" where
  "dg_Write off bs g =
     (if unat off + length bs \<le> 65536
      then Some (g\<lparr>dg_mem := (\<lambda>a. if unat off \<le> unat a \<and> unat a < unat off + length bs
                                then bs ! (unat a - unat off) else dg_mem g a)\<rparr>)
      else None)"

definition dg_malloc :: "demo_guest api_Function" where
  "dg_malloc ps g =
     (if length ps = 1 \<and> dg_live g (dg_next g) = None
      then (Inr [dg_next g], g\<lparr>dg_next := dg_next g + hd ps + 8,
                               dg_live := (dg_live g)(dg_next g \<mapsto> hd ps)\<rparr>)
      else (Inl (Err ''unreachable''), g))"

definition dg_free :: "demo_guest api_Function" where
  "dg_free ps g = (Inr [], g\<lparr>dg_live := (dg_live g)(hd ps := None)\<rparr>)"

text \<open>The main function traps where it cannot read, allocate or write.\<close>

definition dg_main :: "demo_guest api_Function" where
  "dg_main ps g =
     (case ps of
        [rp, sp, sz] \<Rightarrow>
          (let p = dg_next g; off = (ucast p :: u32); n = (ucast sz :: u32) in
           case dg_Read (ucast sp) n g of
             Some bs \<Rightarrow>
               (if dg_live g p = None \<and> off \<noteq> 0 \<and> ucast off = p
                then (case dg_Write off bs g of
                        Some g1 \<Rightarrow>
                          (case dg_Write (ucast rp) (le_bytes 7 @ le_bytes (encode_ptr off n)) g1 of
                             Some g2 \<Rightarrow> (Inr [], g2\<lparr>dg_next := p + sz + 8,
                                                  dg_live := (dg_live g)(p \<mapsto> ucast n)\<rparr>)
                           | None \<Rightarrow> (Inl (Err ''unreachable''), g))
                      | None \<Rightarrow> (Inl (Err ''unreachable''), g))
                else (Inl (Err ''unreachable''), g))
           | None \<Rightarrow> (Inl (Err ''unreachable''), g))
      | _ \<Rightarrow> (Inl (Err ''unreachable''), g))"

definition dg_module :: "demo_guest Module" where
  "dg_module = \<lparr>mainFunc = Some dg_main, initFunc = None, mallocFunc = Some dg_malloc,
     freeFunc = Some dg_free, logFn = None,
     module = \<lparr>mem_Read = dg_Read, mem_Write = dg_Write, mem_Close = (\<lambda>g. (None, g))\<rparr>, ver = 0\<rparr>"

definition dg_start :: demo_guest where
  "dg_start = \<lparr>dg_mem = (\<lambda>a. 0), dg_next = 1024, dg_live = Map.empty\<rparr>"

lemma dg_alloc_ok: "alloc_ok dg_module dg_live"
  by (auto simp: alloc_ok_def dg_module_def dg_malloc_def dg_free_def free_args_def dg_Write_def
      split: if_splits)

lemma dg_live_Write: "dg_Write off bs g = Some g' \<Longrightarrow> dg_live g' = dg_live g"
  by (auto simp: dg_Write_def split: if_splits)

lemma dg_Read_Write:
  assumes "dg_Write off bs g = Some g'" and "length bs = unat n"
  shows "dg_Read off n g' = Some bs"
proof -
  have b: "unat off + unat n \<le> 65536" using assms by (auto simp: dg_Write_def split: if_splits)
  have "unat (off + word_of_nat i) = unat off + i" if "i < unat n" for i
    using that b by (simp add: unat_word_ariths unat_of_nat)
  then have "map (\<lambda>i. dg_mem g' (off + word_of_nat i)) [0..<unat n] = bs"
    using assms by (intro nth_equalityI) (auto simp: dg_Write_def split: if_splits)
  then show ?thesis using b by (simp add: dg_Read_def)
qed

lemma dg_Read_cong: "dg_mem g = dg_mem h \<Longrightarrow> dg_Read off n g = dg_Read off n h"
  by (simp add: dg_Read_def)

lemma dg_main_cases:
  assumes "dg_main [rp, sp, sz] g = (Inr rs, g')"
  obtains p off n g1 g2 where "ucast off = p" and "dg_live g p = None" and "off \<noteq> (0 :: u32)"
    and "dg_Write (ucast rp) (le_bytes 7 @ le_bytes (encode_ptr off n)) g1 = Some g2"
    and "dg_mem g' = dg_mem g2" and "dg_live g' = (dg_live g)(p \<mapsto> ucast n)"
  using assms
  by (auto simp: dg_main_def Let_def split: option.splits if_splits)

lemma dg_main_ok: "main_ok dg_module dg_live"
proof -
  have mn: "mainFunc dg_module = Some dg_main" and rd: "mem_Read (module dg_module) = dg_Read"
    by (simp_all add: dg_module_def)
  have "case dg_main [rp, sp, sz] g of
      (Inl e, g') \<Rightarrow> dg_live g' = dg_live g
    | (Inr rs, g') \<Rightarrow>
        (\<exists>data res. mem_Read (module dg_module) (ucast rp) 16 g' = Some data \<and> binary_Read data = Inr res \<and>
           owns_result dg_live (StrPtrEncoded res) (dg_live g) g')" for rp sp sz g
  proof (cases "dg_main [rp, sp, sz] g")
    case (Pair r g')
    show ?thesis
    proof (cases r)
      case (Inl e)
      then have "g' = g" using Pair by (auto simp: dg_main_def Let_def split: option.splits if_splits)
      then show ?thesis using Pair Inl by simp
    next
      case (Inr rs)
      then obtain off n g1 g2 where w: "dg_live g (ucast off) = None" "off \<noteq> (0 :: u32)"
        "dg_Write (ucast rp) (le_bytes 7 @ le_bytes (encode_ptr off n)) g1 = Some g2"
        "dg_mem g' = dg_mem g2" "dg_live g' = (dg_live g)(ucast off \<mapsto> ucast n)"
        using Pair by (auto elim!: dg_main_cases)
      have "dg_Read (ucast rp) 16 g2 = Some (le_bytes 7 @ le_bytes (encode_ptr off n))"
        by (rule dg_Read_Write [OF w(3)]) simp
      then have "dg_Read (ucast rp) 16 g' = Some (le_bytes 7 @ le_bytes (encode_ptr off n))"
        using dg_Read_cong [OF w(4)] by simp
      then show ?thesis using Pair Inr w by (simp add: owns_result_def rd)
    qed
  qed
  note all = this
  show ?thesis
    unfolding main_ok_def
    by (intro exI [of _ dg_main] conjI mn allI impI all)
qed


definition dg_answer :: demo_guest where
  "dg_answer = the (dg_Write 512 (bytes_of ''ok'') (the (dg_Write 256 (le_bytes 7 @
     le_bytes (encode_ptr 512 2)) dg_start)))"

lemma dg_answer_reads:
  "dg_Read 512 2 dg_answer = Some (bytes_of ''ok'')"
  "dg_Read 256 16 dg_answer = Some (le_bytes 7 @ le_bytes (encode_ptr 512 2))"
proof -
  obtain g1 where g1: "dg_Write 256 (le_bytes 7 @ le_bytes (encode_ptr 512 2)) dg_start = Some g1"
    by (simp add: dg_Write_def)
  obtain g2 where g2: "dg_Write 512 (bytes_of ''ok'') g1 = Some g2" by (simp add: dg_Write_def)
  have a: "dg_answer = g2" by (simp add: dg_answer_def g1 g2)
  show "dg_Read 512 2 dg_answer = Some (bytes_of ''ok'')"
    unfolding a by (rule dg_Read_Write [OF g2]) (simp add: bytes_of_def)
  have "dg_Read 256 16 g1 = Some (le_bytes 7 @ le_bytes (encode_ptr 512 2))"
    by (rule dg_Read_Write [OF g1]) simp
  moreover
  have "dg_mem g2 (256 + word_of_nat i) = dg_mem g1 (256 + word_of_nat i)" if "i < 16" for i
    using g2 that by (auto simp: dg_Write_def unat_word_ariths unat_of_nat split: if_splits)
  then have "dg_Read 256 16 g2 = dg_Read 256 16 g1" by (simp add: dg_Read_def)
  ultimately show "dg_Read 256 16 dg_answer = Some (le_bytes 7 @ le_bytes (encode_ptr 512 2))"
    unfolding a by simp
qed

theorem getResult_roundtrip_witness:
  "\<exists>g'. getResult dg_module 256 16 dg_answer = Inr (Inr (7, ''ok''), g')"
  by (rule getResult_roundtrip [of dg_module 256 dg_answer 7 512 2])
     (simp_all add: dg_module_def dg_answer_reads)

subsection \<open>Setting up\<close>

text \<open>
  \<open>NewRuntimeWithCompilationCache\<close> answers a runtime or an error, except when the cache cannot be
  created in the new directory: then it answers the error of removing that directory, so that when the
  removal succeeds both results are nil.
\<close>

theorem NewRuntime_nil_nil:
  "NewRuntimeWithCompilationCache E tempDir = (None, None) \<longleftrightarrow>
     tempDir \<noteq> [] \<and> ce_MkdirAll E tempDir = None \<and>
     (\<exists>dir err. ce_MkdirTemp E tempDir ''cache'' = Inr dir \<and> ce_NewCache E dir = Inl err \<and>
        ce_RemoveAll E dir = None)"
  by (auto simp: NewRuntimeWithCompilationCache_def split: option.splits sum.splits)

text \<open>\<open>Close\<close> closes the cache and removes its directory, and reports both errors.\<close>

lemma Runtime_Close_None_iff:
  "Runtime_Close E r = None \<longleftrightarrow>
     (\<forall>c. cache r = Some c \<longrightarrow> ce_CloseCache E c = None) \<and>
     (\<forall>d. cacheDir r = Some d \<longrightarrow> ce_RemoveAll E d = None)"
  by (auto simp: Runtime_Close_def errors_Join_None_iff split: option.splits)

lemma Runtime_Close_reports:
  assumes "cache r = Some c" and "ce_CloseCache E c = Some err"
  shows "errors_Is (Runtime_Close E r) err"
  using assms by (auto simp: Runtime_Close_def errors_Join_def Let_def split: option.splits)

text \<open>
  A module that \<open>NewModule\<close> answers has been initialised by its \<open>init\<close>, its version is the first
  result of \<open>ver\<close> cut to 32 bits (the default when \<open>ver\<close> is missing or fails), and its functions are
  the exported ones.  A module without \<open>init\<close> makes it panic.
\<close>

lemma NewModule_init:
  assumes "wz_host_env W = None" and "wz_wasi W = None" and "wz_instantiate W code = Inr g"
    and "wz_exported W code ''ver'' = Some vf" and "vf [] g = (Inr (v # vs), g1)"
  shows "NewModule W code fn lg =
    (case wz_exported W code ''init'' of
       None \<Rightarrow> Inl NilDereference
     | Some f \<Rightarrow>
         (case f [] g1 of
            (Inl err, g2) \<Rightarrow> Inr (Inl err)
          | (Inr rs, g2) \<Rightarrow>
              Inr (Inr (\<lparr>mainFunc = wz_exported W code fn, initFunc = Some f,
                         mallocFunc = wz_exported W code ''malloc'',
                         freeFunc = wz_exported W code ''free'', logFn = lg,
                         module = wz_memory W, ver = ucast v\<rparr>, g2))))"
  using assms
  by (simp add: NewModule_def call_def go_index_def Let_def split: option.split prod.split sum.split)

end
