(* ===== verification/Conn.thy ===== *)
theory Conn
  imports Env
begin

text \<open>
  \<^verbatim>\<open>pkg/service/conn.go\<close>: how services dial and listen, over the network (\<open>NetConn\<close>) or in memory
  (\<open>BufConn\<close>), and \<^verbatim>\<open>pkg/service/errors.go\<close>.  A \<^verbatim>\<open>bufconn.Listener\<close> is a number; the heap of listeners
  (\<open>bufs\<close>) knows the next number and which of them are closed.  \<^verbatim>\<open>grpc.Dial\<close> and \<^verbatim>\<open>net.Listen\<close> are
  parameters: they answer an error or not for the address and the way to reach it.  The methods that
  hold the mutex from beginning to end are single steps; a listener's \<open>Close\<close> answers nil.
\<close>

definition ErrEmptyAddress :: go_err where
  "ErrEmptyAddress = Err ''address is empty''"

definition ErrOtelStack :: go_err where
  "ErrOtelStack = Err ''obs.New: error initializing otel stack''"

definition ErrEnvLoading :: go_err where
  "ErrEnvLoading = Err ''env.Populate: error initializing otel stack''"

definition ErrNotHealthy :: "string \<Rightarrow> go_err" where
  "ErrNotHealthy addr = Err (''service at '' @ addr @ '' not healthy'')"

subsection \<open>Connections\<close>

datatype creds = CredsTLS12 | CredsInsecure

datatype via = ViaNet creds | ViaBuf nat int

record ClientConn =
  cc_target :: string
  cc_via :: via

datatype dialer = NetConn | BufDialer

definition NetConn_Dial ::
    "(string \<Rightarrow> via \<Rightarrow> go_err option) \<Rightarrow> string \<Rightarrow> go_err + ClientConn" where
  "NetConn_Dial rpc_Dial addr =
     (if addr = [] then Inl ErrEmptyAddress
      else
        (let creds = (if strings_HasSuffix addr '':443'' then CredsTLS12 else CredsInsecure) in
         case rpc_Dial addr (ViaNet creds) of
           Some err \<Rightarrow> Inl err
         | None \<Rightarrow> Inr \<lparr>cc_target = addr, cc_via = ViaNet creds\<rparr>))"

definition NetConn_Listen ::
    "(string \<Rightarrow> string \<Rightarrow> go_err + 'l) \<Rightarrow> string \<Rightarrow> go_err + 'l" where
  "NetConn_Listen net_Listen addr = net_Listen ''tcp'' addr"

text \<open>An HTTP client is its timeout in nanoseconds and its transport.\<close>

datatype transport = DefaultTransport | BufTransport nat

record http_client =
  hc_timeout :: int
  hc_transport :: transport

definition NetConn_NewHTTPClient :: "string \<Rightarrow> go_err + http_client" where
  "NetConn_NewHTTPClient addr = Inr \<lparr>hc_timeout = 1000000000, hc_transport = DefaultTransport\<rparr>"

record 'd GrpcConn =
  Dialer :: 'd
  Listener :: 'd

record ('b, 'l) HTTPConn =
  ClientBuilder :: "'b option"
  HListener :: "'l option"

definition ClientBuilderOrDefault :: "'b \<Rightarrow> ('b, 'l) HTTPConn \<Rightarrow> 'b" where
  "ClientBuilderOrDefault DefaultHTTPClient s =
     (case ClientBuilder s of None \<Rightarrow> DefaultHTTPClient | Some b \<Rightarrow> b)"

definition ListenerOrDefault :: "'l \<Rightarrow> ('b, 'l) HTTPConn \<Rightarrow> 'l" where
  "ListenerOrDefault DefaultHTTPListener s =
     (case HListener s of None \<Rightarrow> DefaultHTTPListener | Some l \<Rightarrow> l)"

subsection \<open>\<open>BufConn\<close>\<close>

record bufs =
  b_next :: nat
  b_closed :: "nat list"

record BufConn =
  timeout :: int
  listeners :: "string \<rightharpoonup> nat"
  heap :: bufs

definition NewBufConnWithTimeout :: "int \<Rightarrow> bufs \<Rightarrow> BufConn" where
  "NewBufConnWithTimeout t h = \<lparr>timeout = t, listeners = Map.empty, heap = h\<rparr>"

text \<open>\<^verbatim>\<open>*env.Duration("dial.timeout")\<close> has no default: an unset variable is a nil dereference.\<close>

definition NewBufConn :: "(string \<Rightarrow> go_err + int) \<Rightarrow> environ \<Rightarrow> bufs \<Rightarrow> BufConn go" where
  "NewBufConn ParseDuration e h =
     (case env_Duration ParseDuration ''dial.timeout'' [] e of
        None \<Rightarrow> Inl NilDereference
      | Some t \<Rightarrow> Inr (NewBufConnWithTimeout t h))"

definition listenerFor :: "string \<Rightarrow> BufConn \<Rightarrow> nat \<times> BufConn" where
  "listenerFor addr t =
     (case listeners t addr of
        Some l \<Rightarrow> (l, t)
      | None \<Rightarrow>
          (let l = b_next (heap t) in
           (l, t\<lparr>listeners := (listeners t)(addr \<mapsto> l), heap := (heap t)\<lparr>b_next := Suc l\<rparr>\<rparr>)))"

definition BufConn_Dial ::
    "(string \<Rightarrow> via \<Rightarrow> go_err option) \<Rightarrow> string \<Rightarrow> BufConn \<Rightarrow> (go_err + ClientConn) \<times> BufConn" where
  "BufConn_Dial rpc_Dial addr t =
     (if addr = [] then (Inl ErrEmptyAddress, t)
      else
        (let (l, t') = listenerFor addr t; v = ViaBuf l (timeout t) in
         case rpc_Dial addr v of
           Some err \<Rightarrow> (Inl err, t')
         | None \<Rightarrow> (Inr \<lparr>cc_target = addr, cc_via = v\<rparr>, t')))"

definition BufConn_Listen :: "string \<Rightarrow> BufConn \<Rightarrow> (go_err + nat) \<times> BufConn" where
  "BufConn_Listen addr t =
     (if addr = [] then (Inl ErrEmptyAddress, t)
      else (let (l, t') = listenerFor addr t in (Inr l, t')))"

definition BufConn_Tranport :: "string \<Rightarrow> BufConn \<Rightarrow> (go_err + transport) \<times> BufConn" where
  "BufConn_Tranport addr t =
     (if addr = [] then (Inl ErrEmptyAddress, t)
      else (let (l, t') = listenerFor addr t in (Inr (BufTransport l), t')))"

definition BufConn_NewHTTPClient :: "string \<Rightarrow> BufConn \<Rightarrow> (go_err + http_client) \<times> BufConn" where
  "BufConn_NewHTTPClient addr t =
     (case BufConn_Tranport addr t of
        (Inl err, t') \<Rightarrow> (Inl err, t')
      | (Inr tr, t') \<Rightarrow> (Inr \<lparr>hc_timeout = timeout t, hc_transport = tr\<rparr>, t'))"

definition close_listener :: "nat \<Rightarrow> bufs \<Rightarrow> bufs" where
  "close_listener l h = h\<lparr>b_closed := l # b_closed h\<rparr>"

text \<open>\<open>CloseAll\<close> ranges over the map in the order \<open>ks\<close>, without the mutex.\<close>

definition BufConn_CloseAll :: "string list \<Rightarrow> BufConn \<Rightarrow> BufConn" where
  "BufConn_CloseAll ks t = t\<lparr>heap := fold (\<lambda>k. close_listener (the (listeners t k))) ks (heap t)\<rparr>"

definition BufConn_Close :: "string \<Rightarrow> BufConn \<Rightarrow> go_err option \<times> BufConn" where
  "BufConn_Close addr t =
     (case listeners t addr of
        Some l \<Rightarrow> (None, t\<lparr>listeners := (listeners t)(addr := None), heap := close_listener l (heap t)\<rparr>)
      | None \<Rightarrow> (None, t))"

subsection \<open>Who meets whom\<close>

text \<open>The calls a test or a service makes between a \<open>Listen\<close> and a \<open>Dial\<close>.\<close>

datatype buf_op =
    OpDial string
  | OpListen string
  | OpHTTPClient string
  | OpClose string
  | OpCloseAll "string list"

definition buf_run :: "(string \<Rightarrow> via \<Rightarrow> go_err option) \<Rightarrow> buf_op \<Rightarrow> BufConn \<Rightarrow> BufConn" where
  "buf_run rpc_Dial c t =
     (case c of
        OpDial a \<Rightarrow> snd (BufConn_Dial rpc_Dial a t)
      | OpListen a \<Rightarrow> snd (BufConn_Listen a t)
      | OpHTTPClient a \<Rightarrow> snd (BufConn_NewHTTPClient a t)
      | OpClose a \<Rightarrow> snd (BufConn_Close a t)
      | OpCloseAll ks \<Rightarrow> BufConn_CloseAll ks t)"

text \<open>Every listener in the map was made before the next one, and no two addresses share one.\<close>

definition buf_ok :: "BufConn \<Rightarrow> bool" where
  "buf_ok t \<longleftrightarrow>
     (\<forall>a l. listeners t a = Some l \<longrightarrow> l < b_next (heap t)) \<and> inj_on (listeners t) (dom (listeners t))"

text \<open>\<open>l\<close> is in the map under \<open>a\<close>, or (after it was closed) nowhere and never again.\<close>

definition held :: "string \<Rightarrow> nat \<Rightarrow> bool \<Rightarrow> BufConn \<Rightarrow> bool" where
  "held a l gone t \<longleftrightarrow>
     buf_ok t \<and> l < b_next (heap t) \<and>
     (if gone then \<forall>b. listeners t b \<noteq> Some l else listeners t a = Some l)"

lemma b_next_fold_close [simp]:
  "b_next (fold (\<lambda>k. close_listener (f k)) ks h) = b_next h"
  by (induction ks arbitrary: h) (simp_all add: close_listener_def)

lemma b_closed_fold:
  "set (b_closed (fold (\<lambda>k. close_listener (f k)) ks h)) = f ` set ks \<union> set (b_closed h)"
  by (induction ks arbitrary: h) (auto simp: close_listener_def)

lemma buf_ok_new: "buf_ok (NewBufConnWithTimeout t h)"
  by (simp add: buf_ok_def NewBufConnWithTimeout_def)

lemma buf_ok_inj: "buf_ok t \<Longrightarrow> listeners t a = Some l \<Longrightarrow> listeners t b = Some l \<Longrightarrow> a = b"
  unfolding buf_ok_def inj_on_def by (metis domI)

lemma held_listenerFor: "held a l g t \<Longrightarrow> held a l g (snd (listenerFor b t))"
  by (cases "listeners t b")
     (auto simp: held_def buf_ok_def listenerFor_def Let_def inj_on_def split: if_splits;
      metis less_irrefl domI less_SucI)+

lemma ok_listenerFor: "buf_ok t \<Longrightarrow> buf_ok (snd (listenerFor b t))"
  by (cases "listeners t b")
     (auto simp: buf_ok_def listenerFor_def Let_def inj_on_def; metis less_irrefl domI less_SucI)+

lemma held_run:
  assumes "held a l g t"
  shows "held a l (g \<or> c = OpClose a) (buf_run D c t)"
proof (cases c)
  case (OpDial b)
  have "buf_run D c t = t \<or> buf_run D c t = snd (listenerFor b t)"
    by (simp add: OpDial buf_run_def BufConn_Dial_def Let_def split: prod.split option.split)
  then show ?thesis using assms held_listenerFor [OF assms, of b] OpDial by auto
next
  case (OpListen b)
  have "buf_run D c t = t \<or> buf_run D c t = snd (listenerFor b t)"
    by (simp add: OpListen buf_run_def BufConn_Listen_def split: prod.split)
  then show ?thesis using assms held_listenerFor [OF assms, of b] OpListen by auto
next
  case (OpHTTPClient b)
  have "buf_run D c t = t \<or> buf_run D c t = snd (listenerFor b t)"
    by (simp add: OpHTTPClient buf_run_def BufConn_NewHTTPClient_def BufConn_Tranport_def
        split: prod.split sum.split)
  then show ?thesis using assms held_listenerFor [OF assms, of b] OpHTTPClient by auto
next
  case (OpClose b)
  show ?thesis
  proof (cases "listeners t b")
    case None
    then show ?thesis using assms OpClose
      by (auto simp: buf_run_def BufConn_Close_def held_def split: if_splits)
  next
    case (Some m)
    let ?t = "t\<lparr>listeners := (listeners t)(b := None), heap := close_listener m (heap t)\<rparr>"
    have t': "buf_run D c t = ?t" using OpClose Some by (simp add: buf_run_def BufConn_Close_def)
    have ok: "buf_ok t" using assms by (simp add: held_def)
    have "buf_ok ?t"
      using ok by (auto simp: buf_ok_def close_listener_def inj_on_def split: if_splits)
    moreover have "listeners t a' \<noteq> Some m" if "a' \<noteq> b" for a'
      using buf_ok_inj [OF ok _ Some] that by blast
    ultimately show ?thesis
      using assms OpClose Some unfolding t' by (cases "b = a"; cases g) (auto simp: held_def close_listener_def)
  qed
next
  case (OpCloseAll ks)
  then show ?thesis using assms
    by (simp add: buf_run_def BufConn_CloseAll_def held_def buf_ok_def)
qed

lemma held_runs: "held a l g t \<Longrightarrow> held a l (g \<or> OpClose a \<in> set cs) (fold (buf_run D) cs t)"
proof (induction cs arbitrary: g t)
  case (Cons c cs)
  have "(g \<or> c = OpClose a) \<or> OpClose a \<in> set cs \<longleftrightarrow> g \<or> OpClose a \<in> set (c # cs)" by auto
  then show ?case using Cons.IH [OF held_run [OF Cons.prems, of c D]] by simp
qed simp

lemma held_listens:
  assumes "buf_ok t" and "a \<noteq> []" and "BufConn_Listen a t = (Inr l, t')"
  shows "held a l False t'"
  using assms
  by (cases "listeners t a")
     (auto simp: BufConn_Listen_def held_def listenerFor_def buf_ok_def Let_def inj_on_def
        split: if_splits; metis less_irrefl domI less_SucI)+

text \<open>
  C32. The in-memory network connects by address: a \<open>Dial\<close> goes to the listener that an earlier \<open>Listen\<close>
  answered, whatever was dialed, listened to or closed in between, exactly when it is for the same
  address and that address was not closed since.
\<close>

theorem BufConn_rendezvous:
  assumes "buf_ok t" and "a \<noteq> []" and "b \<noteq> []" and "BufConn_Listen a t = (Inr l, t1)"
    and "BufConn_Dial D b (fold (buf_run D) cs t1) = (Inr conn, t2)"
  shows "cc_via conn = ViaBuf l (timeout (fold (buf_run D) cs t1)) \<longleftrightarrow> a = b \<and> OpClose a \<notin> set cs"
proof -
  let ?t = "fold (buf_run D) cs t1"
  have h: "held a l (OpClose a \<in> set cs) ?t"
    using held_runs [OF held_listens [OF assms(1,2,4)]] by simp
  obtain m t3 where m: "listenerFor b ?t = (m, t3)" by fastforce
  have via: "cc_via conn = ViaBuf m (timeout ?t)"
    using assms(3,5) m by (auto simp: BufConn_Dial_def Let_def split: option.splits)
  have "m = l \<longleftrightarrow> a = b \<and> OpClose a \<notin> set cs"
  proof (cases "listeners ?t b")
    case None
    then show ?thesis using h m by (auto simp: listenerFor_def held_def Let_def split: if_splits)
  next
    case (Some k)
    then have "m = k" using m by (simp add: listenerFor_def)
    then show ?thesis using h Some by (auto simp: held_def dest: buf_ok_inj split: if_splits)
  qed
  then show ?thesis by (simp add: via)
qed

definition demo_net :: BufConn where
  "demo_net = NewBufConnWithTimeout 5 \<lparr>b_next = 0, b_closed = []\<rparr>"

theorem BufConn_rendezvous_witness:
  "cc_via \<lparr>cc_target = ''a'', cc_via = ViaBuf 0 5\<rparr> =
     ViaBuf 0 (timeout (fold (buf_run (\<lambda>a v. None)) [OpListen ''b'', OpClose ''b'']
                          (snd (BufConn_Listen ''a'' demo_net)))) \<longleftrightarrow>
   ''a'' = ''a'' \<and> OpClose ''a'' \<notin> set [OpListen ''b'', OpClose ''b'']"
  by (rule BufConn_rendezvous [of demo_net "''a''" "''a''" 0 _ "\<lambda>a v. None" _ _
        "fold (buf_run (\<lambda>a v. None)) [OpListen ''b'', OpClose ''b'']
           (snd (BufConn_Listen ''a'' demo_net))"])
     (simp_all add: demo_net_def buf_ok_def BufConn_Listen_def BufConn_Dial_def BufConn_Close_def
        buf_run_def listenerFor_def NewBufConnWithTimeout_def)

text \<open>
  \<open>CloseAll\<close> closes every listener but leaves them in the map: the next \<open>Listen\<close> on an address
  that was in use answers its closed listener, where after \<open>Close\<close> it answers a new one.
\<close>

theorem CloseAll_keeps_listeners:
  assumes "range_order (listeners t) ks" and "listeners t a = Some l" and "a \<noteq> []"
  shows "fst (BufConn_Listen a (BufConn_CloseAll ks t)) = Inr l \<and>
         l \<in> set (b_closed (heap (BufConn_CloseAll ks t))) \<and>
         fst (BufConn_Listen a (snd (BufConn_Close a t))) = Inr (b_next (heap t))"
proof -
  have "a \<in> set ks" using assms(1,2) by (auto simp: range_order_def)
  then show ?thesis
    using assms(2,3)
    by (simp add: BufConn_CloseAll_def BufConn_Listen_def BufConn_Close_def listenerFor_def
        close_listener_def b_closed_fold image_iff Let_def bexI [of _ a])
qed

theorem CloseAll_keeps_listeners_witness:
  "fst (BufConn_Listen ''a'' (BufConn_CloseAll [''a''] (snd (BufConn_Listen ''a'' demo_net)))) = Inr 0 \<and>
   0 \<in> set (b_closed (heap (BufConn_CloseAll [''a''] (snd (BufConn_Listen ''a'' demo_net))))) \<and>
   fst (BufConn_Listen ''a'' (snd (BufConn_Close ''a'' (snd (BufConn_Listen ''a'' demo_net))))) =
     Inr (b_next (heap (snd (BufConn_Listen ''a'' demo_net))))"
  by (rule CloseAll_keeps_listeners)
     (simp_all add: demo_net_def range_order_def BufConn_Listen_def listenerFor_def
        NewBufConnWithTimeout_def)

text \<open>The network dialer uses TLS exactly for port 443.\<close>

lemma NetConn_Dial_tls:
  assumes "NetConn_Dial D addr = Inr conn"
  shows "cc_via conn = ViaNet CredsTLS12 \<longleftrightarrow> strings_HasSuffix addr '':443''"
  using assms by (auto simp: NetConn_Dial_def Let_def split: if_splits option.splits)

end
