(* ===== verification/Service_Base.thy ===== *)
theory Service_Base
  imports Conn
begin

text \<open>
  \<^verbatim>\<open>pkg/service/base.go\<close>: what every service shares, its metadata, its status and its context.

  A context is the list of the numbers of the \<^verbatim>\<open>WithCancel\<close> calls it comes from, the last first; it is
  done when one of them is cancelled.  Services keep pointers to a base, so bases live in a store; the
  world holds it together with the cancelled numbers.  The providers of \<^verbatim>\<open>obs.New\<close> and the writer of
  \<^verbatim>\<open>log.NewWithContext\<close> are parameters.  Times are numbers, 0 is the zero time.
\<close>

datatype Kind = GRPC | HTTP | Process

datatype StatusType = StatusStopped | StatusStarted | StatusStarting

fun StatusType_String :: "StatusType \<Rightarrow> string" where
  "StatusType_String StatusStopped = ''stopped''"
| "StatusType_String StatusStarted = ''started''"
| "StatusType_String StatusStarting = ''starting''"

type_synonym ctx = "nat list"

record Data =
  md_Name :: string
  md_Version :: string
  md_Kind :: string
  md_BuildID :: "string option"
  md_Env :: "string \<rightharpoonup> string"

definition no_Data :: Data where
  "no_Data = \<lparr>md_Name = [], md_Version = [], md_Kind = [], md_BuildID = None, md_Env = Map.empty\<rparr>"

record 'o Base =
  Meta :: Data
  startTime :: int
  status :: StatusType
  Addr :: string
  OtelProvider :: "'o option"
  Ctx :: ctx
  cancel :: nat
  logWriter :: "nat option"

record 'o world =
  w_bases :: "nat \<Rightarrow> 'o Base"
  w_nbases :: nat
  w_nctx :: nat
  w_cancelled :: "nat set"

definition ctx_done :: "'o world \<Rightarrow> ctx \<Rightarrow> bool" where
  "ctx_done w c \<longleftrightarrow> (\<exists>n \<in> set c. n \<in> w_cancelled w)"

definition WithCancel :: "ctx \<Rightarrow> 'o world \<Rightarrow> ctx \<times> nat \<times> 'o world" where
  "WithCancel parent w = (w_nctx w # parent, w_nctx w, w\<lparr>w_nctx := Suc (w_nctx w)\<rparr>)"

definition do_cancel :: "nat \<Rightarrow> 'o world \<Rightarrow> 'o world" where
  "do_cancel n w = w\<lparr>w_cancelled := insert n (w_cancelled w)\<rparr>"

definition upd_base :: "nat \<Rightarrow> ('o Base \<Rightarrow> 'o Base) \<Rightarrow> 'o world \<Rightarrow> 'o world" where
  "upd_base i f w = w\<lparr>w_bases := (w_bases w)(i := f (w_bases w i))\<rparr>"

subsection \<open>Options\<close>

datatype 'o Option =
    WithMetaInfo Data
  | WithName string
  | WithKind string
  | WithAddr string
  | WithOtelProvider 'o
  | WithContext ctx

fun apply_Option :: "'o Option \<Rightarrow> 'o Base \<Rightarrow> 'o Base" where
  "apply_Option (WithMetaInfo m) s = s\<lparr>Meta := m\<rparr>"
| "apply_Option (WithName n) s = s\<lparr>Meta := (Meta s)\<lparr>md_Name := n\<rparr>\<rparr>"
| "apply_Option (WithKind k) s = s\<lparr>Meta := (Meta s)\<lparr>md_Kind := k\<rparr>\<rparr>"
| "apply_Option (WithAddr a) s = s\<lparr>Addr := a\<rparr>"
| "apply_Option (WithOtelProvider p) s = s\<lparr>OtelProvider := Some p\<rparr>"
| "apply_Option (WithContext c) s = s\<lparr>Ctx := c\<rparr>"

text \<open>
  \<open>New\<close> answers the number of the new base.  When the observability stack fails, the base is lost: its
  context is not cancelled, its log writer stays open.
\<close>

record 'o base_env =
  be_obs_New :: "ctx \<Rightarrow> Data \<Rightarrow> go_err + 'o"
  be_log_writer :: "string \<Rightarrow> nat option"

definition Base_New :: "'o base_env \<Rightarrow> 'o Option list \<Rightarrow> 'o world \<Rightarrow> (go_err + nat) \<times> 'o world" where
  "Base_New E opts w =
     (let svc0 = \<lparr>Meta = no_Data, startTime = 0, status = StatusStarting, Addr = [],
                  OtelProvider = None, Ctx = [], cancel = 0, logWriter = None\<rparr>;
          svc1 = fold apply_Option opts svc0;
          (c, n, w1) = WithCancel (Ctx svc1) w;
          svc2 = svc1\<lparr>Ctx := c, cancel := n, logWriter := be_log_writer E (md_Name (Meta svc1))\<rparr>
      in case be_obs_New E c (Meta svc2) of
           Inl err \<Rightarrow> (Inl (ErrJoin [err, ErrOtelStack]), w1)
         | Inr o' \<Rightarrow>
             (let i = w_nbases w1; svc3 = svc2\<lparr>OtelProvider := Some o'\<rparr>
              in (Inr i, (upd_base i (\<lambda>_. svc3) w1)\<lparr>w_nbases := Suc i\<rparr>)))"

subsection \<open>Methods\<close>

definition Base_Stop :: "nat \<Rightarrow> 'o world \<Rightarrow> 'o world" where
  "Base_Stop i w = do_cancel (cancel (w_bases w i)) w"

definition SetStartedNow :: "int \<Rightarrow> nat \<Rightarrow> 'o world \<Rightarrow> 'o world" where
  "SetStartedNow now i = upd_base i (\<lambda>s. s\<lparr>status := StatusStarted, startTime := now\<rparr>)"

definition Base_Status :: "nat \<Rightarrow> 'o world \<Rightarrow> string \<times> int" where
  "Base_Status i w = (StatusType_String (status (w_bases w i)), startTime (w_bases w i))"

definition Base_Stopped :: "nat \<Rightarrow> 'o world \<Rightarrow> 'o world" where
  "Base_Stopped i = upd_base i (\<lambda>s. s\<lparr>status := StatusStopped, startTime := 0\<rparr>)"

definition Base_Name :: "nat \<Rightarrow> 'o world \<Rightarrow> string" where
  "Base_Name i w = md_Name (Meta (w_bases w i))"

definition Metadata :: "nat \<Rightarrow> 'o world \<Rightarrow> (string \<rightharpoonup> string)" where
  "Metadata i w =
     [''Name'' \<mapsto> md_Name (Meta (w_bases w i)), ''Addr'' \<mapsto> Addr (w_bases w i),
      ''Kind'' \<mapsto> md_Kind (Meta (w_bases w i))]"

text \<open>
  What \<open>waitForDoneAndEndTheWorld\<close> does once the context is done: the provider is shut down, the log
  writer is closed (a failure of either is only reported), and the base's own context is cancelled.
\<close>

datatype end_event = ProviderShutdown | WriterClosed nat

definition waitForDoneAndEndTheWorld ::
    "nat \<Rightarrow> 'o world \<Rightarrow> (end_event list \<times> 'o world) option" where
  "waitForDoneAndEndTheWorld i w =
     (let s = w_bases w i in
      if \<not> ctx_done w (Ctx s) then None
      else Some (ProviderShutdown # (case logWriter s of None \<Rightarrow> [] | Some f \<Rightarrow> [WriterClosed f]),
                 do_cancel (cancel s) w))"

subsection \<open>\<^verbatim>\<open>context.go\<close>\<close>

text \<open>
  \<^verbatim>\<open>pkg/context\<close>: a context that ends with the process.  \<^verbatim>\<open>signal.NotifyContext\<close> makes a child with a
  cancel function of its own, which the first of the given signals calls; a \<open>notify\<close> is the table of who
  waits for which signal.
\<close>

datatype signal = SIGINT | SIGTERM | SIGHUP

type_synonym notify = "(signal \<times> nat) list"

definition NotifyContext ::
    "signal list \<Rightarrow> ctx \<Rightarrow> notify \<Rightarrow> 'o world \<Rightarrow> ctx \<times> nat \<times> notify \<times> 'o world" where
  "NotifyContext sigs parent tab w =
     (let (c, n, w1) = WithCancel parent w in (c, n, map (\<lambda>s. (s, n)) sigs @ tab, w1))"

definition ForEndSignals :: "notify \<Rightarrow> 'o world \<Rightarrow> ctx \<times> nat \<times> notify \<times> 'o world" where
  "ForEndSignals tab w = NotifyContext [SIGINT, SIGTERM] [] tab w"

definition ForEndSignalsWithContext ::
    "ctx \<Rightarrow> notify \<Rightarrow> 'o world \<Rightarrow> ctx \<times> nat \<times> notify \<times> 'o world" where
  "ForEndSignalsWithContext c tab w = NotifyContext [SIGINT, SIGTERM] c tab w"

definition deliver :: "signal \<Rightarrow> notify \<Rightarrow> 'o world \<Rightarrow> 'o world" where
  "deliver sig tab w = fold (\<lambda>(s, n). if s = sig then do_cancel n else id) tab w"

lemma deliver_cancelled: "w_cancelled (deliver sig tab w) = w_cancelled w \<union> {n. (sig, n) \<in> set tab}"
proof -
  have "w_cancelled (fold (\<lambda>(s, n). if s = sig then do_cancel n else id) tab w) =
      w_cancelled w \<union> {n. (sig, n) \<in> set tab}"
    by (induction tab arbitrary: w) (auto simp: do_cancel_def split: if_splits)
  then show ?thesis by (simp add: deliver_def)
qed

text \<open>An interrupt ends the context and every context made below it; a signal not asked for does not.\<close>

lemma end_signals:
  assumes "ForEndSignalsWithContext p tab w = (c, n, tab', w')"
  shows "sig \<in> {SIGINT, SIGTERM} \<Longrightarrow> ctx_done (deliver sig tab' w0) (cs @ c)"
    and "n \<notin> w_cancelled w0 \<Longrightarrow> n \<notin> snd ` set tab \<Longrightarrow> n \<notin> w_cancelled (deliver SIGHUP tab' w0)"
proof -
  have t: "tab' = [(SIGINT, n), (SIGTERM, n)] @ tab" and c: "c = n # p"
    using assms by (auto simp: ForEndSignalsWithContext_def NotifyContext_def WithCancel_def)
  show "sig \<in> {SIGINT, SIGTERM} \<Longrightarrow> ctx_done (deliver sig tab' w0) (cs @ c)"
    by (auto simp: t c ctx_done_def deliver_cancelled)
  assume "n \<notin> w_cancelled w0" "n \<notin> snd ` set tab"
  then show "n \<notin> w_cancelled (deliver SIGHUP tab' w0)"
    by (force simp: t deliver_cancelled)
qed

subsection \<open>Facts about the world\<close>

lemma upd_base_sel [simp]:
  "w_bases (upd_base i f w) j = (if j = i then f (w_bases w i) else w_bases w j)"
  "w_nbases (upd_base i f w) = w_nbases w" "w_nctx (upd_base i f w) = w_nctx w"
  "w_cancelled (upd_base i f w) = w_cancelled w"
  by (simp_all add: upd_base_def)

lemma do_cancel_sel [simp]:
  "w_bases (do_cancel n w) = w_bases w" "w_nbases (do_cancel n w) = w_nbases w"
  "w_nctx (do_cancel n w) = w_nctx w" "w_cancelled (do_cancel n w) = insert n (w_cancelled w)"
  by (simp_all add: do_cancel_def)

lemma ctx_done_mono: "ctx_done w c \<Longrightarrow> w_cancelled w \<subseteq> w_cancelled w' \<Longrightarrow> ctx_done w' c"
  by (auto simp: ctx_done_def)

lemma ctx_done_parent: "ctx_done w c \<Longrightarrow> ctx_done w (n # c)"
  by (auto simp: ctx_done_def)

lemma ctx_done_upd_base [simp]: "ctx_done (upd_base i f w) c = ctx_done w c"
  by (simp add: ctx_done_def)

lemma ctx_done_do_cancel: "ctx_done (do_cancel n w) c \<longleftrightarrow> n \<in> set c \<or> ctx_done w c"
  by (auto simp: ctx_done_def)

text \<open>Every base's context comes from its own cancel function; numbers not yet given are not cancelled.\<close>

definition world_ok :: "'o world \<Rightarrow> bool" where
  "world_ok w \<longleftrightarrow>
     (\<forall>i < w_nbases w. (\<exists>p. Ctx (w_bases w i) = cancel (w_bases w i) # p) \<and>
        (\<forall>n \<in> set (Ctx (w_bases w i)). n < w_nctx w)) \<and>
     (\<forall>n \<in> w_cancelled w. n < w_nctx w)"

lemma world_ok_New:
  assumes "world_ok w" and "Base_New E opts w = (r, w')"
    and "\<forall>n \<in> set (Ctx (fold apply_Option opts
           \<lparr>Meta = no_Data, startTime = 0, status = StatusStarting, Addr = [],
            OtelProvider = None, Ctx = [], cancel = 0, logWriter = None\<rparr>)). n < w_nctx w"
  shows "world_ok w'"
  using assms
  by (auto simp: world_ok_def Base_New_def WithCancel_def Let_def less_Suc_eq split: sum.splits)

text \<open>
  Stopping a base ends its own context and those made from it, and no others.
\<close>

lemma Base_Stop_scope:
  "ctx_done (Base_Stop i w) c \<longleftrightarrow> cancel (w_bases w i) \<in> set c \<or> ctx_done w c"
  by (simp add: Base_Stop_def ctx_done_do_cancel)

lemma Base_Stop_own: "world_ok w \<Longrightarrow> i < w_nbases w \<Longrightarrow> ctx_done (Base_Stop i w) (Ctx (w_bases w i))"
  by (auto simp: Base_Stop_scope world_ok_def)

lemma ctx_done_status [simp]:
  "ctx_done (SetStartedNow now i w) c = ctx_done w c" "ctx_done (Base_Stopped i w) c = ctx_done w c"
  by (simp_all add: SetStartedNow_def Base_Stopped_def)

text \<open>A base that \<open>New\<close> makes: a new number, and a context that is a new child of the options' context.\<close>

lemma Base_New_ok:
  assumes "Base_New E opts w = (Inr b, w')"
  defines "p \<equiv> Ctx (fold apply_Option opts
           \<lparr>Meta = no_Data, startTime = 0, status = StatusStarting, Addr = [],
            OtelProvider = None, Ctx = [], cancel = 0, logWriter = None\<rparr>)"
  shows "b = w_nbases w" and "Ctx (w_bases w' b) = w_nctx w # p" and "cancel (w_bases w' b) = w_nctx w"
    and "w_nctx w' = Suc (w_nctx w)" and "w_nbases w' = Suc b" and "w_cancelled w' = w_cancelled w"
    and "\<And>i. i \<noteq> b \<Longrightarrow> w_bases w' i = w_bases w i"
  using assms(1)
  by (auto simp: Base_New_def WithCancel_def Let_def p_def split: sum.splits)

end
