(* ===== verification/Http_Service.thy ===== *)
theory Http_Service
  imports Service_Base
begin

text \<open>
  \<^verbatim>\<open>pkg/service/http\<close>: the options, \<open>New\<close> and \<open>NewSidecar\<close> of \<open>service.go\<close>, its handlers, and
  \<open>recover.go\<close>, \<open>utils.go\<close>, \<open>health.go\<close>, \<open>container.go\<close>.  Serving is in \<open>Service_Run\<close>.

  A gorilla router is the list of what was registered on it.  A \<^verbatim>\<open>ResponseWriter\<close> is its headers, what
  it has sent (the status with the headers of that moment) and its body.  JSON encoding is a parameter.
\<close>

subsection \<open>\<open>utils.go\<close> and \<open>recover.go\<close>\<close>

record response =
  rw_header :: "string \<rightharpoonup> string"
  rw_sent :: "(int \<times> (string \<rightharpoonup> string)) option"
  rw_body :: string

definition new_response :: response where
  "new_response = \<lparr>rw_header = Map.empty, rw_sent = None, rw_body = []\<rparr>"

definition Header_Set :: "string \<Rightarrow> string \<Rightarrow> response \<Rightarrow> response" where
  "Header_Set k v w = w\<lparr>rw_header := (rw_header w)(k \<mapsto> v)\<rparr>"

text \<open>Only the first call has an effect; a write sends the status 200 when none was sent.\<close>

definition WriteHeader :: "int \<Rightarrow> response \<Rightarrow> response" where
  "WriteHeader code w = (if rw_sent w = None then w\<lparr>rw_sent := Some (code, rw_header w)\<rparr> else w)"

definition rw_Write :: "string \<Rightarrow> response \<Rightarrow> response" where
  "rw_Write s w = (let w1 = WriteHeader 200 w in w1\<lparr>rw_body := rw_body w1 @ s\<rparr>)"

text \<open>\<^verbatim>\<open>fmt.Fprintf\<close> of a format without a percent sign and one string argument.\<close>

definition Fprintf_extra :: "string \<Rightarrow> string \<Rightarrow> string" where
  "Fprintf_extra format a = format @ ''%!(EXTRA string='' @ a @ '')''"

definition WriteJSONBody ::
    "('b \<Rightarrow> go_err + string) \<Rightarrow> 'b \<Rightarrow> int \<Rightarrow> string \<Rightarrow> response \<Rightarrow> response" where
  "WriteJSONBody encode body stat altError w =
     (let w1 = Header_Set ''Content-Type'' ''application/json'' w in
      case encode body of
        Inl err \<Rightarrow>
          rw_Write (Fprintf_extra altError ''Internal Server Error'') (WriteHeader 500 w1)
      | Inr b \<Rightarrow>
          (let w2 = WriteHeader stat w1;
               w3 = Header_Set ''Content-Type'' ''application/JSON'' w2
           in if b = [] then w3 else rw_Write b w3))"

text \<open>A handler changes the response and returns or panics.\<close>

type_synonym handler = "response \<Rightarrow> go_panic option \<times> response"

datatype StackLevel = StackLevelSimple | StackLevelFullStack

text \<open>The middleware; the log lines of \<open>logError\<close> are not modelled apart from its stack.\<close>

definition TryToRecover :: "handler \<Rightarrow> handler" where
  "TryToRecover next w =
     (case next w of
        (None, w1) \<Rightarrow> (None, w1)
      | (Some p, w1) \<Rightarrow> (None, WriteHeader 500 w1))"

text \<open>
  \<open>GetLoggingMiddleware\<close> of \<^verbatim>\<open>obs/logs.go\<close>: a debug line with the request's URI, and the next handler with
  the response as it is.
\<close>

definition GetLoggingMiddleware :: "string \<Rightarrow> handler \<Rightarrow> response \<Rightarrow> string list \<times> go_panic option \<times> response" where
  "GetLoggingMiddleware RequestURI next w = ([RequestURI], next w)"

definition strings_Contains :: "string \<Rightarrow> string \<Rightarrow> bool" where
  "strings_Contains s sub = sublist sub s"

text \<open>\<open>walk\<close> over the names of the functions on the stack, from the caller of \<^verbatim>\<open>panic\<close> handling outwards.\<close>

fun walk_loop :: "string list \<Rightarrow> bool \<Rightarrow> string list \<Rightarrow> string list" where
  "walk_loop [] skip frames = frames"
| "walk_loop (f # fs) skip frames =
     (if \<not> length frames < 40 then frames
      else if skip then
        (if \<not> strings_Contains f ''panic'' then walk_loop fs False frames
         else walk_loop fs skip frames)
      else walk_loop fs skip (frames @ [f]))"

definition walk :: "string list \<Rightarrow> string list" where
  "walk callers = walk_loop (take 40 callers) True []"

fun format_frames :: "string list \<Rightarrow> string \<Rightarrow> string" where
  "format_frames [] result = result"
| "format_frames (ff # f) result = format_frames f (result @ CHR 0x0A # ff)"

definition logError_stack :: "StackLevel \<Rightarrow> string \<Rightarrow> string list \<Rightarrow> string" where
  "logError_stack lvl debug_Stack callers =
     (if lvl = StackLevelSimple then debug_Stack else format_frames (walk callers) [])"

subsection \<open>Options\<close>

datatype route_item =
    UseRecover StackLevel | UseLogging | UseOtel string
  | HandleMeta | HandleHealth | HandleDebug | HandleOther string

type_synonym router = "route_item list"

type_synonym initRoutesFn = "ctx \<Rightarrow> router \<Rightarrow> go_err option \<times> router"
type_synonym HealthCheckFn = "ctx \<Rightarrow> (string \<rightharpoonup> string) \<times> go_err option"
type_synonym 'o ServiceStatus = "'o world \<Rightarrow> string \<times> int"

record 'l commonOptions =
  healthChkFn :: "HealthCheckFn option"
  stackLevelOnError :: StackLevel
  listener :: 'l
  initRoutes :: initRoutesFn

record 'l ServiceOptions =
  so_addr :: string
  so_common :: "'l commonOptions"
  so_ctx :: ctx
  so_name :: string
  so_profilingEnabled :: bool
  so_pprofAddr :: "string option"

record ('o, 'l) SidecarOptions =
  sc_common :: "'l commonOptions"
  sc_base :: "nat option"
  sc_disableOtel :: bool
  sc_serviceStatusFn :: "'o ServiceStatus option"

datatype 'l common_option =
    WithInitRoutesFn initRoutesFn
  | WithStackLevelOnError StackLevel
  | WithHealthCheckFn "HealthCheckFn option"
  | WithListener "'l option"

datatype 'l service_option =
    ServiceCommon "'l common_option"
  | HWithAddr string
  | HWithName string
  | HWithContext ctx
  | WithProfilingEnabled bool
  | WithPProfAddr "string option"

datatype ('o, 'l) sidecar_option =
    SidecarCommon "'l common_option"
  | WithPrimaryService nat
  | WithDisableOtel bool
  | WithServiceStatusFn "'o ServiceStatus"

definition set_initRoutesFn :: "initRoutesFn \<Rightarrow> 'l commonOptions \<Rightarrow> 'l commonOptions" where
  [simp]: "set_initRoutesFn i c = c\<lparr>initRoutes := i\<rparr>"

definition set_profilingEnabled :: "bool \<Rightarrow> 'l ServiceOptions \<Rightarrow> 'l ServiceOptions" where
  [simp]: "set_profilingEnabled p s = s\<lparr>so_profilingEnabled := p\<rparr>"

definition set_pprofAddr :: "string option \<Rightarrow> 'l ServiceOptions \<Rightarrow> 'l ServiceOptions" where
  [simp]: "set_pprofAddr a s = s\<lparr>so_pprofAddr := a\<rparr>"

fun apply_common :: "'l common_option \<Rightarrow> 'l commonOptions \<Rightarrow> 'l commonOptions" where
  "apply_common (WithInitRoutesFn i) c = set_initRoutesFn i c"
| "apply_common (WithStackLevelOnError lvl) c = c\<lparr>stackLevelOnError := lvl\<rparr>"
| "apply_common (WithHealthCheckFn h) c = c\<lparr>healthChkFn := h\<rparr>"
| "apply_common (WithListener None) c = c"
| "apply_common (WithListener (Some l)) c = c\<lparr>listener := l\<rparr>"

fun apply_service :: "'l service_option \<Rightarrow> 'l ServiceOptions \<Rightarrow> 'l ServiceOptions" where
  "apply_service (ServiceCommon c) s = s\<lparr>so_common := apply_common c (so_common s)\<rparr>"
| "apply_service (HWithAddr a) s = s\<lparr>so_addr := a\<rparr>"
| "apply_service (HWithName n) s = s\<lparr>so_name := n\<rparr>"
| "apply_service (HWithContext c) s = s\<lparr>so_ctx := c\<rparr>"
| "apply_service (WithProfilingEnabled p) s = set_profilingEnabled p s"
| "apply_service (WithPProfAddr a) s = set_pprofAddr a s"

fun apply_sidecar :: "('o, 'l) sidecar_option \<Rightarrow> ('o, 'l) SidecarOptions \<Rightarrow> ('o, 'l) SidecarOptions" where
  "apply_sidecar (SidecarCommon c) s = s\<lparr>sc_common := apply_common c (sc_common s)\<rparr>"
| "apply_sidecar (WithPrimaryService b) s = s\<lparr>sc_base := Some b\<rparr>"
| "apply_sidecar (WithDisableOtel d) s = s\<lparr>sc_disableOtel := d\<rparr>"
| "apply_sidecar (WithServiceStatusFn f) s = s\<lparr>sc_serviceStatusFn := Some f\<rparr>"

definition default_common :: "'l \<Rightarrow> 'l commonOptions" where
  "default_common DefaultHTTPListener =
     \<lparr>healthChkFn = None, stackLevelOnError = StackLevelSimple, listener = DefaultHTTPListener,
      initRoutes = (\<lambda>c r. (None, r))\<rparr>"

subsection \<open>Services\<close>

record http_server =
  WriteTimeout :: int
  ReadTimeout :: int
  IdleTimeout :: int
  HandlerTimeout :: int
  hs_router :: router

text \<open>A service without its sidecar; a sidecar has none itself.\<close>

record ('o, 'l) http_core =
  hc_base :: nat
  hc_server :: http_server
  hc_healthCheckFunc :: "HealthCheckFn option"
  hc_imsidecar :: bool
  hc_Listener :: 'l
  hc_serviceStatusFn :: "'o ServiceStatus option"

record ('o, 'l) http_service = "('o, 'l) http_core" +
  hc_sidecar :: "('o, 'l) http_core option"
  hc_pprofAddr :: "string option"

text \<open>The environment: the variables, \<^verbatim>\<open>time.ParseDuration\<close>, and what making a base needs.\<close>

record ('o, 'l) http_env =
  he_env :: environ
  he_ParseDuration :: "string \<Rightarrow> go_err + int"
  he_base :: "'o base_env"
  he_otel_enabled :: "'o \<Rightarrow> bool"
  he_DefaultListener :: 'l

definition seconds_20 :: int where "seconds_20 = 20000000000"

definition newHTTPServer :: "('o, 'l) http_env \<Rightarrow> router \<Rightarrow> http_server" where
  "newHTTPServer H r =
     (let d = (\<lambda>key. the (env_Duration (he_ParseDuration H) key [seconds_20] (he_env H))) in
      \<lparr>WriteTimeout = d ''http.timeout.write'', ReadTimeout = d ''http.timeout.read'',
       IdleTimeout = d ''http.timeout.idle'', HandlerTimeout = d ''http.timeout.handler'',
       hs_router = r\<rparr>)"

definition initializeRouter :: "('o, 'l) http_env \<Rightarrow> 'o Base \<Rightarrow> 'l commonOptions \<Rightarrow> router" where
  "initializeRouter H b c =
     [UseRecover (stackLevelOnError c), UseLogging]
     @ (if he_otel_enabled H (the (OtelProvider b)) then [UseOtel (md_Name (Meta b))] else [])
     @ (if env_Bool ''metadata.enabled'' [False] (he_env H) then [HandleMeta] else [])
     @ (if healthChkFn c \<noteq> None then [HandleHealth] else [])"

definition initializeRouterSidecar :: "('o, 'l) http_env \<Rightarrow> 'l commonOptions \<Rightarrow> router" where
  "initializeRouterSidecar H c =
     [UseRecover (stackLevelOnError c)]
     @ (if env_Bool ''metadata.enabled.sidecar'' [False] (he_env H) then [HandleMeta] else [])
     @ (if healthChkFn c \<noteq> None then [HandleHealth] else [])"

text \<open>A sidecar without a primary service dereferences its nil base.\<close>

definition NewSidecar ::
    "('o, 'l) http_env \<Rightarrow> ('o, 'l) sidecar_option list \<Rightarrow> 'o world \<Rightarrow>
     (go_err + ('o, 'l) http_core) go" where
  "NewSidecar H opts w =
     (let opt = fold apply_sidecar opts
                  \<lparr>sc_common = default_common (he_DefaultListener H), sc_base = None,
                   sc_disableOtel = False, sc_serviceStatusFn = None\<rparr>;
          router = initializeRouterSidecar H (sc_common opt)
      in case sc_base opt of
           None \<Rightarrow> Inl NilDereference
         | Some b \<Rightarrow>
             (case initRoutes (sc_common opt) (Ctx (w_bases w b)) router of
                (Some err, r) \<Rightarrow> Inr (Inl err)
              | (None, r) \<Rightarrow>
                  Inr (Inr \<lparr>hc_base = b, hc_server = newHTTPServer H r,
                            hc_healthCheckFunc = healthChkFn (sc_common opt), hc_imsidecar = True,
                            hc_Listener = listener (sc_common opt),
                            hc_serviceStatusFn = sc_serviceStatusFn opt\<rparr>)))"

definition AttachProfilingHandlers :: initRoutesFn where
  "AttachProfilingHandlers c r = (None, r @ [HandleDebug])"

text \<open>The profiling sidecar of \<open>New\<close>: its base has the options' context as parent, not the service's.\<close>

definition pprof_sidecar ::
    "('o, 'l) http_env \<Rightarrow> ctx \<Rightarrow> string option \<Rightarrow> 'l option \<Rightarrow> 'o world \<Rightarrow>
     (go_err + ('o, 'l) http_core) go \<times> 'o world" where
  "pprof_sidecar H c pprofAddr lst w =
     (case pprofAddr of
        None \<Rightarrow> (Inr (Inl (Err ''pprofAddr is nill and profilingEnabled is true'')), w)
      | Some addr \<Rightarrow>
          (case Base_New (he_base H)
                  [WithName ''pprof'', WithAddr addr, WithContext c, WithKind ''pprof''] w of
             (Inl err, w1) \<Rightarrow> (Inr (Inl err), w1)
           | (Inr b, w1) \<Rightarrow>
               (NewSidecar H
                  [WithPrimaryService b, SidecarCommon (WithListener lst),
                   SidecarCommon (WithInitRoutesFn AttachProfilingHandlers)] w1, w1)))"

definition http_New ::
    "('o, 'l) http_env \<Rightarrow> 'l service_option list \<Rightarrow> 'o world \<Rightarrow>
     (go_err + ('o, 'l) http_service) go \<times> 'o world" where
  "http_New H opts w =
     (let opt = fold apply_service opts
                  \<lparr>so_addr = [], so_common = default_common (he_DefaultListener H), so_ctx = [],
                   so_name = [], so_profilingEnabled = False, so_pprofAddr = None\<rparr>
      in case Base_New (he_base H)
                [WithName (so_name opt), WithAddr (so_addr opt), WithContext (so_ctx opt),
                 WithKind ''rest''] w of
           (Inl err, w1) \<Rightarrow> (Inr (Inl err), w1)
         | (Inr b, w1) \<Rightarrow>
             (let c = so_common opt;
                  router = initializeRouter H (w_bases w1 b) c
              in case initRoutes c (Ctx (w_bases w1 b)) router of
                   (Some err, r) \<Rightarrow> (Inr (Inl err), w1)
                 | (None, r) \<Rightarrow>
                     (let svc = \<lparr>hc_base = b, hc_server = newHTTPServer H r,
                                 hc_healthCheckFunc = healthChkFn c, hc_imsidecar = False,
                                 hc_Listener = listener c, hc_serviceStatusFn = Some (Base_Status b),
                                 hc_sidecar = None, hc_pprofAddr = None\<rparr>
                      in if \<not> so_profilingEnabled opt then (Inr (Inr svc), w1)
                         else
                           (case pprof_sidecar H (so_ctx opt) (so_pprofAddr opt) (Some (listener c)) w1 of
                              (Inl p, w2) \<Rightarrow> (Inl p, w2)
                            | (Inr (Inl err), w2) \<Rightarrow> (Inr (Inl err), w2)
                            | (Inr (Inr sc), w2) \<Rightarrow>
                                (Inr (Inr (svc\<lparr>hc_sidecar := Some sc,
                                               hc_pprofAddr := so_pprofAddr opt\<rparr>)), w2)))))"

subsection \<open>Handlers\<close>

record HealthStatus =
  Status :: string
  ServiceStatus :: string
  StartedAt :: string
  Details :: "string \<rightharpoonup> string"

text \<open>What the handlers use of the libraries: JSON of the two bodies and the date format.\<close>

record web_env =
  we_json_health :: "HealthStatus \<Rightarrow> go_err + string"
  we_json_meta :: "(string \<rightharpoonup> string) \<Rightarrow> go_err + string"
  we_UnixDate :: "int \<Rightarrow> string"

definition RunHealthCheck ::
    "('o, 'l) http_core \<Rightarrow> ctx \<Rightarrow> ((string \<rightharpoonup> string) \<times> go_err option) go" where
  "RunHealthCheck s c = (case hc_healthCheckFunc s of None \<Rightarrow> Inl NilDereference | Some f \<Rightarrow> Inr (f c))"

definition healthCheckHandler ::
    "web_env \<Rightarrow> 'o world \<Rightarrow> ('o, 'l) http_core \<Rightarrow> ctx \<Rightarrow> handler" where
  "healthCheckHandler W w s c rw0 =
     (let rw1 = Header_Set ''Content-Type'' ''application/JSON'' rw0 in
      case RunHealthCheck s c of
        Inl p \<Rightarrow> (Some p, rw1)
      | Inr (m, err) \<Rightarrow>
          (case hc_serviceStatusFn s of
             None \<Rightarrow> (Some NilDereference, rw1)
           | Some f \<Rightarrow>
               (let (currStatus, when) = f w;
                    (st, code) = (if err \<noteq> None then (''ERROR'', 500) else (''OK'', 200));
                    body = \<lparr>Status = st, ServiceStatus = currStatus, StartedAt = we_UnixDate W when,
                            Details = m\<rparr>
                in (None, WriteJSONBody (we_json_health W) body code
                            ''{error:\"error getting health check status\"}'' rw1))))"

definition metadataHandler :: "web_env \<Rightarrow> 'o world \<Rightarrow> ('o, 'l) http_core \<Rightarrow> handler" where
  "metadataHandler W w s rw0 =
     (None, WriteJSONBody (we_json_meta W) (Metadata (hc_base s) w) 200
              ''{error:\"error getting metadata\"}'' rw0)"

subsection \<open>\<open>health.go\<close> and \<open>container.go\<close>\<close>

record 'b HealthCheckClient =
  hcc_ServerAddr :: string
  hcc_Builder :: 'b

definition HelthCheckClient :: "'o world \<Rightarrow> ('o, 'l) http_core \<Rightarrow> 'b \<Rightarrow> 'b HealthCheckClient" where
  "HelthCheckClient w s c = \<lparr>hcc_ServerAddr = Addr (w_bases w (hc_base s)), hcc_Builder = c\<rparr>"

text \<open>
  The client's side: parsing the URL, building the client from its builder, the request (an error, or
  the status code and what closing the body answers).
\<close>

record 'b health_net =
  hn_Parse :: "string \<Rightarrow> go_err option"
  hn_NewHTTPClient :: "'b \<Rightarrow> string \<Rightarrow> go_err option"
  hn_Do :: "'b \<Rightarrow> string \<Rightarrow> go_err + int \<times> go_err option"

definition checkServiceHealth :: "'b health_net \<Rightarrow> 'b \<Rightarrow> string \<Rightarrow> go_err option" where
  "checkServiceHealth N s addr =
     (let url = ''http://'' @ addr @ ''/health'' in
      case hn_Parse N url of
        Some err \<Rightarrow> Some err
      | None \<Rightarrow>
          (case hn_NewHTTPClient N s addr of
             Some err \<Rightarrow> Some err
           | None \<Rightarrow>
               (case hn_Do N s url of
                  Inl err \<Rightarrow> Some err
                | Inr (StatusCode, closed) \<Rightarrow>
                    (case closed of
                       Some err \<Rightarrow> Some err
                     | None \<Rightarrow> (if StatusCode \<noteq> 200 then Some (ErrNotHealthy addr) else None)))))"

definition CheckOk :: "'b health_net \<Rightarrow> 'b HealthCheckClient \<Rightarrow> go_err option" where
  "CheckOk N c = checkServiceHealth N (hcc_Builder c) (hcc_ServerAddr c)"

definition Client_Close :: "'b HealthCheckClient \<Rightarrow> go_err option" where
  "Client_Close c = None"

record ('o, 'l, 'b) Container =
  co_ClientBuilder :: 'b
  co_Svc :: "('o, 'l) http_core option"
  co_Name :: string

definition Container_NewHealthCheckClient ::
    "'o world \<Rightarrow> ('o, 'l, 'b) Container \<Rightarrow> go_err + 'b HealthCheckClient" where
  "Container_NewHealthCheckClient w c =
     (case co_Svc c of
        None \<Rightarrow> Inl (Err ''service not set'')
      | Some s \<Rightarrow> Inr (HelthCheckClient w s (co_ClientBuilder c)))"

definition Container_Addr :: "environ \<Rightarrow> string \<Rightarrow> string" where
  "Container_Addr e nm = (let addrEnv = nm @ ''.addr'' in env_String addrEnv [[]] e)"

definition AddrOrPanic :: "environ \<Rightarrow> string \<Rightarrow> string go" where
  "AddrOrPanic e nm =
     (let a = Container_Addr e nm in
      if a = [] then Inl (PanicMsg (''.addr not configured for '' @ nm)) else Inr a)"

lemma pprof_sidecar_base:
  assumes "pprof_sidecar H c pprofAddr lst w = (Inr (Inr sc), w')"
  obtains addr where "Base_New (he_base H)
    [WithName ''pprof'', WithAddr addr, WithContext c, WithKind ''pprof''] w = (Inr (hc_base sc), w')"
  using assms
  by (auto simp: pprof_sidecar_def NewSidecar_def Let_def split: prod.splits sum.splits option.splits)

subsection \<open>What is answered\<close>

lemma WriteHeader_sent [simp]: "rw_sent (WriteHeader code w) = (if rw_sent w = None then Some (code, rw_header w) else rw_sent w)"
  by (simp add: WriteHeader_def)

lemma Header_Set_sent [simp]: "rw_sent (Header_Set k v w) = rw_sent w"
  by (simp add: Header_Set_def)

lemma new_response_sent [simp]: "rw_sent new_response = None"
  by (simp add: new_response_def)

lemma rw_Write_sent [simp]: "rw_sent (rw_Write s w) = rw_sent (WriteHeader 200 w)"
  by (simp add: rw_Write_def Let_def)

lemma WriteJSONBody_sent:
  assumes "rw_sent w = None"
  shows "rw_sent (WriteJSONBody encode body stat alt w) =
    Some (case encode body of Inl e \<Rightarrow> 500 | Inr b \<Rightarrow> stat,
          (rw_header w)(''Content-Type'' \<mapsto> ''application/json''))"
  using assms by (auto simp: WriteJSONBody_def Let_def Header_Set_def split: sum.split)

lemma health_status:
  "case TryToRecover (healthCheckHandler W w s c) new_response of (p, r) \<Rightarrow>
     p = None \<and>
     (fst (the (rw_sent r)) = 200 \<longleftrightarrow>
        (\<exists>chk st m bytes. hc_healthCheckFunc s = Some chk \<and> hc_serviceStatusFn s = Some st \<and>
           chk c = (m, None) \<and>
           we_json_health W \<lparr>Status = ''OK'', ServiceStatus = fst (st w),
             StartedAt = we_UnixDate W (snd (st w)), Details = m\<rparr> = Inr bytes)) \<and>
     (fst (the (rw_sent r)) = 200 \<or> fst (the (rw_sent r)) = 500) \<and>
     (fst (the (rw_sent r)) = 200 \<longrightarrow> snd (the (rw_sent r)) ''Content-Type'' = Some ''application/json'')"
proof -
  have fresh: "rw_sent (Header_Set k v new_response) = None" for k v
    by (simp add: new_response_def)
  show ?thesis
  proof (cases "hc_healthCheckFunc s")
    case None
    then show ?thesis
      by (simp add: TryToRecover_def healthCheckHandler_def RunHealthCheck_def Let_def fresh)
  next
    case (Some chk)
    obtain m err where chk: "chk c = (m, err)" by fastforce
    show ?thesis
    proof (cases "hc_serviceStatusFn s")
      case None
      then show ?thesis using Some chk
        by (simp add: TryToRecover_def healthCheckHandler_def RunHealthCheck_def Let_def fresh)
    next
      case (Some st)
      then show ?thesis using \<open>hc_healthCheckFunc s = Some chk\<close> chk
        by (cases err)
           (auto simp: TryToRecover_def healthCheckHandler_def RunHealthCheck_def Let_def fresh
              WriteJSONBody_sent case_prod_beta split: sum.splits)
    qed
  qed
qed

text \<open>
  C30. The health endpoint behind the recovery middleware always answers a status: 200 when the check
  returns no error, the service knows its status and the answer can be encoded, and 500 otherwise (also
  when a handler panics); an encoded answer is sent as \<open>application/json\<close>.
\<close>

theorem health_endpoint_status:
  "case TryToRecover (healthCheckHandler W w s c) new_response of (p, r) \<Rightarrow>
     p = None \<and>
     (fst (the (rw_sent r)) = 200 \<longleftrightarrow>
        (\<exists>chk st m bytes. hc_healthCheckFunc s = Some chk \<and> hc_serviceStatusFn s = Some st \<and>
           chk c = (m, None) \<and>
           we_json_health W \<lparr>Status = ''OK'', ServiceStatus = fst (st w),
             StartedAt = we_UnixDate W (snd (st w)), Details = m\<rparr> = Inr bytes)) \<and>
     (fst (the (rw_sent r)) = 200 \<or> fst (the (rw_sent r)) = 500) \<and>
     (fst (the (rw_sent r)) = 200 \<longrightarrow> snd (the (rw_sent r)) ''Content-Type'' = Some ''application/json'')"
  by (rule health_status)

definition demo_core :: "(nat, nat) http_core" where
  "demo_core = \<lparr>hc_base = 0,
     hc_server = \<lparr>WriteTimeout = 1, ReadTimeout = 1, IdleTimeout = 1, HandlerTimeout = 1, hs_router = []\<rparr>,
     hc_healthCheckFunc = Some (\<lambda>c. (Map.empty, None)), hc_imsidecar = True, hc_Listener = 0,
     hc_serviceStatusFn = Some (\<lambda>w. (''started'', 7))\<rparr>"

definition demo_web :: web_env where
  "demo_web = \<lparr>we_json_health = (\<lambda>h. Inr (Status h)), we_json_meta = (\<lambda>m. Inr ''{}''),
               we_UnixDate = (\<lambda>t. [])\<rparr>"

definition demo_world :: "nat world" where
  "demo_world = \<lparr>w_bases = (\<lambda>i. \<lparr>Meta = no_Data, startTime = 0, status = StatusStarting, Addr = ''h:1'',
     OtelProvider = None, Ctx = [], cancel = 0, logWriter = None\<rparr>),
     w_nbases = 1, w_nctx = 1, w_cancelled = {}\<rparr>"

theorem health_endpoint_status_witness:
  "fst (the (rw_sent (snd (TryToRecover (healthCheckHandler demo_web demo_world demo_core []) new_response)))) = 200"
  using health_endpoint_status [where W = demo_web and w = demo_world and s = demo_core and c = "[]"]
  by (auto simp: demo_core_def demo_web_def demo_world_def case_prod_beta)

text \<open>
  The recovery middleware: a handler's panic never leaves it, and the client gets 500 for it
  unless the handler had already sent a status, which then stands.
\<close>

theorem TryToRecover_answers:
  "case next w of (p, w1) \<Rightarrow> \<exists>w2. TryToRecover next w = (None, w2) \<and> rw_body w2 = rw_body w1 \<and>
     rw_sent w2 = (if p \<noteq> None \<and> rw_sent w1 = None then Some (500, rw_header w1) else rw_sent w1)"
  by (auto simp: TryToRecover_def WriteHeader_def split: prod.split option.split)

text \<open>The loop of \<open>walk\<close>.\<close>

lemma walk_loop_take: "walk_loop fs False acc = acc @ take (40 - length acc) fs"
  by (induction fs arbitrary: acc) (auto simp: Suc_diff_Suc take_Cons')

lemma walk_loop_skip:
  "walk_loop fs True [] = take 40 (drop 1 (dropWhile (\<lambda>f. strings_Contains f ''panic'') fs))"
  by (induction fs) (auto simp: walk_loop_take)

text \<open>
  The stack that \<open>walk\<close> logs for a recovered panic starts after the function that panicked: of the
  forty innermost frames it skips those of the runtime's panic functions and then one more, the first
  that is not one of them.
\<close>

theorem walk_drops_panicking:
  assumes "\<forall>f \<in> set ps. strings_Contains f ''panic''" and "\<not> strings_Contains g ''panic''"
    and "length (ps @ g # fs) \<le> 40"
  shows "walk (ps @ g # fs) = fs"
proof -
  have "dropWhile (\<lambda>f. strings_Contains f ''panic'') (ps @ g # fs) = g # fs"
    using assms(1,2) by (induction ps) auto
  then show ?thesis using assms(3) by (simp add: walk_def walk_loop_skip)
qed

theorem walk_drops_panicking_witness:
  "walk ([''runtime.gopanic''] @ ''main.handler'' # [''net/http.HandlerFunc.ServeHTTP'']) =
     [''net/http.HandlerFunc.ServeHTTP'']"
  by (rule walk_drops_panicking) (simp_all add: strings_Contains_def sublist_code)

text \<open>
  The client's check succeeds exactly when the URL and the client could be made and the request was
  answered 200: of a server whose health endpoint is the handler above, when its health check returned
  no error.
\<close>

theorem CheckOk_iff_healthy:
  assumes "hn_Parse N (''http://'' @ Addr (w_bases w (hc_base s)) @ ''/health'') = None"
    and "hn_NewHTTPClient N b (Addr (w_bases w (hc_base s))) = None"
    and "hn_Do N b (''http://'' @ Addr (w_bases w (hc_base s)) @ ''/health'') =
           Inr (fst (the (rw_sent (snd (TryToRecover (healthCheckHandler W w s c) new_response)))), None)"
    and "hc_healthCheckFunc s = Some chk" and "hc_serviceStatusFn s = Some st"
    and "\<forall>h. \<exists>b. we_json_health W h = Inr b"
  shows "CheckOk N (HelthCheckClient w s b) = None \<longleftrightarrow> snd (chk c) = None"
proof -
  have "fst (the (rw_sent (snd (TryToRecover (healthCheckHandler W w s c) new_response)))) = 200 \<longleftrightarrow>
      snd (chk c) = None"
    using health_status [where W = W and w = w and s = s and c = c] assms(4-6) by (cases "chk c") (auto simp: case_prod_beta)
  then show ?thesis
    using assms(1-3) by (simp add: CheckOk_def HelthCheckClient_def checkServiceHealth_def Let_def)
qed

definition demo_hnet :: "nat health_net" where
  "demo_hnet = \<lparr>hn_Parse = (\<lambda>u. None), hn_NewHTTPClient = (\<lambda>b a. None), hn_Do = (\<lambda>b u. Inr (200, None))\<rparr>"

theorem CheckOk_iff_healthy_witness: "CheckOk demo_hnet (HelthCheckClient demo_world demo_core 0) = None"
proof -
  have "CheckOk demo_hnet (HelthCheckClient demo_world demo_core 0) = None \<longleftrightarrow>
      snd ((\<lambda>c :: ctx. (Map.empty :: string \<rightharpoonup> string, None :: go_err option)) []) = None"
  proof (rule CheckOk_iff_healthy [where W = demo_web and c = "[]"])
    show "hn_Do demo_hnet 0 (''http://'' @ Addr (w_bases demo_world (hc_base demo_core)) @ ''/health'') =
        Inr (fst (the (rw_sent (snd (TryToRecover
               (healthCheckHandler demo_web demo_world demo_core []) new_response)))), None)"
      by (simp add: demo_hnet_def TryToRecover_def healthCheckHandler_def RunHealthCheck_def Let_def
          demo_core_def demo_web_def WriteJSONBody_sent case_prod_beta)
  qed (simp_all add: demo_hnet_def demo_core_def demo_web_def)
  then show ?thesis by simp
qed

end
