(* ===== verification/Lifecycle.thy ===== *)
theory Lifecycle
  imports Service_Base Runs
begin

text \<open>
  What a client of a service is promised by its status: it is starting, then started, then stopped, and
  never goes back.  The order of the status values is that of a life; \<open>lifecycle\<close> is the abstract machine
  the runs of the services are compared with.
\<close>

instantiation StatusType :: linorder
begin

fun age :: "StatusType \<Rightarrow> nat" where
  "age StatusStarting = 0"
| "age StatusStarted = 1"
| "age StatusStopped = 2"

definition less_eq_StatusType :: "StatusType \<Rightarrow> StatusType \<Rightarrow> bool" where
  "s \<le> t \<longleftrightarrow> age s \<le> age t"

definition less_StatusType :: "StatusType \<Rightarrow> StatusType \<Rightarrow> bool" where
  "s < t \<longleftrightarrow> age s < age t"

instance
proof
  fix s t :: StatusType
  show "s \<le> t \<Longrightarrow> t \<le> s \<Longrightarrow> s = t"
    by (cases s; cases t) (simp_all add: less_eq_StatusType_def)
qed (auto simp: less_eq_StatusType_def less_StatusType_def)

end

inductive lifecycle :: "StatusType \<Rightarrow> StatusType \<Rightarrow> bool" where
  lc_start: "lifecycle StatusStarting StatusStarted"
| lc_stop: "lifecycle StatusStarted StatusStopped"

inductive_simps lifecycle_simps [simp]:
  "lifecycle StatusStarting t" "lifecycle StatusStarted t" "lifecycle StatusStopped t"

lemma lifecycle_up: "lifecycle s t \<Longrightarrow> s \<le> t"
  by (induction rule: lifecycle.induct) (simp_all add: less_eq_StatusType_def)

lemma StatusStarting_least [simp]: "StatusStarting \<le> s"
  by (simp add: less_eq_StatusType_def)

lemma StatusStopped_greatest [simp]: "s \<le> StatusStopped"
  by (cases s) (simp_all add: less_eq_StatusType_def)

end
