(* ===== verification/Service_Run.thy ===== *)
theory Service_Run
  imports Service_Base Lifecycle
begin

text \<open>
  How services run: \<open>DoServe\<close> of \<^verbatim>\<open>pkg/service/http/service.go\<close> and \<open>DoServeWithDelay\<close> of
  \<^verbatim>\<open>pkg/service/process/service.go\<close>, as steps of their goroutines over the shared bases and contexts of
  \<open>Service_Base\<close>.  The steps of the program are kept apart from what the surroundings may do at any
  moment (a listener or a server fails, a parent context is cancelled), so that being stuck means that
  no goroutine of the program can go on.
\<close>

subsection \<open>An HTTP server\<close>

text \<open>
  The place of \<open>DoServe\<close> (from \<open>Serve\<close>'s \<open>Listen\<close> on; \<open>Hp_stopped\<close> is the deferred \<open>Stopped\<close>) and of the
  goroutine that shuts the server down.  \<open>hr_closed\<close>: \<^verbatim>\<open>Shutdown\<close> was called, from when on \<^verbatim>\<open>Serve\<close>
  returns \<^verbatim>\<open>ErrServerClosed\<close>.  \<open>hr_errCh\<close> is the channel of capacity one.
\<close>

datatype http_pc =
    Hp_listen | Hp_start | Hp_side | Hp_mark | Hp_serve | Hp_errCh | Hp_wait
  | Hp_stopped "go_err option" | Hp_ret "go_err option"

datatype shut_pc = Sd_none | Sd_wait | Sd_shutting | Sd_done

record http_run =
  hr_pc :: http_pc
  hr_sd :: shut_pc
  hr_closed :: bool
  hr_errCh :: "go_err option list"

definition http_init :: "http_pc \<Rightarrow> http_run" where
  "http_init p = \<lparr>hr_pc = p, hr_sd = Sd_none, hr_closed = False, hr_errCh = []\<rparr>"

definition err_Serve :: "go_err \<Rightarrow> go_err" where
  "err_Serve e = ErrWrap ''http.Serve: failed to serve'' e"

definition err_Shutdown :: "go_err \<Rightarrow> go_err" where
  "err_Shutdown e = ErrWrap ''http.Shutdown: failed to shutdown server'' e"

text \<open>
  \<open>b\<close> is the service's base, \<open>side\<close> says that it is itself a sidecar, \<open>waited\<close> that the wait group of its
  sidecar has come to zero (or that it has none).
\<close>

inductive http_step ::
    "nat \<Rightarrow> bool \<Rightarrow> bool \<Rightarrow> 'o world \<Rightarrow> http_run \<Rightarrow> 'o world \<Rightarrow> http_run \<Rightarrow> bool"
  for b side waited where
  h_listen: "hr_pc r = Hp_listen \<Longrightarrow> http_step b side waited w r w (r\<lparr>hr_pc := Hp_start\<rparr>)"
| h_start: "hr_pc r = Hp_start \<Longrightarrow>
    http_step b side waited w r w (r\<lparr>hr_pc := Hp_side, hr_sd := Sd_wait\<rparr>)"
| h_side: "hr_pc r = Hp_side \<Longrightarrow> http_step b side waited w r w (r\<lparr>hr_pc := Hp_mark\<rparr>)"
| h_mark: "hr_pc r = Hp_mark \<Longrightarrow>
    http_step b side waited w r (if \<not> side then SetStartedNow now b w else w) (r\<lparr>hr_pc := Hp_serve\<rparr>)"
| h_shutdown: "hr_sd r = Sd_wait \<Longrightarrow> ctx_done w (Ctx (w_bases w b)) \<Longrightarrow>
    http_step b side waited w r w (r\<lparr>hr_sd := Sd_shutting, hr_closed := True\<rparr>)"
| h_shutdown_end: "hr_sd r = Sd_shutting \<Longrightarrow>
    http_step b side waited w r w (r\<lparr>hr_sd := Sd_done, hr_errCh := hr_errCh r @ [e]\<rparr>)"
| h_closed: "hr_pc r = Hp_serve \<Longrightarrow> hr_closed r \<Longrightarrow>
    http_step b side waited w r w (r\<lparr>hr_pc := Hp_errCh\<rparr>)"
| h_errCh: "hr_pc r = Hp_errCh \<Longrightarrow> hr_errCh r = e # es \<Longrightarrow>
    http_step b side waited w r w
      (r\<lparr>hr_errCh := es,
         hr_pc := (case e of Some err \<Rightarrow> Hp_stopped (Some (err_Shutdown err)) | None \<Rightarrow> Hp_wait)\<rparr>)"
| h_wait: "hr_pc r = Hp_wait \<Longrightarrow> waited \<Longrightarrow>
    http_step b side waited w r w (r\<lparr>hr_pc := Hp_stopped None\<rparr>)"
| h_stopped: "hr_pc r = Hp_stopped e \<Longrightarrow>
    http_step b side waited w r (Base_Stopped b w) (r\<lparr>hr_pc := Hp_ret e\<rparr>)"

text \<open>What may go wrong around it.\<close>

inductive http_fail :: "http_run \<Rightarrow> http_run \<Rightarrow> bool" where
  h_listen_fail: "hr_pc r = Hp_listen \<Longrightarrow> http_fail r (r\<lparr>hr_pc := Hp_ret (Some e)\<rparr>)"
| h_serve_fail: "hr_pc r = Hp_serve \<Longrightarrow> http_fail r (r\<lparr>hr_pc := Hp_stopped (Some (err_Serve e))\<rparr>)"

fun http_rank :: "http_pc \<Rightarrow> nat" where
  "http_rank Hp_listen = 11" | "http_rank Hp_start = 10" | "http_rank Hp_side = 6"
| "http_rank Hp_mark = 5" | "http_rank Hp_serve = 4" | "http_rank Hp_errCh = 3"
| "http_rank Hp_wait = 2" | "http_rank (Hp_stopped e) = 1" | "http_rank (Hp_ret e) = 0"

fun shut_rank :: "shut_pc \<Rightarrow> nat" where
  "shut_rank Sd_none = 3" | "shut_rank Sd_wait = 2" | "shut_rank Sd_shutting = 1" | "shut_rank Sd_done = 0"

definition http_measure :: "http_run \<Rightarrow> nat" where
  "http_measure r = http_rank (hr_pc r) + shut_rank (hr_sd r)"

lemma http_step_measure: "http_step b side waited w r w' r' \<Longrightarrow> http_measure r' < http_measure r"
  by (induction rule: http_step.induct) (auto simp: http_measure_def split: option.split)

lemma http_fail_measure: "http_fail r r' \<Longrightarrow> http_measure r' < http_measure r"
  by (induction rule: http_fail.induct) (auto simp: http_measure_def)

text \<open>The goroutine that shuts down was started with the server, and has left its result where it is read.\<close>

definition http_inv :: "http_run \<Rightarrow> bool" where
  "http_inv r \<longleftrightarrow>
     (hr_sd r = Sd_none \<longrightarrow> hr_pc r = Hp_listen \<or> hr_pc r = Hp_start \<or> (\<exists>e. hr_pc r = Hp_ret e)) \<and>
     (hr_pc r = Hp_listen \<or> hr_pc r = Hp_start \<longrightarrow> hr_sd r = Sd_none) \<and>
     (hr_closed r \<longleftrightarrow> hr_sd r = Sd_shutting \<or> hr_sd r = Sd_done) \<and>
     (hr_pc r = Hp_errCh \<longrightarrow> hr_closed r) \<and>
     (hr_sd r = Sd_done \<longrightarrow> http_rank (hr_pc r) \<ge> 3 \<longrightarrow> hr_errCh r \<noteq> [])"

lemma http_inv_init: "p = Hp_listen \<or> p = Hp_start \<Longrightarrow> http_inv (http_init p)"
  by (auto simp: http_inv_def http_init_def)

lemma http_inv_step: "http_step b side waited w r w' r' \<Longrightarrow> http_inv r \<Longrightarrow> http_inv r'"
  by (induction rule: http_step.induct) (auto simp: http_inv_def split: option.split)

lemma http_inv_fail: "http_fail r r' \<Longrightarrow> http_inv r \<Longrightarrow> http_inv r'"
  by (induction rule: http_fail.induct) (auto simp: http_inv_def)

text \<open>A server can go on unless it has returned, serves until its context is done, or waits for its sidecar.\<close>

lemma http_progress:
  assumes "http_inv r" and "\<forall>e. hr_pc r \<noteq> Hp_ret e"
    and "hr_pc r = Hp_serve \<longrightarrow> ctx_done w (Ctx (w_bases w b))" and "hr_pc r = Hp_wait \<longrightarrow> waited"
  shows "\<exists>w' r'. http_step b side waited w r w' r'"
proof (cases "hr_pc r")
  case Hp_serve
  then show ?thesis
  proof (cases "hr_sd r")
    case Sd_none
    then show ?thesis using Hp_serve assms(1) by (simp add: http_inv_def)
  qed (use Hp_serve assms in \<open>auto simp: http_inv_def intro: http_step.intros\<close>)
next
  case Hp_errCh
  show ?thesis
  proof (cases "hr_sd r")
    case Sd_done
    then obtain e es where "hr_errCh r = e # es" using assms(1) Hp_errCh
      by (cases "hr_errCh r") (auto simp: http_inv_def)
    then show ?thesis using Hp_errCh by (blast intro: h_errCh)
  qed (use Hp_errCh assms in \<open>auto simp: http_inv_def intro: http_step.intros\<close>)
qed (use assms in \<open>auto intro: http_step.intros\<close>)

text \<open>What a step may do to the world.\<close>

lemma http_step_world:
  "http_step b side waited w r w' r' \<Longrightarrow>
     w_cancelled w' = w_cancelled w \<and> w_nbases w' = w_nbases w \<and>
     (\<forall>i. Ctx (w_bases w' i) = Ctx (w_bases w i) \<and> cancel (w_bases w' i) = cancel (w_bases w i) \<and>
          Addr (w_bases w' i) = Addr (w_bases w i))"
  by (induction rule: http_step.induct) (auto simp: SetStartedNow_def Base_Stopped_def)

subsection \<open>A server and its sidecar\<close>

definition side_returned :: "http_run option \<Rightarrow> bool" where
  "side_returned s = (case s of None \<Rightarrow> True | Some r \<Rightarrow> (\<exists>e. hr_pc r = Hp_ret e))"

text \<open>The context of the service is \<open>c # p\<close> and that of the sidecar's base another child of \<open>p\<close>.\<close>

definition bases_ok :: "'o world \<Rightarrow> nat \<Rightarrow> nat \<Rightarrow> ctx \<Rightarrow> bool" where
  "bases_ok w b sb p \<longleftrightarrow> b \<noteq> sb \<and>
     Ctx (w_bases w b) = cancel (w_bases w b) # p \<and> Ctx (w_bases w sb) = cancel (w_bases w sb) # p \<and>
     cancel (w_bases w b) \<noteq> cancel (w_bases w sb)"

lemma http_step_status:
  "http_step sb True waited w r w' r' \<Longrightarrow> i \<noteq> sb \<Longrightarrow> w_bases w' i = w_bases w i"
  by (induction rule: http_step.induct) (auto simp: Base_Stopped_def)

lemma http_step_returned: "http_step sb side waited w r w' r' \<Longrightarrow> hr_pc r = Hp_ret e \<Longrightarrow> hr_pc r' = Hp_ret e"
  by (induction rule: http_step.induct) auto

lemma http_fail_returned: "http_fail r r' \<Longrightarrow> hr_pc r \<noteq> Hp_ret e"
  by (induction rule: http_fail.induct) auto

lemma bases_ok_world:
  assumes "bases_ok w b sb p"
    and "\<And>i. Ctx (w_bases w' i) = Ctx (w_bases w i) \<and> cancel (w_bases w' i) = cancel (w_bases w i)"
  shows "bases_ok w' b sb p"
  using assms by (simp add: bases_ok_def)

text \<open>Two bases made one after the other below the same context.\<close>

lemma two_bases:
  assumes "Base_New E os w = (Inr b, w1)" and "Base_New E os' w1 = (Inr c, w')"
    and "Ctx (fold apply_Option os \<lparr>Meta = no_Data, startTime = 0, status = StatusStarting, Addr = [],
            OtelProvider = None, Ctx = [], cancel = 0, logWriter = None\<rparr>) = p"
    and "Ctx (fold apply_Option os' \<lparr>Meta = no_Data, startTime = 0, status = StatusStarting, Addr = [],
            OtelProvider = None, Ctx = [], cancel = 0, logWriter = None\<rparr>) = p"
  shows "bases_ok w' b c p"
proof -
  note B = Base_New_ok [OF assms(1)] and C = Base_New_ok [OF assms(2)]
  have bc: "b \<noteq> c" using B(5) C(1) by simp
  then have "w_bases w' b = w_bases w1 b" using C(7) by simp
  then show ?thesis using B C bc assms(3,4) by (simp add: bases_ok_def)
qed

end
