(* ===== verification/Process_Service.thy ===== *)
theory Process_Service
  imports Http_Service Service_Run
begin

text \<open>
  \<^verbatim>\<open>pkg/service/process\<close>: a service that runs a function of the client beside an HTTP sidecar which
  shares its base.  \<open>New\<close> and the options, and \<open>DoServeWithDelay\<close> as steps of its three goroutines.
\<close>

subsection \<open>Making a service\<close>

type_synonym StartFn = "ctx \<Rightarrow> go_err option"

record 'l proc_options =
  po_starter :: StartFn
  po_healthCheckFN :: "HealthCheckFn option"
  po_ctx :: ctx
  po_name :: string
  po_addr :: string
  po_listener :: "'l option"
  po_profilingEnabled :: bool

datatype 'l proc_option =
    PWithName string
  | PWithContext ctx
  | PWithStarter StartFn
  | PWithHealthCheckFN "HealthCheckFn option"
  | PWithAddr string
  | PWithSidecarListener "'l option"
  | PWithProfilingEnabled bool

fun apply_proc :: "'l proc_option \<Rightarrow> 'l proc_options \<Rightarrow> 'l proc_options" where
  "apply_proc (PWithName n) h = h\<lparr>po_name := n\<rparr>"
| "apply_proc (PWithContext c) h = h\<lparr>po_ctx := c\<rparr>"
| "apply_proc (PWithStarter s) h = h\<lparr>po_starter := s\<rparr>"
| "apply_proc (PWithHealthCheckFN s) h = h\<lparr>po_healthCheckFN := s\<rparr>"
| "apply_proc (PWithAddr a) h = h\<lparr>po_addr := a\<rparr>"
| "apply_proc (PWithSidecarListener l) h = h\<lparr>po_listener := l\<rparr>"
| "apply_proc (PWithProfilingEnabled p) h = h\<lparr>po_profilingEnabled := p\<rparr>"

definition noop :: StartFn where
  "noop c = None"

record ('o, 'l) proc_service =
  ps_Base :: nat
  ps_start :: StartFn
  ps_sidecar :: "('o, 'l) http_core"

definition proc_New ::
    "('o, 'l) http_env \<Rightarrow> 'l proc_option list \<Rightarrow> 'o world \<Rightarrow>
     (go_err + ('o, 'l) proc_service) go \<times> 'o world" where
  "proc_New H opts w =
     (let opt = fold apply_proc opts
                  \<lparr>po_starter = noop, po_healthCheckFN = None, po_ctx = [], po_name = ''noop'',
                   po_addr = [], po_listener = None, po_profilingEnabled = False\<rparr>
      in case Base_New (he_base H)
                [WithName (po_name opt), WithContext (po_ctx opt), WithKind ''headless'',
                 WithAddr (po_addr opt)] w of
           (Inl err, w1) \<Rightarrow> (Inr (Inl err), w1)
         | (Inr b, w1) \<Rightarrow>
             (case NewSidecar H
                     [WithPrimaryService b, SidecarCommon (WithHealthCheckFn (po_healthCheckFN opt)),
                      SidecarCommon (WithListener (po_listener opt)),
                      WithServiceStatusFn (Base_Status b),
                      SidecarCommon (WithInitRoutesFn (\<lambda>c r.
                        if po_profilingEnabled opt then AttachProfilingHandlers c r else (None, r)))] w1 of
                Inl p \<Rightarrow> (Inl p, w1)
              | Inr (Inl err) \<Rightarrow> (Inr (Inl err), w1)
              | Inr (Inr sidecar) \<Rightarrow>
                  (Inr (Inr \<lparr>ps_Base = b, ps_start = po_starter opt, ps_sidecar = sidecar\<rparr>), w1)))"

definition proc_NewHelthCheckClient :: "'o world \<Rightarrow> nat \<Rightarrow> 'b \<Rightarrow> 'b HealthCheckClient" where
  "proc_NewHelthCheckClient w base c = \<lparr>hcc_ServerAddr = Addr (w_bases w base), hcc_Builder = c\<rparr>"

subsection \<open>Running it\<close>

text \<open>
  The goroutine that sleeps and calls the client's function; \<open>pr_timer\<close> is the value in the timer's
  channel.  \<open>pr_rets\<close>, which no step reads, is what calls of the function returned; \<open>pr_ret\<close> is what
  \<open>DoServeWithDelay\<close> returned.
\<close>

datatype start_goroutine = St_sleep | St_drain | St_check | St_mark | St_start | St_stop | St_done

record 'o proc_run =
  pr_world :: "'o world"
  pr_start :: start_goroutine
  pr_timer :: bool
  pr_side :: http_run
  pr_err :: "go_err option"
  pr_rets :: "go_err option list"
  pr_ret :: "go_err option option"

definition proc_init :: "'o world \<Rightarrow> 'o proc_run" where
  "proc_init w = \<lparr>pr_world = w, pr_start = St_sleep, pr_timer = False, pr_side = http_init Hp_start,
     pr_err = None, pr_rets = [], pr_ret = None\<rparr>"

definition proc_done :: "nat \<Rightarrow> 'o proc_run \<Rightarrow> bool" where
  "proc_done b s = ctx_done (pr_world s) (Ctx (w_bases (pr_world s) b))"

text \<open>
  \<open>sleep\<close>: it ends when the timer fires; when the context is done first the timer is stopped, or its
  value is drained if it has fired.
\<close>

inductive sleep_step ::
    "bool \<Rightarrow> start_goroutine \<times> bool \<Rightarrow> start_goroutine \<times> bool \<Rightarrow> bool" for dn where
  sl_timer: "sleep_step dn (St_sleep, False) (St_sleep, True)"
| sl_fired: "sleep_step dn (St_sleep, True) (St_check, False)"
| sl_done: "dn \<Longrightarrow> sleep_step dn (St_sleep, t) (if t then St_drain else St_check, t)"
| sl_drain: "sleep_step dn (St_drain, True) (St_check, False)"

inductive_cases sleep_stepE: "sleep_step dn (st, t) (st', t')"

inductive proc_step :: "nat \<Rightarrow> 'o proc_run \<Rightarrow> 'o proc_run \<Rightarrow> bool" for b where
  p_sleep: "sleep_step (proc_done b s) (pr_start s, pr_timer s) (st, t) \<Longrightarrow>
    proc_step b s (s\<lparr>pr_start := st, pr_timer := t\<rparr>)"
| p_check: "pr_start s = St_check \<Longrightarrow>
    proc_step b s (s\<lparr>pr_start := (if proc_done b s then St_stop else St_mark)\<rparr>)"
| p_mark: "pr_start s = St_mark \<Longrightarrow>
    proc_step b s (s\<lparr>pr_world := SetStartedNow now b (pr_world s), pr_start := St_start\<rparr>)"
| p_start: "pr_start s = St_start \<Longrightarrow>
    proc_step b s (s\<lparr>pr_err := e, pr_rets := pr_rets s @ [e], pr_start := St_stop\<rparr>)"
| p_stop: "pr_start s = St_stop \<Longrightarrow>
    proc_step b s (s\<lparr>pr_world := Base_Stop b (pr_world s), pr_start := St_done\<rparr>)"
| p_side: "http_step b True True (pr_world s) (pr_side s) w' r' \<Longrightarrow>
    proc_step b s (s\<lparr>pr_world := w', pr_side := r'\<rparr>)"
| p_return: "pr_start s = St_done \<Longrightarrow> hr_pc (pr_side s) = Hp_ret e \<Longrightarrow> pr_ret s = None \<Longrightarrow>
    proc_step b s (s\<lparr>pr_ret := Some (pr_err s)\<rparr>)"

text \<open>The surroundings: the sidecar's server fails, a parent of the service's context is cancelled.\<close>

inductive proc_env :: "nat \<Rightarrow> 'o proc_run \<Rightarrow> 'o proc_run \<Rightarrow> bool" for b where
  p_fail: "http_fail (pr_side s) r' \<Longrightarrow> proc_env b s (s\<lparr>pr_side := r'\<rparr>)"
| p_parent: "n \<in> set (tl (Ctx (w_bases (pr_world s) b))) \<Longrightarrow>
    proc_env b s (s\<lparr>pr_world := do_cancel n (pr_world s)\<rparr>)"

inductive proc_reach :: "'o world \<Rightarrow> nat \<Rightarrow> 'o proc_run \<Rightarrow> bool" for w b where
  pr_init: "proc_reach w b (proc_init w)"
| pr_step: "proc_reach w b s \<Longrightarrow> proc_step b s s' \<Longrightarrow> proc_reach w b s'"
| pr_env: "proc_reach w b s \<Longrightarrow> proc_env b s s' \<Longrightarrow> proc_reach w b s'"

fun start_rank :: "start_goroutine \<Rightarrow> nat" where
  "start_rank St_sleep = 6" | "start_rank St_drain = 5" | "start_rank St_check = 4"
| "start_rank St_mark = 3" | "start_rank St_start = 2" | "start_rank St_stop = 1"
| "start_rank St_done = 0"

definition proc_measure :: "'o proc_run \<Rightarrow> nat" where
  "proc_measure s = 2 * start_rank (pr_start s) + (if pr_start s = St_sleep \<and> \<not> pr_timer s then 1 else 0)
     + http_measure (pr_side s) + (if pr_ret s = None then 1 else 0)"

lemma proc_step_measure: "proc_step b s s' \<Longrightarrow> proc_measure s' < proc_measure s"
  by (induction rule: proc_step.induct)
     (auto simp: proc_measure_def elim!: sleep_stepE dest: http_step_measure)

text \<open>
  The invariant, for a base whose context is \<open>c # p\<close> with \<open>c\<close> its own cancel number, not cancelled yet
  and not among its parents' \<open>p\<close>.
\<close>

definition base_fresh :: "'o world \<Rightarrow> nat \<Rightarrow> ctx \<Rightarrow> bool" where
  "base_fresh w b p \<longleftrightarrow>
     Ctx (w_bases w b) = cancel (w_bases w b) # p \<and> cancel (w_bases w b) \<notin> set p \<and>
     cancel (w_bases w b) \<notin> w_cancelled w"

definition own_cancelled :: "nat \<Rightarrow> 'o proc_run \<Rightarrow> bool" where
  "own_cancelled b s \<longleftrightarrow> cancel (w_bases (pr_world s) b) \<in> w_cancelled (pr_world s)"

definition serve_failed :: "go_err option \<Rightarrow> bool" where
  "serve_failed e \<longleftrightarrow> (\<exists>x. e = Some (err_Serve x))"

fun before_start :: "start_goroutine \<Rightarrow> bool" where
  "before_start St_stop = False"
| "before_start St_done = False"
| "before_start _ = True"

definition proc_inv :: "nat \<Rightarrow> ctx \<Rightarrow> 'o proc_run \<Rightarrow> bool" where
  "proc_inv b p s \<longleftrightarrow>
     http_inv (pr_side s) \<and>
     Ctx (w_bases (pr_world s) b) = cancel (w_bases (pr_world s) b) # p \<and>
     cancel (w_bases (pr_world s) b) \<notin> set p \<and>
     (own_cancelled b s \<longleftrightarrow> pr_start s = St_done) \<and>
     (pr_start s = St_drain \<longrightarrow> pr_timer s) \<and>
     (before_start (pr_start s) \<longrightarrow> pr_rets s = [] \<and> pr_err s = None) \<and>
     (\<not> before_start (pr_start s) \<longrightarrow>
        pr_rets s = [pr_err s] \<or> pr_rets s = [] \<and> pr_err s = None \<and> ctx_done (pr_world s) p) \<and>
     (\<forall>r. pr_ret s = Some r \<longrightarrow>
        pr_start s = St_done \<and> r = pr_err s \<and> (\<exists>e. hr_pc (pr_side s) = Hp_ret e))"

lemma proc_done_iff:
  "Ctx (w_bases (pr_world s) b) = cancel (w_bases (pr_world s) b) # p \<Longrightarrow>
     proc_done b s \<longleftrightarrow> own_cancelled b s \<or> ctx_done (pr_world s) p"
  by (auto simp: proc_done_def own_cancelled_def ctx_done_def)

lemma proc_inv_init: "base_fresh w b p \<Longrightarrow> proc_inv b p (proc_init w)"
  by (simp add: proc_inv_def proc_init_def http_inv_init base_fresh_def own_cancelled_def)

lemma proc_inv_side:
  assumes "http_step b True True (pr_world s) (pr_side s) w' r'" and "proc_inv b p s"
  shows "proc_inv b p (s\<lparr>pr_world := w', pr_side := r'\<rparr>)"
proof -
  have w: "w_cancelled w' = w_cancelled (pr_world s)"
    "Ctx (w_bases w' b) = Ctx (w_bases (pr_world s) b)"
    "cancel (w_bases w' b) = cancel (w_bases (pr_world s) b)"
    using http_step_world [OF assms(1)] by auto
  have ret: "\<exists>e. hr_pc r' = Hp_ret e" if "hr_pc (pr_side s) = Hp_ret e" for e
    using assms(1) that by (cases rule: http_step.cases) auto
  show ?thesis
    using assms(2) http_inv_step [OF assms(1)] w ret
    by (auto simp: proc_inv_def own_cancelled_def ctx_done_def)
qed

lemma proc_inv_step: "proc_step b s s' \<Longrightarrow> proc_inv b p s \<Longrightarrow> proc_inv b p s'"
proof (induction rule: proc_step.induct)
  case (p_side s w' r')
  then show ?case by (rule proc_inv_side)
next
  case (p_check s)
  then show ?case
    by (auto simp: proc_inv_def own_cancelled_def proc_done_iff [of s b p] split: if_splits)
next
  case (p_stop s)
  then show ?case
    by (auto simp: proc_inv_def own_cancelled_def Base_Stop_def ctx_done_do_cancel)
next
  case (p_mark s now)
  then show ?case by (auto simp: proc_inv_def own_cancelled_def SetStartedNow_def)
qed (auto simp: proc_inv_def own_cancelled_def elim!: sleep_stepE split: if_splits)

lemma proc_inv_env: "proc_env b s s' \<Longrightarrow> proc_inv b p s \<Longrightarrow> proc_inv b p s'"
proof (induction rule: proc_env.induct)
  case (p_fail s r')
  have "\<exists>e. hr_pc r' = Hp_ret e" if "hr_pc (pr_side s) = Hp_ret e" for e
    using p_fail(1) that by (cases rule: http_fail.cases) auto
  then show ?case
    using p_fail http_inv_fail [OF p_fail(1)] by (auto simp: proc_inv_def own_cancelled_def)
next
  case (p_parent n s)
  then show ?case
    by (auto simp: proc_inv_def own_cancelled_def ctx_done_do_cancel)
qed

lemma proc_reach_inv: "proc_reach w b s \<Longrightarrow> base_fresh w b p \<Longrightarrow> proc_inv b p s"
  by (induction rule: proc_reach.induct) (blast intro: proc_inv_init proc_inv_step proc_inv_env)+

text \<open>
  C7. What \<open>DoServeWithDelay\<close> returns: when it returns, the sidecar's \<open>DoServe\<close> has returned and the
  service's context is done; the client's function was called at most once, its error is what is
  returned, and it was not called at all (the result is then nil) only if a parent context was done.
\<close>

theorem process_result:
  assumes "base_fresh w b p" and "proc_reach w b s" and "pr_ret s = Some r"
  shows "(pr_rets s = [r] \<or> pr_rets s = [] \<and> r = None \<and> ctx_done (pr_world s) p) \<and>
         proc_done b s \<and> (\<exists>e. hr_pc (pr_side s) = Hp_ret e)"
  using proc_reach_inv [OF assms(2,1)] assms(3)
  by (auto simp: proc_inv_def proc_done_iff [of s b p])

lemma proc_goes_on:
  assumes inv: "proc_inv b p s" and none: "\<not> pr_ret s \<noteq> None"
  shows "\<exists>s'. proc_step b s s'"
proof (cases "pr_start s")
  case St_sleep
  then show ?thesis
    by (cases "pr_timer s") (metis p_sleep sl_fired, metis p_sleep sl_timer)
next
  case St_drain
  then have "pr_timer s" using inv by (simp add: proc_inv_def)
  then show ?thesis using St_drain by (metis p_sleep sl_drain)
next
  case St_done
  show ?thesis
  proof (cases "\<exists>e. hr_pc (pr_side s) = Hp_ret e")
    case True
    moreover have "pr_ret s = None" using none by simp
    ultimately show ?thesis using St_done by (blast intro: p_return)
  next
    case False
    have "ctx_done (pr_world s) (Ctx (w_bases (pr_world s) b))"
      using inv St_done proc_done_iff [of s b p] by (auto simp: proc_inv_def proc_done_def)
    then have "\<exists>w' r'. http_step b True True (pr_world s) (pr_side s) w' r'"
      using inv False by (intro http_progress) (auto simp: proc_inv_def)
    then show ?thesis by (blast intro: p_side)
  qed
qed (blast intro: proc_step.intros)+

interpretation proc: bounded_run "proc_step b" "proc_inv b p" proc_measure "\<lambda>s. pr_ret s \<noteq> None" for b p
  by unfold_locales (fact proc_inv_step, erule proc_step_measure, fact proc_goes_on)

text \<open>
  \<open>DoServeWithDelay\<close> never gets stuck and ends: as long as it has not returned some goroutine can go
  on (the client's function returning and the timer firing counted as steps), and every step lowers a
  measure that is 27 at the beginning.
\<close>

theorem process_terminates:
  assumes "base_fresh w b p" and "proc_reach w b s"
  shows "(pr_ret s = None \<longrightarrow> (\<exists>s'. proc_step b s s')) \<and>
         (\<forall>s'. proc_step b s s' \<longrightarrow> proc_measure s' < proc_measure s) \<and>
         proc_measure (proc_init w) = 27"
  using proc_reach_inv [OF assms(2,1)] proc_goes_on [of b p s] proc_step_measure [of b s]
  by (auto simp: proc_measure_def proc_init_def http_measure_def http_init_def)

lemma proc_reach_measure: "proc_reach w b s \<Longrightarrow> proc_measure s \<le> 27"
proof (induction rule: proc_reach.induct)
  case (pr_step s s')
  then show ?case using proc_step_measure by fastforce
next
  case (pr_env s s')
  from pr_env(2) have "proc_measure s' \<le> proc_measure s"
    by (cases rule: proc_env.cases) (auto simp: proc_measure_def dest: http_fail_measure)
  then show ?case using pr_env by simp
qed (simp add: proc_measure_def proc_init_def http_measure_def http_init_def)

text \<open>
  C6. \<open>DoServeWithDelay\<close> ends, whatever was done to it before: from any state it can have come to no run
  of its goroutines is longer than 27 steps, and one that cannot go on has returned.
\<close>

theorem process_runs_end:
  assumes "base_fresh w b p" and "proc_reach w b s"
  shows "{n. \<exists>s'. (proc_step b ^^ n) s s'} \<subseteq> {..27} \<and>
         {s'. (proc_step b)\<^sup>*\<^sup>* s s' \<and> (\<nexists>s''. proc_step b s' s'')} \<subseteq> {s'. pr_ret s' \<noteq> None}"
proof
  show "{n. \<exists>s'. (proc_step b ^^ n) s s'} \<subseteq> {..27}"
    using proc.run_length [OF _ proc_reach_inv [OF assms(2,1)]] proc_reach_measure [OF assms(2)] by fastforce
  show "{s'. (proc_step b)\<^sup>*\<^sup>* s s' \<and> (\<nexists>s''. proc_step b s' s'')} \<subseteq> {s'. pr_ret s' \<noteq> None}"
    by (rule proc.ends(2) [OF proc_reach_inv [OF assms(2,1)]])
qed

subsection \<open>The status at the end\<close>

text \<open>
  While no parent context is done and the sidecar's server has not failed, its end comes after the
  client's function has returned.
\<close>

fun server_over :: "http_pc \<Rightarrow> bool" where
  "server_over Hp_errCh = True"
| "server_over Hp_wait = True"
| "server_over (Hp_stopped e) = (\<not> serve_failed e)"
| "server_over (Hp_ret e) = (\<not> serve_failed e)"
| "server_over _ = False"

definition proc_quiet :: "nat \<Rightarrow> ctx \<Rightarrow> 'o proc_run \<Rightarrow> bool" where
  "proc_quiet b p s \<longleftrightarrow>
     hr_pc (pr_side s) \<noteq> Hp_listen \<and>
     (ctx_done (pr_world s) p \<or>
        ((hr_closed (pr_side s) \<or> server_over (hr_pc (pr_side s))) \<longrightarrow> pr_start s = St_done) \<and>
        (\<forall>e. hr_pc (pr_side s) = Hp_ret e \<longrightarrow> \<not> serve_failed e \<longrightarrow>
           status (w_bases (pr_world s) b) = StatusStopped))"

lemma not_serve_failed [simp]:
  "\<not> serve_failed None" "\<not> serve_failed (Some (err_Shutdown e))" "serve_failed (Some (err_Serve e))"
  by (auto simp: serve_failed_def err_Shutdown_def err_Serve_def)

lemma proc_quiet_step:
  assumes "proc_step b s s'" and "proc_inv b p s" and "proc_quiet b p s"
  shows "proc_quiet b p s'"
  using assms
proof (induction rule: proc_step.induct)
  case (p_side s w' r')
  have d: "ctx_done w' p = ctx_done (pr_world s) p"
    using http_step_world [OF p_side(1)] by (simp add: ctx_done_def)
  have nl: "hr_pc r' \<noteq> Hp_listen"
    using p_side(1,3) by (cases rule: http_step.cases) (auto simp: proc_quiet_def split: option.split)
  show ?case
  proof (cases "ctx_done (pr_world s) p")
    case True
    then show ?thesis using nl d by (auto simp: proc_quiet_def)
  next
    case False
    have own: "ctx_done (pr_world s) (Ctx (w_bases (pr_world s) b)) \<longrightarrow> pr_start s = St_done"
      using p_side(2) False proc_done_iff [of s b p] by (auto simp: proc_inv_def proc_done_def)
    show ?thesis
      using p_side(1)
    proof (cases rule: http_step.cases)
      case (h_errCh e es)
      then show ?thesis using p_side(2,3) False d
        by (auto simp: proc_quiet_def split: option.splits)
    qed (use p_side(2,3) False d own in
           \<open>auto simp: proc_quiet_def proc_inv_def http_inv_def Base_Stopped_def SetStartedNow_def\<close>)
  qed
next
  case (p_mark s now)
  then show ?case by (auto simp: proc_quiet_def SetStartedNow_def)
next
  case (p_stop s)
  then show ?case by (auto simp: proc_quiet_def Base_Stop_def ctx_done_do_cancel)
qed (auto simp: proc_quiet_def elim!: sleep_stepE split: if_splits)

lemma proc_quiet_env:
  assumes "proc_env b s s'" and "proc_inv b p s" and "proc_quiet b p s"
  shows "proc_quiet b p s'"
  using assms
proof (induction rule: proc_env.induct)
  case (p_fail s r')
  then show ?case
    by (auto simp: proc_quiet_def elim!: http_fail.cases)
next
  case (p_parent n s)
  then have "n \<in> set p" by (simp add: proc_inv_def)
  then show ?case using p_parent by (auto simp: proc_quiet_def ctx_done_do_cancel)
qed

lemma proc_reach_quiet: "proc_reach w b s \<Longrightarrow> base_fresh w b p \<Longrightarrow> proc_quiet b p s"
proof (induction rule: proc_reach.induct)
  case pr_init
  then show ?case by (simp add: proc_quiet_def proc_init_def http_init_def)
qed (blast intro: proc_quiet_step proc_quiet_env proc_reach_inv)+

text \<open>
  C37. When \<open>DoServeWithDelay\<close> has returned, the service's status is "stopped", unless a parent context
  was cancelled or the sidecar's server failed.
\<close>

theorem process_status_stopped:
  assumes "base_fresh w b p" and "proc_reach w b s" and "pr_ret s \<noteq> None"
    and "\<not> ctx_done (pr_world s) p" and "\<forall>x. hr_pc (pr_side s) \<noteq> Hp_ret (Some (err_Serve x))"
  shows "fst (Base_Status b (pr_world s)) = ''stopped''"
proof -
  obtain e where "hr_pc (pr_side s) = Hp_ret e"
    using proc_reach_inv [OF assms(2,1)] assms(3) by (auto simp: proc_inv_def)
  moreover have "\<not> serve_failed e" using calculation assms(5) by (auto simp: serve_failed_def)
  ultimately show ?thesis
    using proc_reach_quiet [OF assms(2,1)] assms(4) by (auto simp: proc_quiet_def Base_Status_def)
qed

subsection \<open>A run\<close>

text \<open>
  The base of a process service and a run in which the sidecar's server fails before the client's
  function is called.
\<close>

definition proc_world :: "nat world" where
  "proc_world = \<lparr>w_bases = (\<lambda>i. \<lparr>Meta = no_Data, startTime = 0, status = StatusStarting, Addr = ''h:1'',
     OtelProvider = None, Ctx = [0], cancel = 0, logWriter = None\<rparr>),
     w_nbases = 1, w_nctx = 1, w_cancelled = {}\<rparr>"

definition proc_stale :: "nat proc_run" where
  "proc_stale =
     \<lparr>pr_world = Base_Stop 0 (SetStartedNow 9 0 (Base_Stopped 0 proc_world)), pr_start = St_done,
      pr_timer = False,
      pr_side = \<lparr>hr_pc = Hp_ret (Some (err_Serve (Err ''accept''))), hr_sd = Sd_wait, hr_closed = False,
                 hr_errCh = []\<rparr>,
      pr_err = None, pr_rets = [None], pr_ret = Some None\<rparr>"

lemma pr_to: "proc_reach w b s \<Longrightarrow> proc_step b s s1 \<Longrightarrow> s1 = s2 \<Longrightarrow> proc_reach w b s2"
  by (simp add: pr_step)

lemma pr_side_to:
  "proc_reach w b s \<Longrightarrow> http_step b True True (pr_world s) (pr_side s) w' r' \<Longrightarrow>
     s\<lparr>pr_world := w', pr_side := r'\<rparr> = s2 \<Longrightarrow> proc_reach w b s2"
  using pr_step p_side by metis

lemma proc_stale_reach: "proc_reach proc_world 0 proc_stale"
proof -
  let ?r = "\<lambda>p sd. \<lparr>hr_pc = p, hr_sd = sd, hr_closed = False, hr_errCh = []\<rparr>"
  let ?s = "\<lambda>w st tm r rets ret. \<lparr>pr_world = w, pr_start = st, pr_timer = tm, pr_side = r, pr_err = None,
      pr_rets = rets, pr_ret = ret\<rparr> :: nat proc_run"
  let ?e = "Some (err_Serve (Err ''accept''))"
  let ?w = "Base_Stopped 0 proc_world"
  let ?f = "?r (Hp_ret ?e) Sd_wait"
  have 0: "proc_reach proc_world 0 (?s proc_world St_sleep False (?r Hp_start Sd_none) [] None)"
    using pr_init [of proc_world 0] by (simp add: proc_init_def http_init_def)
  have 1: "proc_reach proc_world 0 (?s proc_world St_sleep False (?r Hp_side Sd_wait) [] None)"
    by (rule pr_side_to [OF 0 h_start]) simp_all
  have 2: "proc_reach proc_world 0 (?s proc_world St_sleep False (?r Hp_mark Sd_wait) [] None)"
    by (rule pr_side_to [OF 1 h_side]) simp_all
  have 3: "proc_reach proc_world 0 (?s proc_world St_sleep False (?r Hp_serve Sd_wait) [] None)"
    by (rule pr_side_to [OF 2 h_mark]) simp_all
  have 4: "proc_reach proc_world 0 (?s proc_world St_sleep False (?r (Hp_stopped ?e) Sd_wait) [] None)"
    using pr_env [OF 3 p_fail [OF h_serve_fail [of _ "Err ''accept''"]]] by simp
  have 5: "proc_reach proc_world 0 (?s ?w St_sleep False ?f [] None)"
    by (rule pr_side_to [OF 4 h_stopped [of _ ?e]]) simp_all
  have 6: "proc_reach proc_world 0 (?s ?w St_sleep True ?f [] None)"
    by (rule pr_to [OF 5 p_sleep [where st = St_sleep and t = True]]) (simp_all add: sl_timer)
  have 7: "proc_reach proc_world 0 (?s ?w St_check False ?f [] None)"
    by (rule pr_to [OF 6 p_sleep [where st = St_check and t = False]]) (simp_all add: sl_fired)
  have nd: "\<not> proc_done 0 (?s ?w St_check False ?f [] None)"
    by (simp add: proc_done_def ctx_done_def proc_world_def Base_Stopped_def upd_base_def)
  have 8: "proc_reach proc_world 0 (?s ?w St_mark False ?f [] None)"
    by (rule pr_to [OF 7 p_check]) (use nd in simp_all)
  have 9: "proc_reach proc_world 0 (?s (SetStartedNow 9 0 ?w) St_start False ?f [] None)"
    by (rule pr_to [OF 8 p_mark [of _ _ 9]]) simp_all
  have 10: "proc_reach proc_world 0 (?s (SetStartedNow 9 0 ?w) St_stop False ?f [None] None)"
    by (rule pr_to [OF 9 p_start [of _ _ None]]) simp_all
  have 11: "proc_reach proc_world 0 (?s (Base_Stop 0 (SetStartedNow 9 0 ?w)) St_done False ?f [None] None)"
    by (rule pr_to [OF 10 p_stop]) simp_all
  show ?thesis
    by (rule pr_to [OF 11 p_return [of _ ?e]]) (simp_all add: proc_stale_def)
qed

lemma proc_fresh: "base_fresh proc_world 0 []"
  by (simp add: base_fresh_def proc_world_def)

text \<open>
  A sidecar whose server fails early leaves a wrong status: its deferred \<open>Stopped\<close> comes before the
  client's function is marked as started, and the service that has returned says "started" for ever.
\<close>

theorem process_status_stale:
  "\<exists>s. proc_reach proc_world 0 s \<and> pr_ret s = Some None \<and> proc_done 0 s \<and>
       Base_Status 0 (pr_world s) = (''started'', 9)"
  by (rule exI [of _ proc_stale])
     (simp add: proc_stale_reach, simp add: proc_stale_def Base_Status_def SetStartedNow_def proc_done_def
        Base_Stop_def ctx_done_do_cancel proc_world_def Base_Stopped_def)

theorem process_result_witness:
  "(pr_rets proc_stale = [None] \<or> pr_rets proc_stale = [] \<and> None = (None :: go_err option) \<and>
      ctx_done (pr_world proc_stale) []) \<and>
   proc_done 0 proc_stale \<and> (\<exists>e. hr_pc (pr_side proc_stale) = Hp_ret e)"
  by (rule process_result [OF proc_fresh proc_stale_reach]) (simp add: proc_stale_def)

theorem process_terminates_witness:
  "\<exists>s'. proc_step 0 (proc_init proc_world) s'"
  using process_terminates [OF proc_fresh pr_init] by (simp add: proc_init_def)

theorem process_runs_end_witness:
  "{n. \<exists>s'. (proc_step 0 ^^ n) (proc_init proc_world) s'} \<subseteq> {..27}"
  using process_runs_end [OF proc_fresh pr_init] by blast

text \<open>A run without failures.\<close>

definition proc_good :: "nat proc_run" where
  "proc_good =
     \<lparr>pr_world = Base_Stopped 0 (Base_Stop 0 (SetStartedNow 9 0 proc_world)), pr_start = St_done,
      pr_timer = False,
      pr_side = \<lparr>hr_pc = Hp_ret None, hr_sd = Sd_done, hr_closed = True, hr_errCh = []\<rparr>,
      pr_err = None, pr_rets = [None], pr_ret = Some None\<rparr>"

lemma proc_good_reach: "proc_reach proc_world 0 proc_good"
proof -
  let ?r = "\<lambda>p sd cl ch. \<lparr>hr_pc = p, hr_sd = sd, hr_closed = cl, hr_errCh = ch\<rparr>"
  let ?i = "?r Hp_start Sd_none False []"
  let ?s = "\<lambda>w st tm r rets ret. \<lparr>pr_world = w, pr_start = st, pr_timer = tm, pr_side = r, pr_err = None,
      pr_rets = rets, pr_ret = ret\<rparr> :: nat proc_run"
  let ?m = "SetStartedNow 9 0 proc_world"
  let ?w = "Base_Stop 0 ?m"
  let ?d = "\<lambda>r. ?s ?w St_done False r [None] None"
  have 0: "proc_reach proc_world 0 (?s proc_world St_sleep False ?i [] None)"
    using pr_init [of proc_world 0] by (simp add: proc_init_def http_init_def)
  have 1: "proc_reach proc_world 0 (?s proc_world St_sleep True ?i [] None)"
    by (rule pr_to [OF 0 p_sleep [where st = St_sleep and t = True]]) (simp_all add: sl_timer)
  have 2: "proc_reach proc_world 0 (?s proc_world St_check False ?i [] None)"
    by (rule pr_to [OF 1 p_sleep [where st = St_check and t = False]]) (simp_all add: sl_fired)
  have nd: "\<not> proc_done 0 (?s proc_world St_check False ?i [] None)"
    by (simp add: proc_done_def ctx_done_def proc_world_def)
  have 3: "proc_reach proc_world 0 (?s proc_world St_mark False ?i [] None)"
    by (rule pr_to [OF 2 p_check]) (use nd in simp_all)
  have 4: "proc_reach proc_world 0 (?s ?m St_start False ?i [] None)"
    by (rule pr_to [OF 3 p_mark [of _ _ 9]]) simp_all
  have 5: "proc_reach proc_world 0 (?s ?m St_stop False ?i [None] None)"
    by (rule pr_to [OF 4 p_start [of _ _ None]]) simp_all
  have 6: "proc_reach proc_world 0 (?d ?i)"
    by (rule pr_to [OF 5 p_stop]) simp_all
  have 7: "proc_reach proc_world 0 (?d (?r Hp_side Sd_wait False []))"
    by (rule pr_side_to [OF 6 h_start]) simp_all
  have 8: "proc_reach proc_world 0 (?d (?r Hp_mark Sd_wait False []))"
    by (rule pr_side_to [OF 7 h_side]) simp_all
  have 9: "proc_reach proc_world 0 (?d (?r Hp_serve Sd_wait False []))"
    by (rule pr_side_to [OF 8 h_mark]) simp_all
  have dn: "ctx_done ?w (Ctx (w_bases ?w 0))"
    by (simp add: ctx_done_do_cancel Base_Stop_def proc_world_def SetStartedNow_def)
  have 10: "proc_reach proc_world 0 (?d (?r Hp_serve Sd_shutting True []))"
    by (rule pr_side_to [OF 9 h_shutdown]) (use dn in simp_all)
  have 11: "proc_reach proc_world 0 (?d (?r Hp_serve Sd_done True [None]))"
    by (rule pr_side_to [OF 10 h_shutdown_end [of _ _ _ _ _ None]]) simp_all
  have 12: "proc_reach proc_world 0 (?d (?r Hp_errCh Sd_done True [None]))"
    by (rule pr_side_to [OF 11 h_closed]) simp_all
  have 13: "proc_reach proc_world 0 (?d (?r Hp_wait Sd_done True []))"
    by (rule pr_side_to [OF 12 h_errCh [of _ None "[]"]]) simp_all
  have 14: "proc_reach proc_world 0 (?d (?r (Hp_stopped None) Sd_done True []))"
    by (rule pr_side_to [OF 13 h_wait]) simp_all
  have 15: "proc_reach proc_world 0 (?s (Base_Stopped 0 ?w) St_done False (?r (Hp_ret None) Sd_done True []) [None] None)"
    by (rule pr_side_to [OF 14 h_stopped [of _ None]]) simp_all
  show ?thesis
    by (rule pr_to [OF 15 p_return [of _ None]]) (simp_all add: proc_good_def)
qed

theorem process_status_stopped_witness: "fst (Base_Status 0 (pr_world proc_good)) = ''stopped''"
  by (rule process_status_stopped [OF proc_fresh proc_good_reach])
     (simp_all add: proc_good_def ctx_done_def)

subsection \<open>From \<open>New\<close> to the runs\<close>

text \<open>
  What \<open>New\<close> answers is what the theorems on runs need: a base whose own cancel function is new, with
  a context below the one given by the options, shared with its sidecar.
\<close>

theorem proc_New_fresh:
  assumes "proc_New H opts w = (Inr (Inr svc), w')"
    and "\<forall>n \<in> w_cancelled w. n < w_nctx w"
    and "\<forall>n \<in> set (po_ctx (fold apply_proc opts
           \<lparr>po_starter = noop, po_healthCheckFN = None, po_ctx = [], po_name = ''noop'', po_addr = [],
            po_listener = None, po_profilingEnabled = False\<rparr>)). n < w_nctx w"
  shows "base_fresh w' (ps_Base svc) (po_ctx (fold apply_proc opts
           \<lparr>po_starter = noop, po_healthCheckFN = None, po_ctx = [], po_name = ''noop'', po_addr = [],
            po_listener = None, po_profilingEnabled = False\<rparr>)) \<and>
         hc_base (ps_sidecar svc) = ps_Base svc \<and> hc_imsidecar (ps_sidecar svc) \<and>
         hc_serviceStatusFn (ps_sidecar svc) = Some (Base_Status (ps_Base svc))"
proof -
  let ?o = "fold apply_proc opts
     \<lparr>po_starter = noop, po_healthCheckFN = None, po_ctx = [], po_name = ''noop'', po_addr = [],
      po_listener = None, po_profilingEnabled = False\<rparr>"
  obtain b where b: "Base_New (he_base H) [WithName (po_name ?o), WithContext (po_ctx ?o),
      WithKind ''headless'', WithAddr (po_addr ?o)] w = (Inr b, w')" and svc: "ps_Base svc = b"
    "hc_base (ps_sidecar svc) = b" "hc_imsidecar (ps_sidecar svc)"
    "hc_serviceStatusFn (ps_sidecar svc) = Some (Base_Status b)"
    using assms(1)
    by (auto simp: proc_New_def NewSidecar_def Let_def split: prod.splits sum.splits option.splits)
  show ?thesis
    using Base_New_ok [OF b] svc assms(2,3) by (auto simp: base_fresh_def)
qed

definition proc_demo_env :: "(nat, nat) http_env" where
  "proc_demo_env = \<lparr>he_env = Map.empty, he_ParseDuration = (\<lambda>s. Inl (Err [])),
     he_base = \<lparr>be_obs_New = (\<lambda>c d. Inr 0), be_log_writer = (\<lambda>n. None)\<rparr>,
     he_otel_enabled = (\<lambda>o'. False), he_DefaultListener = 0\<rparr>"

theorem proc_New_fresh_witness:
  "base_fresh (snd (proc_New proc_demo_env [PWithContext [0]] proc_world)) 1 [0]"
proof -
  obtain svc where svc: "proc_New proc_demo_env [PWithContext [0]] proc_world =
      (Inr (Inr svc), snd (proc_New proc_demo_env [PWithContext [0]] proc_world))" and b: "ps_Base svc = 1"
    by (simp add: proc_New_def proc_demo_env_def Base_New_def WithCancel_def NewSidecar_def
        default_common_def proc_world_def Let_def)
  from proc_New_fresh [OF svc] b show ?thesis by (simp add: proc_world_def)
qed

text \<open>
  \<open>Serve\<close> and its variants up to the run, and \<^verbatim>\<open>container.go\<close>.  The delay has no part in a run, whose
  timer may fire at any moment: without a delay it is the same run.
\<close>

definition ServeWithDelay ::
    "('l \<Rightarrow> string \<Rightarrow> go_err + 'c) \<Rightarrow> ('o, 'l) proc_service \<Rightarrow> 'o world \<Rightarrow> go_err + 'o proc_run" where
  "ServeWithDelay Listen s w =
     (case Listen (hc_Listener (ps_sidecar s)) (Addr (w_bases w (ps_Base s))) of
        Inl err \<Rightarrow> Inl err
      | Inr lis \<Rightarrow> Inr (proc_init w))"

definition proc_Serve ::
    "('l \<Rightarrow> string \<Rightarrow> go_err + 'c) \<Rightarrow> ('o, 'l) proc_service \<Rightarrow> 'o world \<Rightarrow> go_err + 'o proc_run" where
  "proc_Serve Listen s w = ServeWithDelay Listen s w"

definition proc_DoServe :: "'o world \<Rightarrow> 'o proc_run" where
  "proc_DoServe w = proc_init w"

definition proc_Container_client ::
    "'o world \<Rightarrow> ('o, 'l) proc_service option \<Rightarrow> 'b \<Rightarrow> go_err + 'b HealthCheckClient" where
  "proc_Container_client w svc builder =
     (case svc of
        None \<Rightarrow> Inl (Err ''service not set'')
      | Some s \<Rightarrow> Inr (proc_NewHelthCheckClient w (ps_Base s) builder))"

definition proc_Container_Addr :: "environ \<Rightarrow> string \<Rightarrow> string" where
  "proc_Container_Addr e nm = (let addrEnv = nm @ ''.addr'' in env_String addrEnv [[]] e)"

definition proc_AddrOrPanic :: "environ \<Rightarrow> string \<Rightarrow> string go" where
  "proc_AddrOrPanic e nm =
     (let a = proc_Container_Addr e nm in
      if a = [] then Inl (PanicMsg (''.addr not configured for '' @ nm)) else Inr a)"

end
