(* ===== verification/Http_Run.thy ===== *)
theory Http_Run
  imports Http_Service Service_Run
begin

text \<open>
  An HTTP service with its profiling sidecar: \<open>New\<close> with \<open>WithProfilingEnabled\<close> and then \<open>Serve\<close>
  (\<^verbatim>\<open>pkg/service/http/service.go\<close>), as the steps of the two \<open>DoServe\<close>s of \<open>Service_Run\<close> in one world.  The
  service has no \<open>Stop\<close>: it ends with the context of its options.
\<close>

record 'o pair_run =
  hm_world :: "'o world"
  hm_main :: http_run
  hm_side :: "http_run option"

definition pair_init :: "'o world \<Rightarrow> bool \<Rightarrow> 'o pair_run" where
  "pair_init w sidecar =
     \<lparr>hm_world = w, hm_main = http_init Hp_listen,
      hm_side = (if sidecar then Some (http_init Hp_listen) else None)\<rparr>"

text \<open>The goroutine of the sidecar is started after the one that shuts the server down.\<close>

definition side_spawned :: "http_run \<Rightarrow> bool" where
  "side_spawned r \<longleftrightarrow> hr_sd r \<noteq> Sd_none \<and> hr_pc r \<noteq> Hp_side"

inductive pair_step :: "nat \<Rightarrow> nat \<Rightarrow> 'o pair_run \<Rightarrow> 'o pair_run \<Rightarrow> bool" for b sb where
  s_main: "http_step b False (side_returned (hm_side s)) (hm_world s) (hm_main s) w' r' \<Longrightarrow>
    pair_step b sb s (s\<lparr>hm_world := w', hm_main := r'\<rparr>)"
| s_side: "side_spawned (hm_main s) \<Longrightarrow> hm_side s = Some r \<Longrightarrow>
    http_step sb True True (hm_world s) r w' r' \<Longrightarrow>
    pair_step b sb s (s\<lparr>hm_world := w', hm_side := Some r'\<rparr>)"

text \<open>The surroundings: a listener or a server fails, a parent context is cancelled.\<close>

inductive pair_env :: "ctx \<Rightarrow> 'o pair_run \<Rightarrow> 'o pair_run \<Rightarrow> bool" for p where
  se_main_fail: "http_fail (hm_main s) r' \<Longrightarrow> pair_env p s (s\<lparr>hm_main := r'\<rparr>)"
| se_side_fail: "side_spawned (hm_main s) \<Longrightarrow> hm_side s = Some r \<Longrightarrow> http_fail r r' \<Longrightarrow>
    pair_env p s (s\<lparr>hm_side := Some r'\<rparr>)"
| se_parent: "n \<in> set p \<Longrightarrow> pair_env p s (s\<lparr>hm_world := do_cancel n (hm_world s)\<rparr>)"

inductive pair_reach :: "'o world \<Rightarrow> bool \<Rightarrow> nat \<Rightarrow> nat \<Rightarrow> ctx \<Rightarrow> 'o pair_run \<Rightarrow> bool"
  for w sidecar b sb p where
  sr_init: "pair_reach w sidecar b sb p (pair_init w sidecar)"
| sr_step: "pair_reach w sidecar b sb p s \<Longrightarrow> pair_step b sb s s' \<Longrightarrow> pair_reach w sidecar b sb p s'"
| sr_env: "pair_reach w sidecar b sb p s \<Longrightarrow> pair_env p s s' \<Longrightarrow> pair_reach w sidecar b sb p s'"

subsection \<open>The invariant\<close>

text \<open>A server that has returned without an error has waited for its sidecar and marked its base stopped.\<close>

definition pair_inv :: "nat \<Rightarrow> nat \<Rightarrow> ctx \<Rightarrow> 'o pair_run \<Rightarrow> bool" where
  "pair_inv b sb p s \<longleftrightarrow>
     bases_ok (hm_world s) b sb p \<and> http_inv (hm_main s) \<and>
     (\<forall>r. hm_side s = Some r \<longrightarrow> http_inv r) \<and>
     (hr_pc (hm_main s) = Hp_stopped None \<or> hr_pc (hm_main s) = Hp_ret None \<longrightarrow>
        side_returned (hm_side s)) \<and>
     (\<forall>e. hr_pc (hm_main s) = Hp_ret e \<longrightarrow> hr_sd (hm_main s) \<noteq> Sd_none \<longrightarrow>
        status (w_bases (hm_world s) b) = StatusStopped)"

definition pair_measure :: "'o pair_run \<Rightarrow> nat" where
  "pair_measure s = http_measure (hm_main s) + (case hm_side s of None \<Rightarrow> 0 | Some r \<Rightarrow> http_measure r)"

lemma pair_step_measure: "pair_step b sb s s' \<Longrightarrow> pair_measure s' < pair_measure s"
  by (induction rule: pair_step.induct)
     (auto simp: pair_measure_def dest: http_step_measure split: option.splits)

lemma pair_inv_init: "bases_ok w b sb p \<Longrightarrow> pair_inv b sb p (pair_init w sidecar)"
  using http_inv_init [of Hp_listen] by (simp add: pair_inv_def pair_init_def http_init_def)

text \<open>What a step of the server itself gives: its end, and what it has waited for by then.\<close>

lemma http_step_end:
  "http_step b False waited w r w' r' \<Longrightarrow>
     (hr_pc r' = Hp_stopped None \<longrightarrow> waited \<or> hr_pc r = Hp_stopped None) \<and>
     (hr_pc r' = Hp_ret e \<longrightarrow> hr_pc r = Hp_stopped e \<and> status (w_bases w' b) = StatusStopped \<or>
        hr_pc r = Hp_ret e \<and> hr_sd r \<noteq> Sd_none \<and> w' = w)"
  by (induction rule: http_step.induct) (auto simp: Base_Stopped_def split: option.splits)

lemma pair_inv_step:
  assumes "pair_step b sb s s'" and "pair_inv b sb p s"
  shows "pair_inv b sb p s'"
  using assms
proof (induction rule: pair_step.induct)
  case (s_main s w' r')
  have bo: "bases_ok w' b sb p"
    by (rule bases_ok_world [of "hm_world s"])
       (use s_main http_step_world [OF s_main(1)] in \<open>simp_all add: pair_inv_def\<close>)
  show ?case
    using s_main(2) bo http_inv_step [OF s_main(1)] http_step_end [OF s_main(1)]
    by (auto simp: pair_inv_def)
next
  case (s_side s r w' r')
  have bo: "bases_ok w' b sb p"
    by (rule bases_ok_world [of "hm_world s"])
       (use s_side http_step_world [OF s_side(3)] in \<open>simp_all add: pair_inv_def\<close>)
  have "w_bases w' b = w_bases (hm_world s) b"
    using http_step_status [OF s_side(3)] s_side(4) by (auto simp: pair_inv_def bases_ok_def)
  then show ?case
    using s_side(2,4) bo http_inv_step [OF s_side(3)] http_step_returned [OF s_side(3)]
    by (auto simp: pair_inv_def side_returned_def)
qed

lemma http_fail_end:
  "http_fail r r' \<Longrightarrow> http_inv r \<Longrightarrow>
     hr_pc r' \<noteq> Hp_stopped None \<and> (hr_pc r' = Hp_ret e \<longrightarrow> hr_sd r' = Sd_none \<and> e \<noteq> None)"
  by (induction rule: http_fail.induct) (auto simp: http_inv_def)

lemma pair_inv_env:
  assumes "pair_env p s s'" and "pair_inv b sb p s"
  shows "pair_inv b sb p s'"
  using assms
proof (induction rule: pair_env.induct)
  case (se_main_fail s r')
  then show ?case
    using http_fail_end [OF se_main_fail(1)] http_inv_fail [OF se_main_fail(1)]
    by (auto simp: pair_inv_def)
next
  case (se_side_fail s r r')
  then show ?case
    using http_inv_fail [OF se_side_fail(3)] http_fail_returned [OF se_side_fail(3)]
    by (auto simp: pair_inv_def side_returned_def)
qed (simp add: pair_inv_def bases_ok_def)

lemma pair_reach_inv: "pair_reach w sidecar b sb p s \<Longrightarrow> bases_ok w b sb p \<Longrightarrow> pair_inv b sb p s"
  by (induction rule: pair_reach.induct) (blast intro: pair_inv_init pair_inv_step pair_inv_env)+

subsection \<open>Every run ends\<close>

lemma ctx_done_child: "ctx_done w p \<Longrightarrow> bases_ok w b sb p \<Longrightarrow>
    ctx_done w (Ctx (w_bases w b)) \<and> ctx_done w (Ctx (w_bases w sb))"
  by (metis bases_ok_def ctx_done_parent)

text \<open>Once the context of the options is done, the service can go on until both servers are over.\<close>

lemma pair_progress:
  assumes "pair_inv b sb p s" and "ctx_done (hm_world s) p" and "\<not> (\<exists>s'. pair_step b sb s s')"
  shows "\<exists>e. hr_pc (hm_main s) = Hp_ret e"
    and "side_spawned (hm_main s) \<Longrightarrow> side_returned (hm_side s)"
proof -
  have dn: "ctx_done (hm_world s) (Ctx (w_bases (hm_world s) b))"
      "ctx_done (hm_world s) (Ctx (w_bases (hm_world s) sb))"
    using ctx_done_child assms(1,2) by (auto simp: pair_inv_def)
  show side: "side_returned (hm_side s)" if spawned: "side_spawned (hm_main s)"
  proof (rule ccontr)
    assume "\<not> side_returned (hm_side s)"
    then obtain r where r: "hm_side s = Some r" "\<forall>e. hr_pc r \<noteq> Hp_ret e"
      by (auto simp: side_returned_def split: option.splits)
    have "http_inv r" using assms(1) r(1) by (simp add: pair_inv_def)
    then have "\<exists>w' r'. http_step sb True True (hm_world s) r w' r'"
      using r(2) dn by (intro http_progress) auto
    then show False using s_side [OF spawned r(1)] assms(3) by blast
  qed
  show "\<exists>e. hr_pc (hm_main s) = Hp_ret e"
  proof (rule ccontr)
    assume "\<nexists>e. hr_pc (hm_main s) = Hp_ret e"
    moreover have hi: "http_inv (hm_main s)" using assms(1) by (simp add: pair_inv_def)
    moreover have "hr_pc (hm_main s) = Hp_wait \<Longrightarrow> side_returned (hm_side s)"
      using hi side by (auto simp: http_inv_def side_spawned_def)
    ultimately have "\<exists>w' r'. http_step b False (side_returned (hm_side s)) (hm_world s) (hm_main s) w' r'"
      using dn by (intro http_progress) auto
    then show False using s_main assms(3) by blast
  qed
qed

text \<open>
  Once the context given to an HTTP service is done, its \<open>Serve\<close> ends, with or without a profiling
  sidecar: every step of the program lowers a measure, and a state in which no goroutine can go on is
  one in which the service has returned and a sidecar that was started is over.  When it has served, it
  is marked stopped.
\<close>

theorem http_returns:
  assumes "bases_ok w b sb p" and "pair_reach w sidecar b sb p s" and "ctx_done (hm_world s) p"
  shows "(\<forall>s'. pair_step b sb s s' \<longrightarrow> pair_measure s' < pair_measure s) \<and>
    (\<not> (\<exists>s'. pair_step b sb s s') \<longrightarrow>
       (\<exists>e. hr_pc (hm_main s) = Hp_ret e) \<and>
       (side_spawned (hm_main s) \<longrightarrow> side_returned (hm_side s) \<and>
          fst (Base_Status b (hm_world s)) = ''stopped''))"
proof -
  have inv: "pair_inv b sb p s" by (rule pair_reach_inv [OF assms(2,1)])
  have "fst (Base_Status b (hm_world s)) = ''stopped''"
    if "hr_pc (hm_main s) = Hp_ret e" "side_spawned (hm_main s)" for e
    using inv that by (auto simp: pair_inv_def side_spawned_def Base_Status_def)
  then show ?thesis using pair_step_measure pair_progress [OF inv assms(3)] by blast
qed

text \<open>
  A server that returned without an error has left no sidecar running; one whose \<^verbatim>\<open>Serve\<close> failed does
  not wait for it.
\<close>

theorem http_returned_clean:
  assumes "bases_ok w b sb p" and "pair_reach w sidecar b sb p s" and "hr_pc (hm_main s) = Hp_ret None"
  shows "side_returned (hm_side s)"
  using pair_reach_inv [OF assms(2,1)] assms(3) by (simp add: pair_inv_def)

text \<open>\<open>Serve\<close> up to the run.\<close>

definition http_Serve ::
    "('l \<Rightarrow> string \<Rightarrow> go_err + 'c) \<Rightarrow> ('o, 'l) http_service \<Rightarrow> 'o world \<Rightarrow> go_err + 'o pair_run" where
  "http_Serve Listen s w =
     (case Listen (hc_Listener s) (Addr (w_bases w (hc_base s))) of
        Inl err \<Rightarrow> Inl err
      | Inr lis \<Rightarrow> Inr (pair_init w (hc_sidecar s \<noteq> None)))"

text \<open>A service made with profiling has the bases the theorems on its runs suppose.\<close>

lemma http_New_bases:
  assumes "http_New H opts w = (Inr (Inr svc), w')" and "hc_sidecar svc = Some sc"
  shows "bases_ok w' (hc_base svc) (hc_base sc) (so_ctx (fold apply_service opts
           \<lparr>so_addr = [], so_common = default_common (he_DefaultListener H), so_ctx = [],
            so_name = [], so_profilingEnabled = False, so_pprofAddr = None\<rparr>))"
proof -
  let ?o = "fold apply_service opts
     \<lparr>so_addr = [], so_common = default_common (he_DefaultListener H), so_ctx = [],
      so_name = [], so_profilingEnabled = False, so_pprofAddr = None\<rparr>"
  obtain b w1 where b: "Base_New (he_base H) [WithName (so_name ?o), WithAddr (so_addr ?o),
      WithContext (so_ctx ?o), WithKind ''rest''] w = (Inr b, w1)" and sb: "hc_base svc = b"
    and sc: "pprof_sidecar H (so_ctx ?o) (so_pprofAddr ?o) (Some (listener (so_common ?o))) w1 = (Inr (Inr sc), w')"
    using assms
    by (auto simp: http_New_def Let_def split: prod.splits sum.splits option.splits if_splits)
  obtain addr where c: "Base_New (he_base H) [WithName ''pprof'', WithAddr addr,
      WithContext (so_ctx ?o), WithKind ''pprof''] w1 = (Inr (hc_base sc), w')"
    using pprof_sidecar_base [OF sc] .
  show ?thesis using two_bases [OF b c] by (simp add: sb)
qed

subsection \<open>Runs of both servers\<close>

lemma pair_keeps:
  assumes "pair_step b sb s s'" and "pair_inv b sb p s \<and> ctx_done (hm_world s) p"
  shows "pair_inv b sb p s' \<and> ctx_done (hm_world s') p"
proof -
  have "w_cancelled (hm_world s') = w_cancelled (hm_world s)"
    using assms(1) by (cases rule: pair_step.cases) (auto dest: http_step_world)
  then show ?thesis using assms(2) pair_inv_step [OF assms(1)] by (simp add: ctx_done_def)
qed

definition pair_ended :: "'o pair_run \<Rightarrow> bool" where
  "pair_ended s \<longleftrightarrow> (\<exists>e. hr_pc (hm_main s) = Hp_ret e) \<and>
     (side_spawned (hm_main s) \<longrightarrow> side_returned (hm_side s))"

interpretation pair: bounded_run "pair_step b sb" "\<lambda>s. pair_inv b sb p s \<and> ctx_done (hm_world s) p"
    pair_measure pair_ended for b sb p
proof
  fix s :: "'a pair_run"
  assume "pair_inv b sb p s \<and> ctx_done (hm_world s) p" "\<not> pair_ended s"
  then show "\<exists>s'. pair_step b sb s s'" using pair_progress unfolding pair_ended_def by blast
qed (fact pair_keeps, erule pair_step_measure)

lemma pair_reach_measure: "pair_reach w sidecar b sb p s \<Longrightarrow> pair_measure s \<le> 28"
proof (induction rule: pair_reach.induct)
  case (sr_step s s')
  then show ?case using pair_step_measure by fastforce
next
  case (sr_env s s')
  from sr_env(2) have "pair_measure s' \<le> pair_measure s"
    by (cases rule: pair_env.cases) (auto simp: pair_measure_def dest: http_fail_measure)
  then show ?case using sr_env by simp
qed (simp add: pair_measure_def pair_init_def http_measure_def http_init_def)

text \<open>
  C9. Whatever happened before, from the moment the context of its options is done an HTTP service with
  its profiling sidecar takes at most 28 more steps, and when neither can go on the service has returned
  and its sidecar, if it was started, is over.
\<close>

theorem http_runs_end:
  assumes "bases_ok w b sb p" and "pair_reach w sidecar b sb p s" and "ctx_done (hm_world s) p"
  shows "{n. \<exists>s'. (pair_step b sb ^^ n) s s'} \<subseteq> {..28} \<and>
    {s'. (pair_step b sb)\<^sup>*\<^sup>* s s' \<and> (\<nexists>s''. pair_step b sb s' s'')} \<subseteq>
    {s'. (\<exists>e. hr_pc (hm_main s') = Hp_ret e) \<and> (side_spawned (hm_main s') \<longrightarrow> side_returned (hm_side s'))}"
proof
  show "{n. \<exists>s'. (pair_step b sb ^^ n) s s'} \<subseteq> {..28}"
    using pair.run_length [OF _ conjI [OF pair_reach_inv [OF assms(2,1)] assms(3)]]
      pair_reach_measure [OF assms(2)] by fastforce
  have "pair_inv b sb p s \<and> ctx_done (hm_world s) p" using pair_reach_inv [OF assms(2,1)] assms(3) by blast
  from pair.ends(2) [OF this]
  show "{s'. (pair_step b sb)\<^sup>*\<^sup>* s s' \<and> (\<nexists>s''. pair_step b sb s' s'')} \<subseteq>
    {s'. (\<exists>e. hr_pc (hm_main s') = Hp_ret e) \<and> (side_spawned (hm_main s') \<longrightarrow> side_returned (hm_side s'))}"
    by (simp add: pair_ended_def)
qed

subsection \<open>The status a client sees\<close>

text \<open>Until the server is marked started its base is starting; from then until it is over it is started.\<close>

fun status_at :: "http_pc \<Rightarrow> StatusType option" where
  "status_at (Hp_ret e) = None"
| "status_at Hp_listen = Some StatusStarting"
| "status_at Hp_start = Some StatusStarting"
| "status_at Hp_side = Some StatusStarting"
| "status_at Hp_mark = Some StatusStarting"
| "status_at _ = Some StatusStarted"

definition seen_status :: "nat \<Rightarrow> 'o pair_run \<Rightarrow> StatusType" where
  "seen_status b s = status (w_bases (hm_world s) b)"

definition status_ok :: "http_run \<Rightarrow> StatusType \<Rightarrow> bool" where
  "status_ok r st \<longleftrightarrow>
     (case status_at (hr_pc r) of
        Some t \<Rightarrow> st = t
      | None \<Rightarrow> st = (if hr_sd r = Sd_none then StatusStarting else StatusStopped))"

definition status_inv :: "nat \<Rightarrow> 'o pair_run \<Rightarrow> bool" where
  "status_inv b s \<longleftrightarrow> status_ok (hm_main s) (seen_status b s)"

definition pair_any :: "nat \<Rightarrow> nat \<Rightarrow> ctx \<Rightarrow> 'o pair_run \<Rightarrow> 'o pair_run \<Rightarrow> bool" where
  "pair_any b sb p s s' \<longleftrightarrow> pair_step b sb s s' \<or> pair_env p s s'"

lemma http_step_status_ok:
  assumes "http_step b False waited w r w' r'" and "http_inv r" and "status_ok r (status (w_bases w b))"
  shows "status_ok r' (status (w_bases w' b))"
    and "lifecycle (status (w_bases w b)) (status (w_bases w' b)) \<or> status (w_bases w' b) = status (w_bases w b)"
  using assms
  by (induction rule: http_step.induct)
     (auto simp: status_ok_def SetStartedNow_def Base_Stopped_def http_inv_def split: option.splits)

lemma http_fail_status_ok:
  "http_fail r r' \<Longrightarrow> http_inv r \<Longrightarrow> status_ok r st \<Longrightarrow> status_ok r' st"
  by (induction rule: http_fail.induct) (auto simp: status_ok_def http_inv_def)

lemma pair_any_status:
  assumes "pair_any b sb p s s'" and "pair_inv b sb p s" and "status_inv b s"
  shows "status_inv b s'" and "lifecycle (seen_status b s) (seen_status b s') \<or> seen_status b s' = seen_status b s"
proof -
  have hi: "http_inv (hm_main s)" and ne: "b \<noteq> sb" using assms(2) by (auto simp: pair_inv_def bases_ok_def)
  consider (step) "pair_step b sb s s'" | (env) "pair_env p s s'" using assms(1) by (auto simp: pair_any_def)
  then have "status_inv b s' \<and>
      (lifecycle (seen_status b s) (seen_status b s') \<or> seen_status b s' = seen_status b s)"
  proof cases
    case step
    then show ?thesis
    proof (cases rule: pair_step.cases)
      case (s_main w' r')
      then show ?thesis
        using http_step_status_ok [OF s_main(2) hi] assms(3) by (simp add: status_inv_def seen_status_def)
    next
      case (s_side r w' r')
      then have "w_bases w' b = w_bases (hm_world s) b" using http_step_status ne by blast
      then show ?thesis using assms(3) s_side by (simp add: status_inv_def seen_status_def)
    qed
  next
    case env
    then show ?thesis
    proof (cases rule: pair_env.cases)
      case (se_main_fail r')
      then show ?thesis
        using http_fail_status_ok [OF se_main_fail(2) hi] assms(3) by (simp add: status_inv_def seen_status_def)
    qed (use assms(3) in \<open>simp_all add: status_inv_def seen_status_def\<close>)
  qed
  then show "status_inv b s'" "lifecycle (seen_status b s) (seen_status b s') \<or> seen_status b s' = seen_status b s"
    by blast+
qed

lemma pair_any_inv: "pair_any b sb p s s' \<Longrightarrow> pair_inv b sb p s \<Longrightarrow> pair_inv b sb p s'"
  using pair_inv_step pair_inv_env by (auto simp: pair_any_def)

interpretation pair_life: follows_up "pair_any b sb p" "\<lambda>s. pair_inv b sb p s \<and> status_inv b s"
    "seen_status b" lifecycle for b sb p
  by unfold_locales (auto dest: pair_any_inv pair_any_status lifecycle_up)

text \<open>
  C10. The status of an HTTP service, whatever its sidecar, its listener, its server and its parents do:
  from starting, every run is one of the abstract life cycle, so a client that asks twice never sees it
  move back.
\<close>

theorem http_lifecycle:
  assumes "bases_ok w b sb p" and "status (w_bases w b) = StatusStarting"
    and "(pair_any b sb p)\<^sup>*\<^sup>* (pair_init w sidecar) s" and "(pair_any b sb p)\<^sup>*\<^sup>* s s'"
  shows "lifecycle\<^sup>*\<^sup>* StatusStarting (seen_status b s) \<and>
         lifecycle\<^sup>*\<^sup>* (seen_status b s) (seen_status b s') \<and> seen_status b s \<le> seen_status b s'"
proof -
  have i: "pair_inv b sb p (pair_init w sidecar) \<and> status_inv b (pair_init w sidecar)"
    using pair_inv_init [OF assms(1)] assms(2)
    by (simp add: status_inv_def status_ok_def pair_init_def http_init_def seen_status_def)
  have "seen_status b (pair_init w sidecar) = StatusStarting"
    using assms(2) by (simp add: seen_status_def pair_init_def)
  moreover note pair_life.simulates_run [OF assms(3) i]
  ultimately show ?thesis
    using pair_life.simulates_run [OF assms(4)] pair_life.seen_up [OF assms(4)] by auto
qed

subsection \<open>A run\<close>

definition pair_world :: "nat world" where
  "pair_world = \<lparr>w_bases = (\<lambda>i. \<lparr>Meta = no_Data, startTime = 0, status = StatusStarting, Addr = ''h:1'',
     OtelProvider = None, Ctx = [Suc i, 0], cancel = Suc i, logWriter = None\<rparr>),
     w_nbases = 2, w_nctx = 3, w_cancelled = {}\<rparr>"

lemma pair_bases: "bases_ok pair_world 0 1 [0]"
  by (simp add: bases_ok_def pair_world_def)

lemma pr_main_to:
  assumes "pair_reach w sidecar b sb p \<lparr>hm_world = w1, hm_main = r1, hm_side = d\<rparr>"
    and "http_step b False (side_returned d) w1 r1 w' r'" and "w' = w2" and "r' = r2"
  shows "pair_reach w sidecar b sb p \<lparr>hm_world = w2, hm_main = r2, hm_side = d\<rparr>"
  using sr_step [OF assms(1) s_main [of b "\<lparr>hm_world = w1, hm_main = r1, hm_side = d\<rparr>" w' r' sb]] assms(2-4)
  by simp

text \<open>The service without a sidecar is served until the context \<open>[0]\<close> is cancelled, and returns.\<close>

definition pair_over :: "nat pair_run" where
  "pair_over = \<lparr>hm_world = Base_Stopped 0 (do_cancel 0 (SetStartedNow 9 0 pair_world)),
     hm_main = \<lparr>hr_pc = Hp_ret None, hr_sd = Sd_done, hr_closed = True, hr_errCh = []\<rparr>, hm_side = None\<rparr>"

lemma pair_over_reach: "pair_reach pair_world False 0 1 [0] pair_over"
proof -
  let ?R = "\<lambda>w r. pair_reach pair_world False 0 1 [0] \<lparr>hm_world = w, hm_main = r, hm_side = None\<rparr>"
  let ?r = "\<lambda>p d c e. \<lparr>hr_pc = p, hr_sd = d, hr_closed = c, hr_errCh = e\<rparr>"
  let ?w = "SetStartedNow 9 0 pair_world" and ?c = "do_cancel 0 (SetStartedNow 9 0 pair_world)"
  have "?R pair_world (?r Hp_listen Sd_none False [])"
    using sr_init [of pair_world False 0 1 "[0]"] by (simp add: pair_init_def http_init_def)
  then have "?R pair_world (?r Hp_start Sd_none False [])" by (rule pr_main_to [OF _ h_listen]) simp_all
  then have "?R pair_world (?r Hp_side Sd_wait False [])" by (rule pr_main_to [OF _ h_start]) simp_all
  then have "?R pair_world (?r Hp_mark Sd_wait False [])" by (rule pr_main_to [OF _ h_side]) simp_all
  then have "?R ?w (?r Hp_serve Sd_wait False [])" by (rule pr_main_to [OF _ h_mark [where now = 9]]) simp_all
  then have "?R ?c (?r Hp_serve Sd_wait False [])"
    using sr_env [OF _ se_parent [of 0 "[0]"]] by fastforce
  then have "?R ?c (?r Hp_serve Sd_shutting True [])"
    by (rule pr_main_to [OF _ h_shutdown])
       (simp_all add: ctx_done_do_cancel pair_world_def SetStartedNow_def)
  then have "?R ?c (?r Hp_serve Sd_done True [None])"
    by (rule pr_main_to [OF _ h_shutdown_end [where e = None]]) simp_all
  then have "?R ?c (?r Hp_errCh Sd_done True [None])" by (rule pr_main_to [OF _ h_closed]) simp_all
  then have "?R ?c (?r Hp_wait Sd_done True [])"
    by (rule pr_main_to [OF _ h_errCh [where e = None and es = "[]"]]) simp_all
  then have "?R ?c (?r (Hp_stopped None) Sd_done True [])"
    by (rule pr_main_to [OF _ h_wait]) (simp_all add: side_returned_def)
  then show ?thesis unfolding pair_over_def
    by (rule pr_main_to [OF _ h_stopped [where e = None]]) simp_all
qed

lemma pair_over_no_step: "\<not> pair_step 0 1 pair_over s'"
proof
  assume "pair_step 0 1 pair_over s'"
  then show False
  proof (cases rule: pair_step.cases)
    case (s_main w' r')
    from s_main(2) show False by (cases rule: http_step.cases) (auto simp: pair_over_def)
  qed (simp add: pair_over_def)
qed

theorem http_returns_witness:
  "(\<exists>e. hr_pc (hm_main pair_over) = Hp_ret e) \<and> side_returned (hm_side pair_over) \<and>
   fst (Base_Status 0 (hm_world pair_over)) = ''stopped''"
proof -
  have d: "ctx_done (hm_world pair_over) [0]"
    by (simp add: pair_over_def ctx_done_do_cancel)
  have "\<not> (\<exists>s'. pair_step 0 1 pair_over s')" using pair_over_no_step by blast
  moreover have "side_spawned (hm_main pair_over)" by (simp add: side_spawned_def pair_over_def)
  ultimately show ?thesis using http_returns [OF pair_bases pair_over_reach d] by blast
qed

text \<open>The context is cancelled before \<open>Serve\<close> is called.\<close>

definition pair_late :: "nat pair_run" where
  "pair_late = (pair_init pair_world True)\<lparr>hm_world := do_cancel 0 pair_world\<rparr>"

theorem http_runs_end_witness:
  "{n. \<exists>s'. (pair_step 0 1 ^^ n) pair_late s'} \<subseteq> {..28} \<and>
   {s'. (pair_step 0 1)\<^sup>*\<^sup>* pair_late s' \<and> (\<nexists>s''. pair_step 0 1 s' s'')} \<subseteq>
   {s'. \<exists>e. hr_pc (hm_main s') = Hp_ret e}"
proof -
  have r: "pair_reach pair_world True 0 1 [0] pair_late"
    using sr_env [OF sr_init se_parent [of 0 "[0]" "pair_init pair_world True"]]
    by (simp add: pair_late_def pair_init_def)
  have d: "ctx_done (hm_world pair_late) [0]" by (simp add: pair_late_def ctx_done_do_cancel)
  from http_runs_end [OF pair_bases r d] show ?thesis by blast
qed

text \<open>
  From \<open>New\<close> to the end: a service made with profiling and served, whose context is cancelled at some time
  in its run, comes to a state in which it has returned, whatever it does.
\<close>

lemma http_New_Serve_ends:
  assumes "http_New H opts w = (Inr (Inr svc), w')" and "hc_sidecar svc = Some sc"
    and "http_Serve Listen svc w' = Inr s0"
    and "p = so_ctx (fold apply_service opts
           \<lparr>so_addr = [], so_common = default_common (he_DefaultListener H), so_ctx = [],
            so_name = [], so_profilingEnabled = False, so_pprofAddr = None\<rparr>)"
    and "(pair_any (hc_base svc) (hc_base sc) p)\<^sup>*\<^sup>* s0 s" and "ctx_done (hm_world s) p"
  shows "\<exists>n s' e. n \<le> pair_measure s \<and> (pair_step (hc_base svc) (hc_base sc) ^^ n) s s' \<and> hr_pc (hm_main s') = Hp_ret e"
proof -
  note bo = http_New_bases [OF assms(1,2), folded assms(4)]
  have s0: "s0 = pair_init w' True" using assms(2,3) by (simp add: http_Serve_def split: sum.splits)
  have "pair_inv (hc_base svc) (hc_base sc) p s"
    using assms(5) unfolding s0
    by (induction rule: rtranclp_induct) (auto intro: pair_inv_init [OF bo] pair_any_inv)
  from pair.ends(3) [OF conjI [OF this assms(6)]] show ?thesis unfolding pair_ended_def by blast
qed

lemma pair_reach_any: "pair_reach w sidecar b sb p s \<Longrightarrow> (pair_any b sb p)\<^sup>*\<^sup>* (pair_init w sidecar) s"
proof (induction rule: pair_reach.induct)
  case (sr_step s s')
  then have "pair_any b sb p s s'" by (simp add: pair_any_def)
  then show ?case using sr_step by (meson rtranclp.rtrancl_into_rtrancl)
next
  case (sr_env s s')
  then have "pair_any b sb p s s'" by (simp add: pair_any_def)
  then show ?case using sr_env by (meson rtranclp.rtrancl_into_rtrancl)
qed simp

theorem http_lifecycle_witness:
  "lifecycle\<^sup>*\<^sup>* StatusStarting (seen_status 0 pair_over) \<and> seen_status 0 pair_over = StatusStopped"
proof -
  have s: "status (w_bases pair_world 0) = StatusStarting" by (simp add: pair_world_def)
  from http_lifecycle [OF pair_bases s pair_reach_any [OF pair_over_reach] rtranclp.rtrancl_refl]
  show ?thesis by (simp add: seen_status_def pair_over_def Base_Stopped_def)
qed

end
