(* ===== verification/Grpc_Service.thy ===== *)
theory Grpc_Service
  imports Http_Service Service_Run
begin

text \<open>
  \<^verbatim>\<open>pkg/service/grpc\<close>: the options and \<open>New\<close> of \<open>service.go\<close>, \<open>DoServe\<close> as steps of its goroutines, the
  health check loop, \<open>helthcheckclient.go\<close>, \<open>container.go\<close>, and \<^verbatim>\<open>svcmeta\<close> and \<^verbatim>\<open>protoutil\<close>.  The gRPC server
  of the library is what was registered on it; a handler is a value of type \<open>'h\<close>.
\<close>

subsection \<open>Making a service\<close>

datatype ServingStatus = UNKNOWN | SERVING | NOT_SERVING | SERVICE_UNKNOWN

type_synonym 'h NewServiceFn = "ctx \<Rightarrow> go_err + 'h"
type_synonym CheckFn = "ctx \<Rightarrow> go_err option"

record ('l, 'h, 'd) grpc_options =
  go_addr :: string
  go_ctx :: ctx
  go_name :: string
  go_newService :: "'h NewServiceFn option"
  go_serviceDesc :: "'d option"
  go_healthCheck :: "CheckFn option"
  go_listener :: "'l option"
  go_profilingEnabled :: bool
  go_pprofAddr :: "string option"

datatype ('l, 'h, 'd) grpc_option =
    GWithAddr string
  | GWithHealthCheckFn "CheckFn option"
  | GWithName string
  | GWithContext ctx
  | GWithNewServiceFn "'h NewServiceFn option"
  | GWithServiceDesc "'d option"
  | GWithListener "'l option"
  | GWithProfilingEnabled bool
  | GWithPProfAddr "string option"

fun apply_grpc :: "('l, 'h, 'd) grpc_option \<Rightarrow> ('l, 'h, 'd) grpc_options \<Rightarrow> ('l, 'h, 'd) grpc_options" where
  "apply_grpc (GWithAddr a) r = r\<lparr>go_addr := a\<rparr>"
| "apply_grpc (GWithHealthCheckFn h) r = r\<lparr>go_healthCheck := h\<rparr>"
| "apply_grpc (GWithName n) r = r\<lparr>go_name := n\<rparr>"
| "apply_grpc (GWithContext c) r = r\<lparr>go_ctx := c\<rparr>"
| "apply_grpc (GWithNewServiceFn f) r = r\<lparr>go_newService := f\<rparr>"
| "apply_grpc (GWithServiceDesc d) r = r\<lparr>go_serviceDesc := d\<rparr>"
| "apply_grpc (GWithListener l) r = r\<lparr>go_listener := l\<rparr>"
| "apply_grpc (GWithProfilingEnabled p) r = r\<lparr>go_profilingEnabled := p\<rparr>"
| "apply_grpc (GWithPProfAddr a) r = r\<lparr>go_pprofAddr := a\<rparr>"

text \<open>What was registered on the server, in order, with the first status given to the health server.\<close>

datatype ('d, 'h) grpc_item =
    RegisterService 'd 'h
  | RegisterReflection
  | RegisterMetadata "string \<rightharpoonup> string"
  | RegisterHealth string ServingStatus

record ('o, 'l, 'h, 'd) grpc_service =
  gs_base :: nat
  gs_server :: "('d, 'h) grpc_item list"
  gs_listener :: "'l option"
  gs_healthCheck :: "CheckFn option"
  gs_closeable :: "'h option"
  gs_sidecar :: "('o, 'l) http_core option"
  gs_pprofAddr :: "string option"

text \<open>
  \<open>is_closeable\<close> is the type assertion to \<open>Closeable\<close>.  A nil \<open>newService\<close> is a nil dereference, as is a
  nil service description when it is registered.
\<close>

definition grpc_New ::
    "('o, 'l) http_env \<Rightarrow> ('h \<Rightarrow> bool) \<Rightarrow> ('l, 'h, 'd) grpc_option list \<Rightarrow> 'o world \<Rightarrow>
     (go_err + ('o, 'l, 'h, 'd) grpc_service) go \<times> 'o world" where
  "grpc_New H is_closeable opts w =
     (let opt = fold apply_grpc opts
                  \<lparr>go_addr = [], go_ctx = [], go_name = [], go_newService = None, go_serviceDesc = None,
                   go_healthCheck = None, go_listener = None, go_profilingEnabled = False,
                   go_pprofAddr = None\<rparr>
      in case Base_New (he_base H)
                [WithName (go_name opt), WithAddr (go_addr opt), WithContext (go_ctx opt),
                 WithKind ''grpc''] w of
           (Inl err, w1) \<Rightarrow> (Inr (Inl err), w1)
         | (Inr b, w1) \<Rightarrow>
             (case go_newService opt of
                None \<Rightarrow> (Inl NilDereference, w1)
              | Some newService \<Rightarrow>
                  (case newService (Ctx (w_bases w1 b)) of
                     Inl err \<Rightarrow> (Inr (Inl err), w1)
                   | Inr grpcsvc \<Rightarrow>
                       (case go_serviceDesc opt of
                          None \<Rightarrow> (Inl NilDereference, w1)
                        | Some desc \<Rightarrow>
                            (let svc =
                               \<lparr>gs_base = b,
                                gs_server =
                                  [RegisterService desc grpcsvc, RegisterReflection]
                                  @ (if env_Bool ''metadata.enabled'' [False] (he_env H)
                                     then [RegisterMetadata (Metadata b w1)] else [])
                                  @ (if go_healthCheck opt \<noteq> None
                                     then [RegisterHealth (Base_Name b w1) NOT_SERVING] else []),
                                gs_listener = go_listener opt,
                                gs_healthCheck = go_healthCheck opt,
                                gs_closeable = (if is_closeable grpcsvc then Some grpcsvc else None),
                                gs_sidecar = None, gs_pprofAddr = None\<rparr>
                             in if \<not> go_profilingEnabled opt then (Inr (Inr svc), w1)
                                else
                                  (case pprof_sidecar H (go_ctx opt) (go_pprofAddr opt) (go_listener opt) w1 of
                                     (Inl p, w2) \<Rightarrow> (Inl p, w2)
                                   | (Inr (Inl err), w2) \<Rightarrow> (Inr (Inl err), w2)
                                   | (Inr (Inr sc), w2) \<Rightarrow>
                                       (Inr (Inr (svc\<lparr>gs_sidecar := Some sc,
                                                      gs_pprofAddr := go_pprofAddr opt\<rparr>)), w2)))))))"

text \<open>The deferred clean-up of a client: its error is only logged.\<close>

definition grpc_Dispose :: "('h \<Rightarrow> go_err option) \<Rightarrow> ('o, 'l, 'h, 'd) grpc_service \<Rightarrow> 'h list \<times> go_err list" where
  "grpc_Dispose Close g =
     (case gs_closeable g of
        None \<Rightarrow> ([], [])
      | Some h \<Rightarrow> ([h], (case Close h of None \<Rightarrow> [] | Some err \<Rightarrow> [err])))"

definition grpc_Stop :: "('o, 'l, 'h, 'd) grpc_service \<Rightarrow> 'o world \<Rightarrow> 'o world" where
  "grpc_Stop g = Base_Stop (gs_base g)"

definition grpc_Metadata :: "('o, 'l, 'h, 'd) grpc_service \<Rightarrow> 'o world \<Rightarrow> (string \<rightharpoonup> string)" where
  "grpc_Metadata g = Metadata (gs_base g)"

definition grpc_Name :: "('o, 'l, 'h, 'd) grpc_service \<Rightarrow> 'o world \<Rightarrow> string" where
  "grpc_Name g = Base_Name (gs_base g)"

definition grpc_Addr :: "('o, 'l, 'h, 'd) grpc_service \<Rightarrow> 'o world \<Rightarrow> string" where
  "grpc_Addr g w = Addr (w_bases w (gs_base g))"

subsection \<open>The health check loop\<close>

text \<open>
  The calls of \<open>SetServingStatus\<close> are the list \<open>calls\<close>; a turn of the loop ends with a tick, at which the
  check has a result, or with the end of the context.  \<open>tickers\<close> is how many tickers are running: every
  turn makes one, and the deferred stops come at the end.
\<close>

record hc_state =
  current :: ServingStatus
  calls :: "ServingStatus list"
  tickers :: nat

definition checkAndSetServingStatus :: "go_err option \<Rightarrow> hc_state \<Rightarrow> hc_state" where
  "checkAndSetServingStatus check s =
     (case check of
        Some err \<Rightarrow>
          (if current s = SERVING \<or> current s = UNKNOWN
           then s\<lparr>calls := calls s @ [NOT_SERVING], current := NOT_SERVING\<rparr> else s)
      | None \<Rightarrow>
          (if current s = NOT_SERVING \<or> current s = UNKNOWN
           then s\<lparr>calls := calls s @ [SERVING], current := SERVING\<rparr> else s))"

datatype hc_event = Tick "go_err option" | CtxDone

fun healthcheck_loop :: "hc_event list \<Rightarrow> hc_state \<Rightarrow> bool \<times> hc_state" where
  "healthcheck_loop [] s = (False, s\<lparr>tickers := Suc (tickers s)\<rparr>)"
| "healthcheck_loop (CtxDone # evs) s = (True, s\<lparr>tickers := 0\<rparr>)"
| "healthcheck_loop (Tick c # evs) s =
     healthcheck_loop evs (checkAndSetServingStatus c (s\<lparr>tickers := Suc (tickers s)\<rparr>))"

definition healthcheckIt :: "go_err option \<Rightarrow> hc_event list \<Rightarrow> bool \<times> hc_state" where
  "healthcheckIt check evs =
     healthcheck_loop evs
       (checkAndSetServingStatus check \<lparr>current = UNKNOWN, calls = [], tickers = 0\<rparr>)"

definition status_of_check :: "go_err option \<Rightarrow> ServingStatus" where
  "status_of_check c = (if c = None then SERVING else NOT_SERVING)"

lemma check_current: "current s \<noteq> SERVICE_UNKNOWN \<Longrightarrow>
    current (checkAndSetServingStatus c s) = status_of_check c"
  by (cases "current s") (auto simp: checkAndSetServingStatus_def status_of_check_def split: option.split)

text \<open>The calls so far end with the current status and never repeat one.\<close>

definition calls_ok :: "hc_state \<Rightarrow> bool" where
  "calls_ok s \<longleftrightarrow> current s \<noteq> SERVICE_UNKNOWN \<and>
     (if calls s = [] then current s = UNKNOWN else last (calls s) = current s \<and> current s \<noteq> UNKNOWN) \<and>
     successively (\<noteq>) (calls s)"

lemma calls_ok_check: "calls_ok s \<Longrightarrow> calls_ok (checkAndSetServingStatus c s)"
  by (cases "calls s" rule: rev_cases; cases "current s"; cases c)
     (simp_all add: calls_ok_def checkAndSetServingStatus_def successively_append_iff)

lemma loop_ticks:
  "calls_ok s \<Longrightarrow> healthcheck_loop (map Tick cs) s = (False, s') \<Longrightarrow>
     calls_ok s' \<and> tickers s' = tickers s + Suc (length cs) \<and>
     (cs \<noteq> [] \<longrightarrow> current s' = status_of_check (last cs)) \<and> (cs = [] \<longrightarrow> current s' = current s)"
proof (induction cs arbitrary: s)
  case Nil
  then show ?case by (auto simp: calls_ok_def)
next
  case (Cons c cs)
  let ?s = "checkAndSetServingStatus c (s\<lparr>tickers := Suc (tickers s)\<rparr>)"
  have ok: "calls_ok (s\<lparr>tickers := Suc (tickers s)\<rparr>)" using Cons.prems(1) by (simp add: calls_ok_def)
  have t: "tickers ?s = Suc (tickers s)"
    by (simp add: checkAndSetServingStatus_def split: option.split)
  have "current ?s = status_of_check c"
    using ok by (intro check_current) (simp add: calls_ok_def)
  then show ?case
    using Cons.IH [OF calls_ok_check [OF ok], of c] Cons.prems(2) t by (cases "cs = []") auto
qed

lemma healthcheck_status:
  "case healthcheckIt c0 (map Tick cs) of (ended, s) \<Rightarrow>
     \<not> ended \<and> calls s \<noteq> [] \<and> last (calls s) = status_of_check (last (c0 # cs)) \<and>
     successively (\<noteq>) (calls s) \<and> tickers s = Suc (length cs)"
proof -
  let ?s0 = "checkAndSetServingStatus c0 \<lparr>current = UNKNOWN, calls = [], tickers = 0\<rparr>"
  have ok: "calls_ok ?s0" by (rule calls_ok_check) (simp add: calls_ok_def)
  have cur: "current ?s0 = status_of_check c0" by (rule check_current) simp
  have t: "tickers ?s0 = 0" by (simp add: checkAndSetServingStatus_def split: option.split)
  obtain e s where r: "healthcheck_loop (map Tick cs) ?s0 = (e, s)" by fastforce
  have "\<not> fst (healthcheck_loop (map Tick cs) s')" for s'
    by (induction cs arbitrary: s') auto
  then have e: "e = False" using r by (metis fst_conv)
  note lt = loop_ticks [OF ok r [unfolded e]]
  have c: "calls_ok s" and tk: "tickers s = Suc (length cs)" using lt t by simp_all
  have st: "current s = status_of_check (last (c0 # cs))"
    using lt cur by (cases "cs = []") simp_all
  then have "current s \<noteq> UNKNOWN" by (simp add: status_of_check_def)
  then have "calls s \<noteq> [] \<and> last (calls s) = current s \<and> successively (\<noteq>) (calls s)"
    using c by (cases "calls s = []") (simp_all add: calls_ok_def)
  then show ?thesis unfolding healthcheckIt_def r e using tk st by simp
qed

text \<open>
  C29. After the first check and any number of ticks, the status last given to the health server is that
  of the last check, the server was only told changes, and the loop goes on; by then one ticker for
  every turn is running, since they are stopped only when the function returns.
\<close>

theorem healthcheckIt_status:
  "case healthcheckIt c0 (map Tick cs) of (ended, s) \<Rightarrow>
     \<not> ended \<and> calls s \<noteq> [] \<and> last (calls s) = status_of_check (last (c0 # cs)) \<and>
     successively (\<noteq>) (calls s) \<and> tickers s = Suc (length cs)"
  by (rule healthcheck_status)

subsection \<open>\<open>helthcheckclient.go\<close> and \<open>container.go\<close>\<close>

record grpc_health_client =
  ghc_serverAddr :: string
  ghc_conn :: ClientConn
  ghc_name :: string

definition NewHelthCheckClientWithConn :: "ClientConn \<Rightarrow> string \<Rightarrow> grpc_health_client" where
  "NewHelthCheckClientWithConn conn nm =
     \<lparr>ghc_serverAddr = cc_target conn, ghc_conn = conn, ghc_name = nm\<rparr>"

definition NewHelthCheckClient ::
    "(string \<Rightarrow> go_err + ClientConn) \<Rightarrow> string \<Rightarrow> string \<Rightarrow> go_err + grpc_health_client" where
  "NewHelthCheckClient Dial addr nm =
     (case Dial addr of
        Inl err \<Rightarrow> Inl err
      | Inr conn \<Rightarrow> Inr (NewHelthCheckClientWithConn conn nm))"

definition HealthCheckClient_Close :: "(ClientConn \<Rightarrow> go_err option) \<Rightarrow> grpc_health_client \<Rightarrow> go_err option" where
  "HealthCheckClient_Close close c = close (ghc_conn c)"

text \<open>\<open>rpc\<close> is the remote call: the status the server holds for the service's name, or an error.\<close>

definition Check ::
    "(ClientConn \<Rightarrow> string \<Rightarrow> go_err + ServingStatus) \<Rightarrow> grpc_health_client \<Rightarrow>
     ServingStatus \<times> go_err option" where
  "Check rpc c =
     (case rpc (ghc_conn c) (ghc_name c) of
        Inl err \<Rightarrow> (UNKNOWN, Some err)
      | Inr r \<Rightarrow> (r, None))"

definition grpc_CheckOk ::
    "(ClientConn \<Rightarrow> string \<Rightarrow> go_err + ServingStatus) \<Rightarrow> grpc_health_client \<Rightarrow> go_err option" where
  "grpc_CheckOk rpc c =
     (case Check rpc c of
        (r, Some err) \<Rightarrow> Some err
      | (r, None) \<Rightarrow> (if r \<noteq> SERVING then Some (ErrNotHealthy (ghc_serverAddr c)) else None))"

definition Service_Dial ::
    "(string \<Rightarrow> go_err + ClientConn) \<Rightarrow> 'o world \<Rightarrow> ('o, 'l, 'h, 'd) grpc_service \<Rightarrow> go_err + ClientConn" where
  "Service_Dial Dial w g = (let addr = grpc_Addr g w in Dial addr)"

definition Service_NewHelthCheckClient ::
    "(string \<Rightarrow> go_err + ClientConn) \<Rightarrow> 'o world \<Rightarrow> ('o, 'l, 'h, 'd) grpc_service \<Rightarrow>
     go_err + grpc_health_client" where
  "Service_NewHelthCheckClient Dial w g =
     (case Service_Dial Dial w g of
        Inl err \<Rightarrow> Inl err
      | Inr conn \<Rightarrow> Inr (NewHelthCheckClientWithConn conn (Base_Name (gs_base g) w)))"

text \<open>The dialer of a container is given with the connection it embeds.\<close>

record ('o, 'l, 'h, 'd, 'c) grpc_Container =
  gc_GrpcConn :: "'c GrpcConn"
  gc_Svc :: "('o, 'l, 'h, 'd) grpc_service option"
  gc_Name :: string

definition grpc_Container_client ::
    "('c \<Rightarrow> string \<Rightarrow> go_err + ClientConn) \<Rightarrow> 'o world \<Rightarrow> ('o, 'l, 'h, 'd, 'c) grpc_Container \<Rightarrow>
     go_err + grpc_health_client" where
  "grpc_Container_client Dial w c =
     (case gc_Svc c of
        None \<Rightarrow> Inl (Err ''service not set'')
      | Some g \<Rightarrow> Service_NewHelthCheckClient (Dial (Dialer (gc_GrpcConn c))) w g)"

definition grpc_Container_Addr :: "environ \<Rightarrow> string \<Rightarrow> string" where
  "grpc_Container_Addr e nm = (let addrEnv = nm @ ''.addr'' in env_String addrEnv [[]] e)"

definition grpc_AddrOrPanic :: "environ \<Rightarrow> string \<Rightarrow> string go" where
  "grpc_AddrOrPanic e nm =
     (let a = grpc_Container_Addr e nm in
      if a = [] then Inl (PanicMsg (''.addr not configured for '' @ nm)) else Inr a)"

text \<open>
  A client of a service's health sees it as healthy exactly when the health server holds SERVING
  for its name: with the loop's last call that is when the last check returned no error.
\<close>

theorem grpc_CheckOk_last_check:
  assumes "healthcheckIt c0 (map Tick cs) = (ended, s)"
    and "Service_NewHelthCheckClient Dial w g = Inr cli"
    and "rpc (ghc_conn cli) (Base_Name (gs_base g) w) = Inr (last (calls s))"
  shows "grpc_CheckOk rpc cli = None \<longleftrightarrow> last (c0 # cs) = None"
proof -
  have "last (calls s) = status_of_check (last (c0 # cs))"
    using healthcheck_status [of c0 cs] assms(1) by simp
  moreover have "ghc_name cli = Base_Name (gs_base g) w"
    using assms(2)
    by (auto simp: Service_NewHelthCheckClient_def NewHelthCheckClientWithConn_def split: sum.splits)
  ultimately show ?thesis
    using assms(3) by (simp add: grpc_CheckOk_def Check_def status_of_check_def)
qed

theorem grpc_CheckOk_last_check_witness:
  "grpc_CheckOk (\<lambda>conn nm. Inr NOT_SERVING) \<lparr>ghc_serverAddr = ''h:1'', ghc_conn = \<lparr>cc_target = ''h:1'',
     cc_via = ViaNet CredsInsecure\<rparr>, ghc_name = []\<rparr> \<noteq> None"
proof -
  let ?g = "\<lparr>gs_base = 0, gs_server = [], gs_listener = None, gs_healthCheck = None,
    gs_closeable = None, gs_sidecar = None, gs_pprofAddr = None\<rparr> :: (nat, nat, nat, nat) grpc_service"
  let ?conn = "\<lparr>cc_target = ''h:1'', cc_via = ViaNet CredsInsecure\<rparr>"
  have "grpc_CheckOk (\<lambda>conn nm. Inr NOT_SERVING)
      \<lparr>ghc_serverAddr = ''h:1'', ghc_conn = ?conn, ghc_name = []\<rparr> = None \<longleftrightarrow>
      last (None # [Some (Err ''down'')]) = None"
    by (rule grpc_CheckOk_last_check [where g = ?g and w = demo_world and Dial = "\<lambda>a. Inr ?conn",
          OF surjective_pairing])
       (simp_all add: healthcheckIt_def checkAndSetServingStatus_def Service_NewHelthCheckClient_def
          Service_Dial_def NewHelthCheckClientWithConn_def Base_Name_def demo_world_def no_Data_def)
  then show ?thesis by simp
qed

subsection \<open>\<^verbatim>\<open>svcmeta\<close> and \<^verbatim>\<open>protoutil\<close>\<close>

record GrpcServerMetadata =
  Key :: string
  Value :: string

record ServerInfo =
  si_metadata :: "string \<rightharpoonup> string"

definition NewServerInfo :: "(string \<rightharpoonup> string) \<Rightarrow> ServerInfo" where
  "NewServerInfo m = \<lparr>si_metadata = m\<rparr>"

text \<open>\<open>ks\<close> is the order in which the range visits the map.\<close>

definition ServerInfo_Metadata :: "ServerInfo \<Rightarrow> string list \<Rightarrow> GrpcServerMetadata list" where
  "ServerInfo_Metadata g ks = fold (\<lambda>k i. i @ [\<lparr>Key = k, Value = the (si_metadata g k)\<rparr>]) ks []"

definition Info ::
    "go_err + GrpcServerMetadata list \<Rightarrow> go_err + GrpcServerMetadata list" where
  "Info r = (case r of Inl err \<Rightarrow> Inl err | Inr md \<Rightarrow> Inr md)"

definition InfoAsMap :: "go_err + GrpcServerMetadata list \<Rightarrow> go_err + (string \<rightharpoonup> string)" where
  "InfoAsMap r =
     (case Info r of
        Inl err \<Rightarrow> Inl err
      | Inr i \<Rightarrow> Inr (fold (\<lambda>ii m. m(Key ii \<mapsto> Value ii)) i Map.empty))"

record InfoClient =
  ic_serverAddr :: string
  ic_conn :: ClientConn

definition NewInfoClientWithConn :: "ClientConn \<Rightarrow> InfoClient" where
  "NewInfoClientWithConn conn = \<lparr>ic_serverAddr = cc_target conn, ic_conn = conn\<rparr>"

definition NewInfoClient :: "(string \<Rightarrow> go_err + ClientConn) \<Rightarrow> string \<Rightarrow> go_err + InfoClient" where
  "NewInfoClient Dial addr =
     (case Dial addr of
        Inl err \<Rightarrow> Inl err
      | Inr conn \<Rightarrow> Inr (NewInfoClientWithConn conn))"

lemma ServerInfo_Metadata_map:
  "ServerInfo_Metadata (NewServerInfo m) ks = map (\<lambda>k. \<lparr>Key = k, Value = the (m k)\<rparr>) ks"
proof -
  have "fold (\<lambda>k i. i @ [\<lparr>Key = k, Value = the (m k)\<rparr>]) ks acc =
      acc @ map (\<lambda>k. \<lparr>Key = k, Value = the (m k)\<rparr>) ks" for acc
    by (induction ks arbitrary: acc) simp_all
  then show ?thesis by (simp add: ServerInfo_Metadata_def NewServerInfo_def)
qed

lemma fold_upd_the:
  "fold (\<lambda>k acc. acc(k \<mapsto> the (m k))) ks a x = (if x \<in> set ks then Some (the (m x)) else a x)"
  by (induction ks arbitrary: a) auto



text \<open>
  \<open>protoutil.Slices\<close>: \<open>TypeOf\<close> is the type of a message, \<open>S\<close> that of the zero value of the type
  parameter, which an interface type does not have (a nil type is refused by \<^verbatim>\<open>ConvertibleTo\<close>, and has no
  methods to call), \<open>conv\<close> is \<^verbatim>\<open>ConvertibleTo\<close>, and \<open>assert\<close> is the type assertion.
\<close>

definition canConvert :: "('m \<Rightarrow> 't option) \<Rightarrow> ('t \<Rightarrow> 't \<Rightarrow> bool) \<Rightarrow> 't option \<Rightarrow> 'm \<Rightarrow> bool go" where
  "canConvert TypeOf conv S i =
     (case TypeOf i of
        None \<Rightarrow> Inl NilDereference
      | Some t1 \<Rightarrow>
          (case S of
             None \<Rightarrow> Inl (PanicMsg ''reflect: nil type passed to Type.ConvertibleTo'')
           | Some t2 \<Rightarrow> Inr (conv t1 t2)))"

fun Slices_loop :: "('m \<Rightarrow> 's option) \<Rightarrow> 'm list \<Rightarrow> 's list go" where
  "Slices_loop assert [] = Inr []"
| "Slices_loop assert (e # es) =
     (case assert e of
        None \<Rightarrow> Inl InconsistentType
      | Some v \<Rightarrow> go_bind (Slices_loop assert es) (\<lambda>vs. Inr (v # vs)))"

definition Slices ::
    "('m \<Rightarrow> 't option) \<Rightarrow> ('t \<Rightarrow> 't \<Rightarrow> bool) \<Rightarrow> 't option \<Rightarrow> ('m \<Rightarrow> 's option) \<Rightarrow> 'm list \<Rightarrow> 's list option go" where
  "Slices TypeOf conv S assert sliceT =
     go_bind (if length sliceT > 0 then canConvert TypeOf conv S (hd sliceT) else Inr True)
       (\<lambda>ok. if \<not> ok then Inr None else go_bind (Slices_loop assert sliceT) (\<lambda>vs. Inr (Some vs)))"

lemma Slices_loop_ok: "(\<forall>e \<in> set es. assert e \<noteq> None) \<Longrightarrow> Slices_loop assert es = Inr (map (the \<circ> assert) es)"
  by (induction es) auto

lemma Slices_loop_panics: "\<exists>e \<in> set es. assert e = None \<Longrightarrow> Slices_loop assert es = Inl InconsistentType"
proof (induction es)
  case (Cons a es)
  then show ?case by (cases "assert a") auto
qed simp

text \<open>
  The result has an element for every message exactly when each passes the assertion and the first is
  convertible; only the first is looked at before, so a later message of another type is a panic, and
  with an interface type every slice that is not empty is one.
\<close>

lemma Slices_go:
  "go_bind c (\<lambda>ok. if \<not> ok then Inr None else go_bind (Inr xs) (\<lambda>vs. Inr (Some vs))) = Inr (Some vs) \<longleftrightarrow>
     c = Inr True \<and> vs = xs"
  by (cases c) auto

lemma Slices_result:
  "Slices TypeOf conv S assert sliceT = Inr (Some vs) \<longleftrightarrow>
     (sliceT = [] \<or> canConvert TypeOf conv S (hd sliceT) = Inr True) \<and>
     (\<forall>e \<in> set sliceT. assert e \<noteq> None) \<and> vs = map (the \<circ> assert) sliceT"
proof (cases "\<forall>e \<in> set sliceT. assert e \<noteq> None")
  case True
  let ?c = "if length sliceT > 0 then canConvert TypeOf conv S (hd sliceT) else Inr True"
  have l: "Slices_loop assert sliceT = Inr (map (the \<circ> assert) sliceT)" by (rule Slices_loop_ok [OF True])
  have "Slices TypeOf conv S assert sliceT = Inr (Some vs) \<longleftrightarrow>
      ?c = Inr True \<and> vs = map (the \<circ> assert) sliceT"
    unfolding Slices_def l by (rule Slices_go)
  moreover have "?c = Inr True \<longleftrightarrow> sliceT = [] \<or> canConvert TypeOf conv S (hd sliceT) = Inr True" by simp
  ultimately show ?thesis using True by blast
next
  case False
  then have "\<exists>e \<in> set sliceT. assert e = None" by simp
  from Slices_loop_panics [OF this] this have "Slices TypeOf conv S assert sliceT \<noteq> Inr (Some vs)"
    by (auto simp add: Slices_def go_bind_def split: sum.split)
  then show ?thesis using False by blast
qed

lemma Slices_interface_panics: "sliceT \<noteq> [] \<Longrightarrow> \<exists>p. Slices TypeOf conv None assert sliceT = Inl p"
  by (cases "TypeOf (hd sliceT)") (simp_all add: Slices_def canConvert_def)

end
