(* ===== verification/Grpc_Run.thy ===== *)
theory Grpc_Run
  imports Grpc_Service
begin

text \<open>
  \<open>DoServe\<close> of \<^verbatim>\<open>pkg/service/grpc/service.go\<close> as steps: the main goroutine, the one that stops the server
  when the base's context is done, the health check loop and the profiling sidecar, which is an HTTP
  service on a base of its own.
\<close>

datatype grpc_pc =
    G_check | G_spawn | G_mark | G_health | G_side | G_serve | G_wait
  | G_stop "go_err option" | G_ret "go_err option"

datatype helper_pc = Gh_none | Gh_run | Gh_done

text \<open>
  \<open>gr_closed\<close>: the server was stopped, from when on \<^verbatim>\<open>Serve\<close> returns without a failure (nil or
  \<^verbatim>\<open>ErrServerStopped\<close>).  \<open>gr_side\<close> is the sidecar's run, when there is a sidecar; it begins when the main
  goroutine has created it.
\<close>

record 'o grpc_run =
  gr_world :: "'o world"
  gr_pc :: grpc_pc
  gr_stopper :: helper_pc
  gr_closed :: bool
  gr_health :: helper_pc
  gr_side :: "http_run option"

definition err_no_address :: go_err where
  "err_no_address = Err ''GrpcService.serve: the listening address was not configured''"

definition err_grpc_Serve :: "go_err \<Rightarrow> go_err" where
  "err_grpc_Serve e = ErrWrap ''failed to serve'' e"

definition grpc_init :: "'o world \<Rightarrow> bool \<Rightarrow> 'o grpc_run" where
  "grpc_init w sidecar =
     \<lparr>gr_world = w, gr_pc = G_check, gr_stopper = Gh_none, gr_closed = False, gr_health = Gh_none,
      gr_side = (if sidecar then Some (http_init Hp_listen) else None)\<rparr>"

text \<open>\<open>Serve\<close> before it: a nil listener is a nil dereference, a failing \<open>Listen\<close> its error.\<close>

definition grpc_Serve ::
    "('l \<Rightarrow> string \<Rightarrow> go_err + 'c) \<Rightarrow> 'o world \<Rightarrow> ('o, 'l, 'h, 'd) grpc_service \<Rightarrow>
     (go_err + 'o grpc_run) go" where
  "grpc_Serve Listen w g =
     (case gs_listener g of
        None \<Rightarrow> Inl NilDereference
      | Some l \<Rightarrow>
          (case Listen l (Addr (w_bases w (gs_base g))) of
             Inl err \<Rightarrow> Inr (Inl err)
           | Inr lis \<Rightarrow> Inr (Inr (grpc_init w (gs_sidecar g \<noteq> None)))))"

definition grpc_done :: "nat \<Rightarrow> 'o grpc_run \<Rightarrow> bool" where
  "grpc_done b s = ctx_done (gr_world s) (Ctx (w_bases (gr_world s) b))"

fun side_created :: "grpc_pc \<Rightarrow> bool" where
  "side_created G_serve = True"
| "side_created G_wait = True"
| "side_created (G_stop e) = True"
| "side_created (G_ret e) = True"
| "side_created _ = False"

text \<open>\<open>b\<close> is the service's base, \<open>sb\<close> the sidecar's; \<open>health\<close> says whether there is a health check.\<close>

inductive grpc_step :: "nat \<Rightarrow> nat \<Rightarrow> bool \<Rightarrow> 'o grpc_run \<Rightarrow> 'o grpc_run \<Rightarrow> bool" for b sb health where
  g_check: "gr_pc s = G_check \<Longrightarrow>
    grpc_step b sb health s (s\<lparr>gr_pc := (if Addr (w_bases (gr_world s) b) = []
                                         then G_stop (Some err_no_address) else G_spawn)\<rparr>)"
| g_spawn: "gr_pc s = G_spawn \<Longrightarrow> grpc_step b sb health s (s\<lparr>gr_stopper := Gh_run, gr_pc := G_mark\<rparr>)"
| g_mark: "gr_pc s = G_mark \<Longrightarrow>
    grpc_step b sb health s (s\<lparr>gr_world := SetStartedNow now b (gr_world s), gr_pc := G_health\<rparr>)"
| g_health: "gr_pc s = G_health \<Longrightarrow>
    grpc_step b sb health s (s\<lparr>gr_health := (if health then Gh_run else Gh_none), gr_pc := G_side\<rparr>)"
| g_side: "gr_pc s = G_side \<Longrightarrow> grpc_step b sb health s (s\<lparr>gr_pc := G_serve\<rparr>)"
| g_stopper: "gr_stopper s = Gh_run \<Longrightarrow> grpc_done b s \<Longrightarrow>
    grpc_step b sb health s (s\<lparr>gr_stopper := Gh_done, gr_closed := True\<rparr>)"
| g_health_end: "gr_health s = Gh_run \<Longrightarrow> grpc_done b s \<Longrightarrow>
    grpc_step b sb health s (s\<lparr>gr_health := Gh_done\<rparr>)"
| g_served: "gr_pc s = G_serve \<Longrightarrow> gr_closed s \<Longrightarrow> grpc_step b sb health s (s\<lparr>gr_pc := G_wait\<rparr>)"
| g_wait: "gr_pc s = G_wait \<Longrightarrow> side_returned (gr_side s) \<Longrightarrow>
    grpc_step b sb health s (s\<lparr>gr_pc := G_stop None\<rparr>)"
| g_stop: "gr_pc s = G_stop e \<Longrightarrow>
    grpc_step b sb health s (s\<lparr>gr_world := Base_Stop b (gr_world s), gr_pc := G_ret e\<rparr>)"
| g_sidecar: "side_created (gr_pc s) \<Longrightarrow> gr_side s = Some r \<Longrightarrow>
    http_step sb True True (gr_world s) r w' r' \<Longrightarrow>
    grpc_step b sb health s (s\<lparr>gr_world := w', gr_side := Some r'\<rparr>)"

text \<open>
  The surroundings: the server or the sidecar's fails, a client calls \<open>Stop\<close>, a parent context is
  cancelled.
\<close>

inductive grpc_env :: "nat \<Rightarrow> nat \<Rightarrow> ctx \<Rightarrow> 'o grpc_run \<Rightarrow> 'o grpc_run \<Rightarrow> bool" for b sb p where
  ge_serve_fail: "gr_pc s = G_serve \<Longrightarrow> grpc_env b sb p s (s\<lparr>gr_pc := G_stop (Some (err_grpc_Serve e))\<rparr>)"
| ge_side_fail: "gr_side s = Some r \<Longrightarrow> side_created (gr_pc s) \<Longrightarrow> http_fail r r' \<Longrightarrow>
    grpc_env b sb p s (s\<lparr>gr_side := Some r'\<rparr>)"
| ge_Stop: "grpc_env b sb p s (s\<lparr>gr_world := Base_Stop b (gr_world s)\<rparr>)"
| ge_parent: "n \<in> set p \<Longrightarrow> grpc_env b sb p s (s\<lparr>gr_world := do_cancel n (gr_world s)\<rparr>)"

inductive grpc_reach :: "'o world \<Rightarrow> bool \<Rightarrow> nat \<Rightarrow> nat \<Rightarrow> bool \<Rightarrow> ctx \<Rightarrow> 'o grpc_run \<Rightarrow> bool"
  for w sidecar b sb health p where
  gr_init: "grpc_reach w sidecar b sb health p (grpc_init w sidecar)"
| gr_step: "grpc_reach w sidecar b sb health p s \<Longrightarrow> grpc_step b sb health s s' \<Longrightarrow>
    grpc_reach w sidecar b sb health p s'"
| gr_env: "grpc_reach w sidecar b sb health p s \<Longrightarrow> grpc_env b sb p s s' \<Longrightarrow>
    grpc_reach w sidecar b sb health p s'"

fun past_mark :: "grpc_pc \<Rightarrow> bool" where
  "past_mark G_check = False"
| "past_mark G_spawn = False"
| "past_mark G_mark = False"
| "past_mark (G_stop (Some e)) = (e \<noteq> err_no_address)"
| "past_mark (G_ret (Some e)) = (e \<noteq> err_no_address)"
| "past_mark _ = True"

definition grpc_inv :: "nat \<Rightarrow> nat \<Rightarrow> ctx \<Rightarrow> 'o grpc_run \<Rightarrow> bool" where
  "grpc_inv b sb p s \<longleftrightarrow>
     bases_ok (gr_world s) b sb p \<and>
     (\<forall>r. gr_side s = Some r \<longrightarrow> http_inv r) \<and>
     (gr_stopper s = Gh_none \<longleftrightarrow> gr_pc s = G_check \<or> gr_pc s = G_spawn \<or>
        gr_pc s = G_stop (Some err_no_address) \<or> gr_pc s = G_ret (Some err_no_address)) \<and>
     (gr_closed s \<longleftrightarrow> gr_stopper s = Gh_done) \<and>
     (past_mark (gr_pc s) \<longrightarrow> status (w_bases (gr_world s) b) = StatusStarted) \<and>
     (gr_pc s = G_stop None \<or> gr_pc s = G_ret None \<longrightarrow> gr_closed s \<and> side_returned (gr_side s)) \<and>
     (gr_pc s = G_wait \<longrightarrow> gr_closed s) \<and>
     (gr_closed s \<longrightarrow> grpc_done b s) \<and>
     (\<forall>e. gr_pc s = G_ret e \<longrightarrow> grpc_done b s)"

lemma no_address_not_Serve [simp]: "err_grpc_Serve e \<noteq> err_no_address" "err_no_address \<noteq> err_grpc_Serve e"
  by (simp_all add: err_grpc_Serve_def err_no_address_def)

lemma grpc_inv_init: "bases_ok w b sb p \<Longrightarrow> grpc_inv b sb p (grpc_init w sidecar)"
  by (simp add: grpc_inv_def grpc_init_def http_inv_init)

lemma grpc_inv_step: "grpc_step b sb health s s' \<Longrightarrow> grpc_inv b sb p s \<Longrightarrow> grpc_inv b sb p s'"
proof (induction rule: grpc_step.induct)
  case (g_mark s now)
  then show ?case
    by (auto simp: grpc_inv_def bases_ok_def grpc_done_def SetStartedNow_def)
next
  case (g_stop s e)
  then show ?case
    by (cases e) (auto simp: grpc_inv_def bases_ok_def grpc_done_def Base_Stop_def ctx_done_do_cancel)
next
  case (g_sidecar s r w' r')
  note w = http_step_world [OF g_sidecar(3)]
  have bo: "bases_ok w' b sb p" by (rule bases_ok_world [of "gr_world s"]) (use g_sidecar(4) w in \<open>simp_all add: grpc_inv_def\<close>)
  have st: "w_bases w' b = w_bases (gr_world s) b"
    using http_step_status [OF g_sidecar(3)] g_sidecar(4) by (auto simp: grpc_inv_def bases_ok_def)
  have dn: "grpc_done b (s\<lparr>gr_world := w', gr_side := Some r'\<rparr>) = grpc_done b s"
    using w by (simp add: grpc_done_def ctx_done_def st)
  show ?case
    using g_sidecar(2,4) bo st dn http_inv_step [OF g_sidecar(3)] http_step_returned [OF g_sidecar(3)]
    by (auto simp: grpc_inv_def side_returned_def)
qed (auto simp: grpc_inv_def grpc_done_def)

lemma grpc_inv_env: "grpc_env b sb p s s' \<Longrightarrow> grpc_inv b sb p s \<Longrightarrow> grpc_inv b sb p s'"
proof (induction rule: grpc_env.induct)
  case (ge_side_fail s r r')
  then show ?case
    using http_inv_fail [OF ge_side_fail(3)] http_fail_returned [OF ge_side_fail(3)]
    by (auto simp: grpc_inv_def grpc_done_def side_returned_def)
qed (auto simp: grpc_inv_def grpc_done_def bases_ok_def Base_Stop_def ctx_done_do_cancel)

lemma grpc_reach_inv:
  "grpc_reach w sidecar b sb health p s \<Longrightarrow> bases_ok w b sb p \<Longrightarrow> grpc_inv b sb p s"
  by (induction rule: grpc_reach.induct) (blast intro: grpc_inv_init grpc_inv_step grpc_inv_env)+

text \<open>Where the goroutines of the service can be when none can go on.\<close>

lemma grpc_stuck_cases:
  assumes inv: "grpc_inv b sb p s" and stuck: "\<not> (\<exists>s'. grpc_step b sb health s s')"
  shows "(\<exists>e. gr_pc s = G_ret e) \<or> gr_pc s = G_serve \<and> \<not> grpc_done b s \<or>
    gr_pc s = G_wait \<and> (\<exists>r. gr_side s = Some r \<and> hr_pc r = Hp_serve \<and> \<not> grpc_done sb s)"
proof (cases "gr_pc s")
  case G_serve
  have "gr_stopper s \<noteq> Gh_none" using inv G_serve by (simp add: grpc_inv_def)
  then have "gr_stopper s = Gh_run \<or> gr_closed s"
    using inv by (cases "gr_stopper s") (auto simp: grpc_inv_def)
  then show ?thesis using stuck G_serve by (blast intro: g_stopper g_served)
next
  case G_wait
  have "\<not> side_returned (gr_side s)" using stuck G_wait by (blast intro: g_wait)
  then obtain r where r: "gr_side s = Some r" "\<forall>e. hr_pc r \<noteq> Hp_ret e"
    by (auto simp: side_returned_def split: option.splits)
  have hstuck: "\<not> (\<exists>w' r'. http_step sb True True (gr_world s) r w' r')"
    using stuck G_wait r(1) g_sidecar [of s r] by (metis side_created.simps(2))
  have hi: "http_inv r" using inv r(1) by (simp add: grpc_inv_def)
  have "hr_pc r = Hp_serve \<and> \<not> grpc_done sb s"
    using http_progress [OF hi r(2), of "gr_world s" sb True True] hstuck by (auto simp: grpc_done_def)
  then show ?thesis using G_wait r(1) by blast
qed (use stuck in \<open>blast intro: grpc_step.intros\<close>)+

text \<open>
  When the gRPC service's \<open>DoServe\<close> can go on no more, it has returned, or it serves and neither \<open>Stop\<close>
  nor a parent ended its context, or it waits for a profiling sidecar whose own context is not done.
\<close>

theorem grpc_progress:
  assumes "bases_ok w b sb p" and "grpc_reach w sidecar b sb health p s"
    and "\<not> (\<exists>s'. grpc_step b sb health s s')"
  shows "(\<exists>e. gr_pc s = G_ret e) \<or> gr_pc s = G_serve \<and> \<not> grpc_done b s \<or>
    gr_pc s = G_wait \<and> (\<exists>r. gr_side s = Some r \<and> hr_pc r = Hp_serve \<and> \<not> grpc_done sb s)"
  by (rule grpc_stuck_cases [OF grpc_reach_inv [OF assms(2,1)] assms(3)])

subsection \<open>Runs end\<close>

fun grpc_rank :: "grpc_pc \<Rightarrow> nat" where
  "grpc_rank G_check = 14" | "grpc_rank G_spawn = 12" | "grpc_rank G_mark = 10"
| "grpc_rank G_health = 8" | "grpc_rank G_side = 6" | "grpc_rank G_serve = 4"
| "grpc_rank G_wait = 3" | "grpc_rank (G_stop e) = 2" | "grpc_rank (G_ret e) = 0"

definition helper_rank :: "helper_pc \<Rightarrow> nat" where
  "helper_rank h = (if h = Gh_run then 1 else 0)"

definition grpc_measure :: "'o grpc_run \<Rightarrow> nat" where
  "grpc_measure s = grpc_rank (gr_pc s) + helper_rank (gr_stopper s) + helper_rank (gr_health s) +
     (case gr_side s of None \<Rightarrow> 0 | Some r \<Rightarrow> http_measure r)"

lemma grpc_step_measure: "grpc_step b sb health s s' \<Longrightarrow> grpc_measure s' < grpc_measure s"
  by (induction rule: grpc_step.induct)
     (auto simp: grpc_measure_def helper_rank_def dest: http_step_measure)

lemma grpc_reach_measure: "grpc_reach w sidecar b sb health p s \<Longrightarrow> grpc_measure s \<le> 28"
proof (induction rule: grpc_reach.induct)
  case (gr_step s s')
  then show ?case using grpc_step_measure by fastforce
next
  case (gr_env s s')
  from gr_env(2) have "grpc_measure s' \<le> grpc_measure s"
    by (cases rule: grpc_env.cases) (auto simp: grpc_measure_def dest: http_fail_measure)
  then show ?case using gr_env by simp
qed (simp add: grpc_measure_def grpc_init_def helper_rank_def http_measure_def http_init_def)

definition grpc_waits :: "nat \<Rightarrow> nat \<Rightarrow> 'o grpc_run \<Rightarrow> bool" where
  "grpc_waits b sb s \<longleftrightarrow> gr_pc s = G_serve \<and> \<not> grpc_done b s \<or>
     gr_pc s = G_wait \<and> (\<exists>r. gr_side s = Some r \<and> hr_pc r = Hp_serve \<and> \<not> grpc_done sb s)"

interpretation grpc: bounded_run "grpc_step b sb health" "grpc_inv b sb p" grpc_measure
    "\<lambda>s. (\<exists>e. gr_pc s = G_ret e) \<or> grpc_waits b sb s" for b sb health p
proof
  fix s :: "'a grpc_run"
  assume "grpc_inv b sb p s" "\<not> ((\<exists>e. gr_pc s = G_ret e) \<or> grpc_waits b sb s)"
  then show "\<exists>s'. grpc_step b sb health s s'" using grpc_stuck_cases unfolding grpc_waits_def by blast
qed (fact grpc_inv_step, erule grpc_step_measure)

lemma grpc_waits_not_done: "grpc_inv b sb p s \<Longrightarrow> grpc_waits b sb s \<Longrightarrow> \<not> ctx_done (gr_world s) p"
  unfolding grpc_waits_def grpc_done_def grpc_inv_def bases_ok_def by (metis ctx_done_parent)


text \<open>
  A \<open>DoServe\<close> of the gRPC service that has returned has ended the service's context; without an error
  its server was stopped and its sidecar is over.  The status is left as it was: unless the address
  was missing it is still "started".
\<close>

theorem grpc_returned:
  assumes "bases_ok w b sb p" and "grpc_reach w sidecar b sb health p s" and "gr_pc s = G_ret e"
  shows "grpc_done b s \<and> (e = None \<longrightarrow> gr_closed s \<and> side_returned (gr_side s)) \<and>
    (e \<noteq> Some err_no_address \<longrightarrow> fst (Base_Status b (gr_world s)) = ''started'')"
  using grpc_reach_inv [OF assms(2,1)] assms(3)
  by (cases e) (auto simp: grpc_inv_def Base_Status_def)

subsection \<open>The status a client sees\<close>

definition grpc_any :: "nat \<Rightarrow> nat \<Rightarrow> bool \<Rightarrow> ctx \<Rightarrow> 'o grpc_run \<Rightarrow> 'o grpc_run \<Rightarrow> bool" where
  "grpc_any b sb health p s s' \<longleftrightarrow> grpc_step b sb health s s' \<or> grpc_env b sb p s s'"

definition grpc_status :: "nat \<Rightarrow> 'o grpc_run \<Rightarrow> StatusType" where
  "grpc_status b s = status (w_bases (gr_world s) b)"

definition grpc_life_inv :: "nat \<Rightarrow> nat \<Rightarrow> ctx \<Rightarrow> 'o grpc_run \<Rightarrow> bool" where
  "grpc_life_inv b sb p s \<longleftrightarrow> grpc_inv b sb p s \<and> grpc_status b s \<noteq> StatusStopped \<and>
     (gr_pc s \<in> {G_check, G_spawn, G_mark} \<longrightarrow> grpc_status b s = StatusStarting)"

lemma grpc_status_step:
  assumes "grpc_step b sb health s s'" and "grpc_life_inv b sb p s"
  shows "grpc_life_inv b sb p s' \<and>
    (lifecycle (grpc_status b s) (grpc_status b s') \<or> grpc_status b s' = grpc_status b s)"
proof -
  have i: "grpc_inv b sb p s'" using grpc_inv_step [OF assms(1)] assms(2) by (simp add: grpc_life_inv_def)
  show ?thesis
    using assms(1)
  proof (cases rule: grpc_step.cases)
    case (g_sidecar r w' r')
    have "b \<noteq> sb" using assms(2) by (simp add: grpc_life_inv_def grpc_inv_def bases_ok_def)
    then have "w_bases w' b = w_bases (gr_world s) b" using http_step_status [OF g_sidecar(4)] by blast
    then show ?thesis using assms(2) i g_sidecar by (simp add: grpc_life_inv_def grpc_status_def)
  qed (use assms(2) i in \<open>simp_all add: grpc_life_inv_def grpc_status_def Base_Stop_def SetStartedNow_def split: if_splits\<close>)
qed

lemma grpc_status_env:
  assumes "grpc_env b sb p s s'" and "grpc_life_inv b sb p s"
  shows "grpc_life_inv b sb p s' \<and> grpc_status b s' = grpc_status b s"
proof -
  have i: "grpc_inv b sb p s'" using grpc_inv_env [OF assms(1)] assms(2) by (simp add: grpc_life_inv_def)
  show ?thesis
    using assms(1)
    by (cases rule: grpc_env.cases)
       (use assms(2) i in \<open>simp_all add: grpc_life_inv_def grpc_status_def Base_Stop_def\<close>)
qed

interpretation grpc_life: follows_up "grpc_any b sb health p" "grpc_life_inv b sb p" "grpc_status b" lifecycle
  for b sb health p
proof
  fix s s' :: "'a grpc_run" assume "grpc_any b sb health p s s'" "grpc_life_inv b sb p s"
  then show "grpc_life_inv b sb p s'"
    and "lifecycle (grpc_status b s) (grpc_status b s') \<or> grpc_status b s' = grpc_status b s"
    using grpc_status_step grpc_status_env unfolding grpc_any_def by blast+
qed (rule lifecycle_up)

text \<open>
  The status of a gRPC service follows the abstract life cycle, but only to its first half: no run ever
  shows it stopped.
\<close>

theorem grpc_never_stopped:
  assumes "bases_ok w b sb p" and "status (w_bases w b) = StatusStarting"
    and "(grpc_any b sb health p)\<^sup>*\<^sup>* (grpc_init w sidecar) s"
  shows "lifecycle\<^sup>*\<^sup>* StatusStarting (grpc_status b s) \<and> grpc_status b s \<noteq> StatusStopped"
proof -
  have i: "grpc_life_inv b sb p (grpc_init w sidecar)"
    using grpc_inv_init [OF assms(1)] assms(2)
    by (simp add: grpc_life_inv_def grpc_status_def grpc_init_def)
  show ?thesis
    using grpc_life.simulates_run [OF assms(3) i] assms(2)
    by (simp add: grpc_life_inv_def grpc_status_def grpc_init_def)
qed

subsection \<open>Runs\<close>

text \<open>Two bases below the context \<open>[0]\<close>: the service's, number 0, and its sidecar's, number 1.\<close>

definition grpc_world :: "nat world" where
  "grpc_world = \<lparr>w_bases = (\<lambda>i. \<lparr>Meta = no_Data, startTime = 0, status = StatusStarting, Addr = ''h:1'',
     OtelProvider = None, Ctx = [Suc i, 0], cancel = Suc i, logWriter = None\<rparr>),
     w_nbases = 2, w_nctx = 3, w_cancelled = {}\<rparr>"

lemma grpc_bases: "bases_ok grpc_world 0 1 [0]"
  by (simp add: bases_ok_def grpc_world_def)

lemma gr_to:
  "grpc_reach w sc b sb h p s \<Longrightarrow> grpc_step b sb h s s1 \<Longrightarrow> s1 = s2 \<Longrightarrow> grpc_reach w sc b sb h p s2"
  by (simp add: gr_step)

lemma gr_env_to:
  "grpc_reach w sc b sb h p s \<Longrightarrow> grpc_env b sb p s s1 \<Longrightarrow> s1 = s2 \<Longrightarrow> grpc_reach w sc b sb h p s2"
  by (simp add: gr_env)

lemma gr_side_to:
  assumes "grpc_reach w sc b sb h p s" and "http_step sb True True (gr_world s) (the (gr_side s)) w' r'"
    and "side_created (gr_pc s)" and "gr_side s \<noteq> None" and "s\<lparr>gr_world := w', gr_side := Some r'\<rparr> = s2"
  shows "grpc_reach w sc b sb h p s2"
proof -
  obtain r where r: "gr_side s = Some r" using assms(4) by blast
  then have h: "http_step sb True True (gr_world s) r w' r'" using assms(2) by simp
  show ?thesis using gr_step [OF assms(1) g_sidecar [OF assms(3) r h]] assms(5) by simp
qed

abbreviation grpc_at ::
    "nat world \<Rightarrow> grpc_pc \<Rightarrow> helper_pc \<Rightarrow> bool \<Rightarrow> http_run option \<Rightarrow> nat grpc_run" where
  "grpc_at w pc st cl sd \<equiv>
     \<lparr>gr_world = w, gr_pc = pc, gr_stopper = st, gr_closed = cl, gr_health = Gh_none, gr_side = sd\<rparr>"

lemma run_grpc_serve:
  "grpc_reach grpc_world (sd \<noteq> None) 0 1 False [0]
     (grpc_at (SetStartedNow 9 0 grpc_world) G_serve Gh_run False
        (map_option (\<lambda>_. http_init Hp_listen) sd))"
proof -
  let ?d = "map_option (\<lambda>_. http_init Hp_listen) sd"
  let ?R = "grpc_reach grpc_world (sd \<noteq> None) 0 1 False [0]"
  let ?w = "SetStartedNow 9 0 grpc_world"
  have 0: "?R (grpc_at grpc_world G_check Gh_none False ?d)"
    using gr_init [of grpc_world "sd \<noteq> None" 0 1 False "[0]"] by (cases sd) (simp_all add: grpc_init_def)
  have 1: "?R (grpc_at grpc_world G_spawn Gh_none False ?d)"
    by (rule gr_to [OF 0 g_check]) (simp_all add: grpc_world_def)
  have 2: "?R (grpc_at grpc_world G_mark Gh_run False ?d)"
    by (rule gr_to [OF 1 g_spawn]) simp_all
  have 3: "?R (grpc_at ?w G_health Gh_run False ?d)"
    by (rule gr_to [OF 2 g_mark [where now = 9]]) simp_all
  have 4: "?R (grpc_at ?w G_side Gh_run False ?d)"
    by (rule gr_to [OF 3 g_health]) simp_all
  show ?thesis by (rule gr_to [OF 4 g_side]) simp_all
qed

lemma run_grpc_stop:
  assumes "grpc_reach grpc_world sc 0 1 False [0]
             (grpc_at (SetStartedNow 9 0 grpc_world) G_serve Gh_run False sd)"
  shows "grpc_reach grpc_world sc 0 1 False [0]
           (grpc_at (Base_Stop 0 (SetStartedNow 9 0 grpc_world)) G_wait Gh_done True sd)"
proof -
  let ?w = "Base_Stop 0 (SetStartedNow 9 0 grpc_world)"
  let ?R = "grpc_reach grpc_world sc 0 1 False [0]"
  have 1: "?R (grpc_at ?w G_serve Gh_run False sd)"
    by (rule gr_env_to [OF assms ge_Stop]) simp_all
  have d: "grpc_done 0 (grpc_at ?w G_serve Gh_run False sd)"
    by (simp add: grpc_done_def Base_Stop_def ctx_done_do_cancel grpc_world_def SetStartedNow_def)
  have 2: "?R (grpc_at ?w G_serve Gh_done True sd)"
    by (rule gr_to [OF 1 g_stopper]) (use d in simp_all)
  show ?thesis by (rule gr_to [OF 2 g_served]) simp_all
qed

definition grpc_over :: "nat grpc_run" where
  "grpc_over = grpc_at (Base_Stop 0 (Base_Stop 0 (SetStartedNow 9 0 grpc_world))) (G_ret None) Gh_done True None"

lemma grpc_over_reach: "grpc_reach grpc_world False 0 1 False [0] grpc_over"
proof -
  let ?w = "Base_Stop 0 (SetStartedNow 9 0 grpc_world)"
  let ?R = "grpc_reach grpc_world False 0 1 False [0]"
  have 0: "?R (grpc_at ?w G_wait Gh_done True None)"
    using run_grpc_stop run_grpc_serve [of None] by simp
  have 1: "?R (grpc_at ?w (G_stop None) Gh_done True None)"
    by (rule gr_to [OF 0 g_wait]) (simp_all add: side_returned_def)
  show ?thesis
    unfolding grpc_over_def by (rule gr_to [OF 1 g_stop [where e = None]]) simp_all
qed

theorem grpc_returned_witness:
  "grpc_done 0 grpc_over \<and> gr_closed grpc_over \<and> fst (Base_Status 0 (gr_world grpc_over)) = ''started''"
  using grpc_returned [OF grpc_bases grpc_over_reach, of None] by (simp add: grpc_over_def)

text \<open>The service was stopped, the profiling sidecar still serves.\<close>

definition grpc_stuck :: "nat grpc_run" where
  "grpc_stuck = grpc_at (Base_Stop 0 (SetStartedNow 9 0 grpc_world)) G_wait Gh_done True
     (Some \<lparr>hr_pc = Hp_serve, hr_sd = Sd_wait, hr_closed = False, hr_errCh = []\<rparr>)"

lemma grpc_stuck_reach: "grpc_reach grpc_world True 0 1 False [0] grpc_stuck"
proof -
  let ?w = "SetStartedNow 9 0 grpc_world"
  let ?R = "grpc_reach grpc_world True 0 1 False [0]"
  let ?s = "\<lambda>p sd. grpc_at ?w G_serve Gh_run False (Some \<lparr>hr_pc = p, hr_sd = sd, hr_closed = False, hr_errCh = []\<rparr>)"
  have 0: "?R (?s Hp_listen Sd_none)"
    using run_grpc_serve [of "Some undefined"] by (simp add: http_init_def)
  have 1: "?R (?s Hp_start Sd_none)" by (rule gr_side_to [OF 0 h_listen]) simp_all
  have 2: "?R (?s Hp_side Sd_wait)" by (rule gr_side_to [OF 1 h_start]) simp_all
  have 3: "?R (?s Hp_mark Sd_wait)" by (rule gr_side_to [OF 2 h_side]) simp_all
  have 4: "?R (?s Hp_serve Sd_wait)" by (rule gr_side_to [OF 3 h_mark]) simp_all
  show ?thesis unfolding grpc_stuck_def by (rule run_grpc_stop [OF 4])
qed

lemma grpc_stuck_no_step: "\<not> grpc_step 0 1 False grpc_stuck s'"
proof
  assume "grpc_step 0 1 False grpc_stuck s'"
  then show False
  proof (cases rule: grpc_step.cases)
    case (g_sidecar r w' r')
    from g_sidecar(4) show False
      by (cases rule: http_step.cases)
         (use g_sidecar(3) in \<open>auto simp: grpc_stuck_def ctx_done_def Base_Stop_def SetStartedNow_def grpc_world_def\<close>)
  qed (auto simp: grpc_stuck_def side_returned_def)
qed

text \<open>
  With the profiling sidecar, \<open>Stop\<close> of a gRPC service leads to a state in which \<open>DoServe\<close> waits for
  ever: the service's context is done and its server stopped, but the sidecar's base has a context of
  its own that only a parent can end, and no goroutine can go on.
\<close>

theorem grpc_Stop_waits_for_pprof:
  "\<exists>s. grpc_reach grpc_world True 0 1 False [0] s \<and> gr_pc s = G_wait \<and> gr_closed s \<and> grpc_done 0 s \<and>
       (\<forall>s'. \<not> grpc_step 0 1 False s s')"
  using grpc_stuck_reach grpc_stuck_no_step
  by (intro exI [of _ grpc_stuck])
     (simp add: grpc_stuck_def grpc_done_def Base_Stop_def ctx_done_do_cancel grpc_world_def SetStartedNow_def)


theorem grpc_progress_witness:
  "gr_pc grpc_stuck = G_wait \<and>
   (\<exists>r. gr_side grpc_stuck = Some r \<and> hr_pc r = Hp_serve \<and> \<not> grpc_done 1 grpc_stuck)"
proof -
  have "\<not> (\<exists>s'. grpc_step 0 1 False grpc_stuck s')" using grpc_stuck_no_step by blast
  from grpc_progress [OF grpc_bases grpc_stuck_reach this] show ?thesis by (simp add: grpc_stuck_def)
qed

text \<open>
  C38. A gRPC service made with profiling has two bases: its own and its sidecar's are different children
  of the context the options gave, each with a cancel function of its own, which is what the theorems
  on its runs suppose.
\<close>

theorem grpc_New_bases:
  assumes "grpc_New H is_closeable opts w = (Inr (Inr g), w')" and "gs_sidecar g = Some sc"
  shows "bases_ok w' (gs_base g) (hc_base sc) (go_ctx (fold apply_grpc opts
           \<lparr>go_addr = [], go_ctx = [], go_name = [], go_newService = None, go_serviceDesc = None,
            go_healthCheck = None, go_listener = None, go_profilingEnabled = False, go_pprofAddr = None\<rparr>))"
proof -
  let ?o = "fold apply_grpc opts
     \<lparr>go_addr = [], go_ctx = [], go_name = [], go_newService = None, go_serviceDesc = None,
      go_healthCheck = None, go_listener = None, go_profilingEnabled = False, go_pprofAddr = None\<rparr>"
  obtain b w1 where b: "Base_New (he_base H) [WithName (go_name ?o), WithAddr (go_addr ?o),
      WithContext (go_ctx ?o), WithKind ''grpc''] w = (Inr b, w1)" and gb: "gs_base g = b"
    and sc: "pprof_sidecar H (go_ctx ?o) (go_pprofAddr ?o) (go_listener ?o) w1 = (Inr (Inr sc), w')"
    using assms
    by (auto simp: grpc_New_def Let_def split: prod.splits sum.splits option.splits if_splits)
  obtain addr where c: "Base_New (he_base H) [WithName ''pprof'', WithAddr addr,
      WithContext (go_ctx ?o), WithKind ''pprof''] w1 = (Inr (hc_base sc), w')"
    using pprof_sidecar_base [OF sc] .
  show ?thesis using two_bases [OF b c] by (simp add: gb)
qed

definition grpc_demo_opts :: "(nat, nat, nat) grpc_option list" where
  "grpc_demo_opts = [GWithContext [0], GWithNewServiceFn (Some (\<lambda>c. Inr 0)), GWithServiceDesc (Some 0),
     GWithProfilingEnabled True, GWithPProfAddr (Some ''h:2'')]"

definition grpc_demo_env :: "(nat, nat) http_env" where
  "grpc_demo_env = \<lparr>he_env = Map.empty, he_ParseDuration = (\<lambda>s. Inl (Err [])),
     he_base = \<lparr>be_obs_New = (\<lambda>c d. Inr 0), be_log_writer = (\<lambda>n. None)\<rparr>,
     he_otel_enabled = (\<lambda>o'. False), he_DefaultListener = 0\<rparr>"

theorem grpc_New_bases_witness:
  "bases_ok (snd (grpc_New grpc_demo_env (\<lambda>h. False) grpc_demo_opts grpc_world)) 2 3 [0]"
proof -
  obtain g sc where g: "grpc_New grpc_demo_env (\<lambda>h. False) grpc_demo_opts grpc_world =
      (Inr (Inr g), snd (grpc_New grpc_demo_env (\<lambda>h. False) grpc_demo_opts grpc_world))"
    and sc: "gs_sidecar g = Some sc" and n: "gs_base g = 2" "hc_base sc = 3"
    by (simp add: grpc_New_def pprof_sidecar_def grpc_demo_env_def grpc_demo_opts_def Base_New_def
        WithCancel_def NewSidecar_def AttachProfilingHandlers_def default_common_def grpc_world_def Let_def)
  from grpc_New_bases [OF g sc] n show ?thesis by (simp add: grpc_demo_opts_def)
qed

end
