(* ===== verification/Cache.thy ===== *)
theory Cache
  imports Broadcaster_Props KV_Interface
begin

text \<open>
  \<^verbatim>\<open>pkg/service/grpc/cache/cache.go\<close>: a map whose changes are announced on a broadcaster.  The cache is
  the \<^verbatim>\<open>sync.Map\<close> (whose operations are atomic) beside the broadcaster of \<open>Broadcaster\<close>, when it
  publishes; a change of the map by goroutine \<open>i\<close> and its call of \<open>Write\<close> are one step, after which the
  goroutine is inside \<open>Write\<close> and its result is the call's.
\<close>

datatype EventType = Event_Add | Event_Update | Event_Delete | Event_Error

record Event =
  ev_Name :: string
  ev_Type :: EventType

text \<open>\<open>hist\<close>, which no operation reads, is what was done to the map with the event of each change.\<close>

record ('k, 'v) Cache =
  name :: string
  defs :: "'k \<rightharpoonup> 'v"
  broadcaster :: "Event Broadcaster option"
  hist :: "(('k, 'v) kv_op \<times> Event) list"

text \<open>\<open>bc\<close> is the broadcaster \<^verbatim>\<open>NewAndStart\<close> gives: \<open>bc_New\<close> and a run of \<open>Start\<close>.\<close>

definition Cache_New :: "string \<Rightarrow> bool \<Rightarrow> Event Broadcaster \<Rightarrow> ('k, 'v) Cache" where
  "Cache_New nm publish bc =
     \<lparr>name = nm, defs = Map.empty, broadcaster = (if publish then Some bc else None), hist = []\<rparr>"

text \<open>What a call answers at once, or that its answer is that of the broadcaster's method it is in.\<close>

datatype cache_ret = Answer bc_ret | InBroadcaster

definition Cache_Close :: "nat \<Rightarrow> ('k, 'v) Cache \<Rightarrow> cache_ret \<times> ('k, 'v) Cache" where
  "Cache_Close i c =
     (case broadcaster c of
        Some b \<Rightarrow> (InBroadcaster, c\<lparr>broadcaster := Some (at i (In_Stop Stop_lock) b)\<rparr>)
      | None \<Rightarrow> (Answer (RetErr None), c))"

definition Cache_Name :: "('k, 'v) Cache \<Rightarrow> string" where
  "Cache_Name c = name c"

definition err_disabled :: go_err where
  "err_disabled = Err ''broadcasting disabled''"

definition Cache_Subscribe :: "nat \<Rightarrow> ('k, 'v) Cache \<Rightarrow> cache_ret \<times> ('k, 'v) Cache" where
  "Cache_Subscribe i c =
     (case broadcaster c of
        None \<Rightarrow> (Answer (RetErr (Some err_disabled)), c)
      | Some b \<Rightarrow> (InBroadcaster, c\<lparr>broadcaster := Some (at i (In_Sub Sub_enter) b)\<rparr>))"

definition Cache_Unsubscribe :: "nat \<Rightarrow> nat \<Rightarrow> ('k, 'v) Cache \<Rightarrow> cache_ret \<times> ('k, 'v) Cache" where
  "Cache_Unsubscribe i l c =
     (case broadcaster c of
        None \<Rightarrow> (Answer (RetErr (Some err_disabled)), c)
      | Some b \<Rightarrow> (InBroadcaster, c\<lparr>broadcaster := Some (at i (In_Sub (Unsub_enter l)) b)\<rparr>))"

text \<open>The end of the three changing methods: \<open>Write\<close> the event when there is a broadcaster.\<close>

definition announce :: "nat \<Rightarrow> Event \<Rightarrow> ('k, 'v) Cache \<Rightarrow> cache_ret \<times> ('k, 'v) Cache" where
  "announce i e c =
     (case broadcaster c of
        Some b \<Rightarrow> (InBroadcaster, c\<lparr>broadcaster := Some (at i (In_Write (Write_enter e)) b)\<rparr>)
      | None \<Rightarrow> (Answer (RetErr None), c))"

definition Cache_AddOrUpdate :: "nat \<Rightarrow> 'k \<Rightarrow> 'v \<Rightarrow> ('k, 'v) Cache \<Rightarrow> cache_ret \<times> ('k, 'v) Cache" where
  "Cache_AddOrUpdate i k v c =
     (let e = \<lparr>ev_Name = name c, ev_Type = Event_Add\<rparr>
      in announce i e (c\<lparr>defs := (defs c)(k \<mapsto> v), hist := hist c @ [(KvStore k v, e)]\<rparr>))"

definition Cache_Delete :: "nat \<Rightarrow> 'k \<Rightarrow> ('k, 'v) Cache \<Rightarrow> cache_ret \<times> ('k, 'v) Cache" where
  "Cache_Delete i k c =
     (let e = \<lparr>ev_Name = name c, ev_Type = Event_Delete\<rparr>
      in announce i e (c\<lparr>defs := (defs c)(k := None), hist := hist c @ [(KvDelete k, e)]\<rparr>))"

text \<open>\<^verbatim>\<open>Swap\<close> stores the value whether or not the key was there.\<close>

definition Cache_Update :: "nat \<Rightarrow> 'k \<Rightarrow> 'v \<Rightarrow> ('k, 'v) Cache \<Rightarrow> cache_ret \<times> ('k, 'v) Cache" where
  "Cache_Update i k v c =
     (let e = \<lparr>ev_Name = name c, ev_Type = Event_Update\<rparr>
      in announce i e (c\<lparr>defs := (defs c)(k \<mapsto> v), hist := hist c @ [(KvStore k v, e)]\<rparr>))"

definition Cache_Get :: "'v \<Rightarrow> 'k \<Rightarrow> ('k, 'v) Cache \<Rightarrow> 'v \<times> bool" where
  "Cache_Get z k c = (case defs c k of None \<Rightarrow> (z, False) | Some v \<Rightarrow> (v, True))"

subsection \<open>Runs of a cache\<close>

text \<open>
  Goroutines that are in no call of the broadcaster call the cache, and the broadcaster's goroutines
  go on; nobody else writes to the cache's broadcaster.
\<close>

definition idle :: "nat \<Rightarrow> ('k, 'v) Cache \<Rightarrow> bool" where
  "idle i c = (case broadcaster c of None \<Rightarrow> True | Some b \<Rightarrow> bc_pc b i = Client)"

fun calls_write :: "'a bc_pc \<Rightarrow> bool" where
  "calls_write (In_Write (Write_enter t)) = True"
| "calls_write (In_Write (WriteSync_enter t)) = True"
| "calls_write _ = False"

inductive cache_step :: "Event \<Rightarrow> ('k, 'v) Cache \<Rightarrow> ('k, 'v) Cache \<Rightarrow> bool" for z where
  c_add: "idle i c \<Longrightarrow> cache_step z c (snd (Cache_AddOrUpdate i k v c))"
| c_update: "idle i c \<Longrightarrow> cache_step z c (snd (Cache_Update i k v c))"
| c_delete: "idle i c \<Longrightarrow> cache_step z c (snd (Cache_Delete i k c))"
| c_close: "idle i c \<Longrightarrow> cache_step z c (snd (Cache_Close i c))"
| c_subscribe: "idle i c \<Longrightarrow> cache_step z c (snd (Cache_Subscribe i c))"
| c_unsubscribe: "idle i c \<Longrightarrow> broadcaster c = Some b \<Longrightarrow> l < bc_next b \<Longrightarrow>
    cache_step z c (snd (Cache_Unsubscribe i l c))"
| c_broadcaster: "broadcaster c = Some b \<Longrightarrow> bc_step z i b b' \<Longrightarrow>
    (bc_pc b i = Client \<longrightarrow> \<not> calls_write (bc_pc b' i)) \<Longrightarrow>
    cache_step z c (c\<lparr>broadcaster := Some b'\<rparr>)"

inductive cache_reach :: "Event \<Rightarrow> ('k, 'v) Cache \<Rightarrow> bool" for z where
  cr_new: "cache_reach z (Cache_New nm publish (bc_New clients))"
| cr_more: "cache_reach z c \<Longrightarrow> cache_step z c c' \<Longrightarrow> cache_reach z c'"

lemmas cache_defs = Cache_AddOrUpdate_def Cache_Update_def Cache_Delete_def Cache_Close_def
  Cache_Subscribe_def Cache_Unsubscribe_def announce_def Let_def

lemma announce_sel [simp]:
  "defs (snd (announce i e c)) = defs c" "hist (snd (announce i e c)) = hist c"
  "name (snd (announce i e c)) = name c"
  by (auto simp: announce_def split: option.split)

text \<open>The cache keeps the contract of a key/value store.\<close>

interpretation cache: kv_store
    "defs :: ('k, 'v) Cache \<Rightarrow> 'k \<rightharpoonup> 'v" "\<lambda>k v c. snd (Cache_AddOrUpdate i k v c)"
    "\<lambda>k c. snd (Cache_Delete i k c)" "\<lambda>_. True" for i
  by unfold_locales (simp_all add: Cache_AddOrUpdate_def Cache_Delete_def Let_def)

text \<open>A step of the cache is a step of its broadcaster, or none.\<close>

lemma cache_step_broadcaster:
  assumes "cache_step z c c'"
  shows "(broadcaster c = None \<longleftrightarrow> broadcaster c' = None) \<and>
    (\<forall>b b'. broadcaster c = Some b \<longrightarrow> broadcaster c' = Some b' \<longrightarrow> (\<exists>i. bc_step z i b b'))"
  using assms
  by (cases rule: cache_step.cases)
     (auto simp: cache_defs idle_def split: option.splits
       intro: by_write [OF write_call] by_stop [OF stop_call] by_sub [OF sub_call] by_sub [OF unsub_call])

lemma cache_reach_broadcaster:
  "cache_reach z c \<Longrightarrow> broadcaster c = Some b \<Longrightarrow> bc_reach z b"
proof (induction arbitrary: b rule: cache_reach.induct)
  case (cr_new nm publish clients)
  then show ?case by (auto simp: Cache_New_def intro: bc_new split: if_splits)
next
  case (cr_more c c')
  then obtain b0 where "broadcaster c = Some b0"
    using cache_step_broadcaster by (metis not_None_eq)
  then show ?case using cr_more cache_step_broadcaster bc_more by metis
qed

subsection \<open>What is announced\<close>

text \<open>The values on their way into the channel.\<close>

fun pending :: "'a bc_pc \<Rightarrow> 'a set" where
  "pending (In_Write p) =
     (case p of
        Write_enter t \<Rightarrow> {t} | Write_check t \<Rightarrow> {t} | Write_go t \<Rightarrow> {t}
      | WriteSync_enter t \<Rightarrow> {t} | WriteSync_check t \<Rightarrow> {t} | WriteSync_send t \<Rightarrow> {t}
      | Send_select t \<Rightarrow> {t} | Send_out \<Rightarrow> {})"
| "pending _ = {}"

definition sent_within :: "'a set \<Rightarrow> 'a Broadcaster \<Rightarrow> bool" where
  "sent_within E b \<longleftrightarrow> set (bc_accepted b) \<subseteq> E \<and> (\<forall>j. pending (bc_pc b j) \<subseteq> E)"

lemma sent_within_step:
  assumes "bc_step z i b b'" and "sent_within E b"
    and "bc_pc b i = Client \<longrightarrow> \<not> calls_write (bc_pc b' i)"
  shows "sent_within E b'"
proof -
  have i: "pending (bc_pc b i) \<subseteq> E" using assms(2) by (simp add: sent_within_def)
  show ?thesis
    using assms i unfolding sent_within_def
    by (elim bc_elims) (auto simp: l_stop_return_def split: stop_caller.splits if_splits)
qed

lemma sent_within_mono: "sent_within E b \<Longrightarrow> E \<subseteq> F \<Longrightarrow> sent_within F b"
  by (auto simp: sent_within_def)

lemma sent_within_call:
  "sent_within E b \<Longrightarrow> pending p \<subseteq> E \<Longrightarrow> sent_within E (at i p b)"
  by (auto simp: sent_within_def)

text \<open>The event of a change: the cache's name and, for a deletion only, the type Delete.\<close>

definition event_of :: "string \<Rightarrow> ('k, 'v) kv_op \<Rightarrow> Event \<Rightarrow> bool" where
  "event_of nm c e \<longleftrightarrow>
     ev_Name e = nm \<and> ev_Type e \<noteq> Event_Error \<and> (ev_Type e = Event_Delete \<longleftrightarrow> (\<exists>k. c = KvDelete k))"

definition cache_inv :: "('k, 'v) Cache \<Rightarrow> bool" where
  "cache_inv c \<longleftrightarrow>
     defs c = fold kv_spec (map fst (hist c)) Map.empty \<and>
     (\<forall>(o', e) \<in> set (hist c). event_of (name c) o' e) \<and>
     (\<forall>b. broadcaster c = Some b \<longrightarrow> sent_within (snd ` set (hist c)) b)"

lemma cache_inv_announce:
  assumes "cache_inv c" and "event_of (name c) o' e" and "d = kv_spec o' (defs c)"
  shows "cache_inv (snd (announce i e (c\<lparr>defs := d, hist := hist c @ [(o', e)]\<rparr>)))"
proof (cases "broadcaster c")
  case None
  then show ?thesis using assms by (auto simp: cache_inv_def announce_def)
next
  case (Some b)
  then have "sent_within (insert e (snd ` set (hist c))) b"
    using assms(1) by (auto simp: cache_inv_def intro: sent_within_mono)
  then show ?thesis
    using assms Some by (auto simp: cache_inv_def announce_def intro: sent_within_call)
qed

lemma cache_inv_step: "cache_step z c c' \<Longrightarrow> cache_inv c \<Longrightarrow> cache_inv c'"
proof (induction rule: cache_step.induct)
  case (c_broadcaster c b i b')
  then have "sent_within (snd ` set (hist c)) b'"
    using sent_within_step [OF c_broadcaster(2) _ c_broadcaster(3)] by (auto simp: cache_inv_def)
  then show ?case using c_broadcaster by (auto simp: cache_inv_def)
next
  case (c_close i c)
  then show ?case
    by (auto simp: cache_inv_def Cache_Close_def intro: sent_within_call split: option.splits)
next
  case (c_subscribe i c)
  then show ?case
    by (auto simp: cache_inv_def Cache_Subscribe_def intro: sent_within_call split: option.splits)
next
  case (c_unsubscribe i c b l)
  then show ?case
    by (auto simp: cache_inv_def Cache_Unsubscribe_def intro: sent_within_call split: option.splits)
qed (auto simp: Cache_AddOrUpdate_def Cache_Update_def Cache_Delete_def Let_def event_of_def
       intro!: cache_inv_announce)

lemma cache_reach_inv: "cache_reach z c \<Longrightarrow> cache_inv c"
proof (induction rule: cache_reach.induct)
  case (cr_new nm publish clients)
  then show ?case by (auto simp: cache_inv_def Cache_New_def sent_within_def bc_New_def)
qed (rule cache_inv_step)


definition demo_cache :: "(nat, nat) Cache" where
  "demo_cache = snd (Cache_AddOrUpdate 0 5 7 (Cache_New ''c'' True (bc_New {0})))"

definition demo_event :: Event where
  "demo_event = \<lparr>ev_Name = ''c'', ev_Type = Event_Add\<rparr>"

lemma demo_cache_reach: "cache_reach z demo_cache"
  unfolding demo_cache_def
  by (rule cr_more [OF cr_new c_add]) (simp add: idle_def Cache_New_def bc_New_def)

lemma demo_cache_hist: "hist demo_cache = [(KvStore 5 7, demo_event)]" "name demo_cache = ''c''"
  by (simp_all add: demo_cache_def Cache_AddOrUpdate_def Cache_New_def Let_def demo_event_def)


lemma listener_log:
  assumes "cache_reach z c" and "broadcaster c = Some b" and "bc_starts b \<le> 1"
  shows "subseq (l_log (bc_ls b l)) (bc_accepted b)"
    and "set (bc_accepted b) \<subseteq> {e. \<exists>o'. (o', e) \<in> set (hist c) \<and> event_of (name c) o' e}"
proof -
  have "logs_ok b"
    using bc_reach_logs [OF cache_reach_broadcaster [OF assms(1,2)]] assms(3)
    by (simp add: inv_logs_def)
  then show "subseq (l_log (bc_ls b l)) (bc_accepted b)" by (auto simp: logs_ok_def)
  have "set (bc_accepted b) \<subseteq> snd ` set (hist c)"
    using cache_reach_inv [OF assms(1)] assms(2) by (simp add: cache_inv_def sent_within_def)
  then show "set (bc_accepted b) \<subseteq> {e. \<exists>o'. (o', e) \<in> set (hist c) \<and> event_of (name c) o' e}"
    using cache_reach_inv [OF assms(1)] by (fastforce simp: cache_inv_def)
qed

text \<open>
  A listener of the cache is told nothing but changes that were made: every value ever put into a
  listener's channel has the cache's name and the type of a change that was made before, Delete for a
  deletion only.
\<close>

theorem Cache_events_announced:
  assumes "cache_reach z c" and "broadcaster c = Some b" and "bc_starts b \<le> 1"
  shows "set (l_log (bc_ls b l)) \<subseteq> {e. \<exists>o'. (o', e) \<in> set (hist c) \<and> event_of (name c) o' e}"
  using listener_log [OF assms] by (blast dest: list_emb_set)

theorem Cache_events_announced_witness:
  "set (l_log (bc_ls (the (broadcaster demo_cache)) 0)) \<subseteq>
     {e. \<exists>o'. (o', e) \<in> set (hist demo_cache) \<and> event_of (name demo_cache) o' e}"
  by (rule Cache_events_announced [OF demo_cache_reach])
     (simp_all add: demo_cache_def Cache_AddOrUpdate_def Cache_New_def Let_def announce_def bc_New_def)

end
