(* ===== verification/Cache_Run.thy ===== *)
theory Cache_Run
  imports Cache
begin

text \<open>
  A run of a cache with its broadcaster, step by step: goroutine 0 starts the broadcaster (goroutine 1 is
  its worker), subscribes, and stores a value under a key; goroutine 2 sends the event, which the worker
  puts into the listener's channel.  It shows that what the theorems on the delivery of events suppose
  does come about.
\<close>

text \<open>A broadcaster with the places of its first three goroutines; nobody else was born.\<close>

definition pcs :: "'a bc_pc \<Rightarrow> 'a bc_pc \<Rightarrow> 'a bc_pc \<Rightarrow> 'a Broadcaster \<Rightarrow> 'a Broadcaster" where
  "pcs p0 p1 p2 r = r\<lparr>bc_pc := (\<lambda>_. Unborn)(0 := p0, 1 := p1, 2 := p2)\<rparr>"

lemma pcs_at [simp]:
  "at 0 p (pcs p0 p1 p2 r) = pcs p p1 p2 r"
  "at (Suc 0) p (pcs p0 p1 p2 r) = pcs p0 p p2 r"
  "at 2 p (pcs p0 p1 p2 r) = pcs p0 p1 p r"
  by (simp_all add: pcs_def at_def fun_eq_iff)

lemma pcs_sel [simp]:
  "bc_pc (pcs p0 p1 p2 r) 0 = p0" "bc_pc (pcs p0 p1 p2 r) (Suc 0) = p1" "bc_pc (pcs p0 p1 p2 r) 2 = p2"
  "bc_listeners (pcs p0 p1 p2 r) = bc_listeners r" "bc_c (pcs p0 p1 p2 r) = bc_c r"
  "bc_closed (pcs p0 p1 p2 r) = bc_closed r" "bc_cancelled (pcs p0 p1 p2 r) = bc_cancelled r"
  "bc_wg (pcs p0 p1 p2 r) = bc_wg r" "bc_barrier (pcs p0 p1 p2 r) = bc_barrier r"
  "bc_ls (pcs p0 p1 p2 r) = bc_ls r" "bc_next (pcs p0 p1 p2 r) = bc_next r"
  "bc_starts (pcs p0 p1 p2 r) = bc_starts r" "bc_accepted (pcs p0 p1 p2 r) = bc_accepted r"
  "bc_taken (pcs p0 p1 p2 r) = bc_taken r"
  by (simp_all add: pcs_def)

lemma pcs_upd [simp]:
  "(pcs p0 p1 p2 r)\<lparr>bc_barrier := b\<rparr> = pcs p0 p1 p2 (r\<lparr>bc_barrier := b\<rparr>)"
  "(pcs p0 p1 p2 r)\<lparr>bc_wg := n, bc_starts := m\<rparr> = pcs p0 p1 p2 (r\<lparr>bc_wg := n, bc_starts := m\<rparr>)"
  "(pcs p0 p1 p2 r)\<lparr>bc_worker := w\<rparr> = pcs p0 p1 p2 (r\<lparr>bc_worker := w\<rparr>)"
  "(pcs p0 p1 p2 r)\<lparr>bc_next := n\<rparr> = pcs p0 p1 p2 (r\<lparr>bc_next := n\<rparr>)"
  "(pcs p0 p1 p2 r)\<lparr>bc_listeners := l\<rparr> = pcs p0 p1 p2 (r\<lparr>bc_listeners := l\<rparr>)"
  "(pcs p0 p1 p2 r)\<lparr>bc_c := xs, bc_accepted := ys\<rparr> = pcs p0 p1 p2 (r\<lparr>bc_c := xs, bc_accepted := ys\<rparr>)"
  "(pcs p0 p1 p2 r)\<lparr>bc_c := xs, bc_taken := ys\<rparr> = pcs p0 p1 p2 (r\<lparr>bc_c := xs, bc_taken := ys\<rparr>)"
  "upd_l k f (pcs p0 p1 p2 r) = pcs p0 p1 p2 (upd_l k f r)"
  by (simp_all add: pcs_def upd_l_def)

lemma cache_to:
  "cache_reach z (c\<lparr>broadcaster := Some b\<rparr>) \<Longrightarrow> bc_step z i b b' \<Longrightarrow> \<not> calls_write (bc_pc b' i) \<Longrightarrow>
   b' = b2 \<Longrightarrow> cache_reach z (c\<lparr>broadcaster := Some b2\<rparr>)"
  using cr_more [OF _ c_broadcaster [where c = "c\<lparr>broadcaster := Some b\<rparr>"]] by simp

abbreviation sb_read :: "nat set \<Rightarrow> statusBarrier" where
  "sb_read R \<equiv> \<lparr>sb_writer = None, sb_readers = R, sb_started = True\<rparr>"

text \<open>The state of the broadcaster apart from its goroutines, and of the listener.\<close>

definition bst :: "statusBarrier \<Rightarrow> nat set \<Rightarrow> nat \<Rightarrow> Event list \<Rightarrow> Event list \<Rightarrow> Event list \<Rightarrow> Event Listener \<Rightarrow>
    Event Broadcaster" where
  "bst b ls n ch acc tk l = (bc_New {})\<lparr>bc_barrier := b, bc_wg := 1, bc_starts := 1, bc_worker := Some 1,
     bc_listeners := ls, bc_next := n, bc_c := ch, bc_accepted := acc, bc_taken := tk,
     bc_ls := (\<lambda>_. startListener)(0 := l)\<rparr>"

lemma bst_sel [simp]:
  "bc_barrier (bst b ls n ch acc tk l) = b" "bc_listeners (bst b ls n ch acc tk l) = ls"
  "bc_next (bst b ls n ch acc tk l) = n" "bc_c (bst b ls n ch acc tk l) = ch"
  "bc_accepted (bst b ls n ch acc tk l) = acc" "bc_taken (bst b ls n ch acc tk l) = tk"
  "bc_ls (bst b ls n ch acc tk l) 0 = l" "\<not> bc_closed (bst b ls n ch acc tk l)"
  "\<not> bc_cancelled (bst b ls n ch acc tk l)" "bc_starts (bst b ls n ch acc tk l) = 1"
  by (simp_all add: bst_def bc_New_def)

lemma bst_upd [simp]:
  "(bst b ls n ch acc tk l)\<lparr>bc_barrier := b'\<rparr> = bst b' ls n ch acc tk l"
  "(bst b ls n ch acc tk l)\<lparr>bc_listeners := ls'\<rparr> = bst b ls' n ch acc tk l"
  "(bst b ls n ch acc tk l)\<lparr>bc_next := n'\<rparr> = bst b ls n' ch acc tk l"
  "(bst b ls n ch acc tk l)\<lparr>bc_c := ch', bc_accepted := acc'\<rparr> = bst b ls n ch' acc' tk l"
  "(bst b ls n ch acc tk l)\<lparr>bc_c := ch', bc_taken := tk'\<rparr> = bst b ls n ch' acc tk' l"
  "upd_l 0 f (bst b ls n ch acc tk l) = bst b ls n ch acc tk (f l)"
  by (simp_all add: bst_def upd_l_def fun_upd_same)

lemma run_cache_start:
  "cache_reach z ((Cache_New nm True (bc_New {0}))\<lparr>broadcaster :=
     Some (pcs Client (In_Worker W_select) Unborn (bst (sb_free True) {} 0 [] [] [] startListener))\<rparr>)"
proof -
  let ?c = "Cache_New nm True (bc_New {0}) :: ('a, 'b) Cache"
  let ?R = "\<lambda>b. cache_reach z (?c\<lparr>broadcaster := Some b\<rparr>)"
  let ?n = "bc_New {} :: Event Broadcaster"
  let ?h = "?n\<lparr>bc_barrier := sb_held 0 False\<rparr>"
  let ?a = "?h\<lparr>bc_wg := 1, bc_starts := 1\<rparr>"
  let ?w = "?a\<lparr>bc_worker := Some 1\<rparr>"
  let ?p = "\<lambda>p q. pcs p q Unborn"
  have n: "bc_New {0} = ?p Client Unborn ?n"
    by (simp add: pcs_def bc_New_def fun_eq_iff)
  have 0: "?R (?p Client Unborn ?n)"
    using cr_new [of z nm True "{0}"] unfolding n [symmetric] by (simp add: Cache_New_def)
  have 1: "?R (?p (In_Start Start_lock) Unborn ?n)"
    by (rule cache_to [OF 0 by_start [OF start_call [of _ 0]]]) simp_all
  have 2: "?R (?p (In_Start Start_check) Unborn ?h)"
    by (rule cache_to [OF 1 by_start [OF start_lock [of _ 0 "sb_held 0 False"]]])
       (simp_all add: EnteringStatusArea_def bc_New_def newStatusBarrier_def)
  have 3: "?R (?p (In_Start Start_add) Unborn ?h)"
    by (rule cache_to [OF 2 by_start [OF start_check [of _ 0]]]) (simp_all add: IsStopped_def)
  have 4: "?R (?p (In_Start Start_go) Unborn ?a)"
    by (rule cache_to [OF 3 by_start [OF start_add [of _ 0]]]) (simp_all add: bc_New_def)
  have 5: "?R (?p (In_Start Start_mark) (In_Worker W_select) ?w)"
    by (rule cache_to [OF 4 by_start [OF start_go [of _ 0 "Suc 0"]]]) simp_all
  have 6: "?R (?p (In_Start Start_unlock) (In_Worker W_select) (?w\<lparr>bc_barrier := sb_held 0 True\<rparr>))"
    by (rule cache_to [OF 5 by_start [OF start_mark [of _ 0]]]) (simp_all add: MarkStarted_def)
  have 7: "?R (?p (Returned RetVoid) (In_Worker W_select) (?w\<lparr>bc_barrier := sb_free True\<rparr>))"
    by (rule cache_to [OF 6 by_start [OF start_unlock [of _ 0]]]) (simp_all add: OutOfStatusArea_def)
  have 8: "?R (?p Client (In_Worker W_select) (?w\<lparr>bc_barrier := sb_free True\<rparr>))"
    by (rule cache_to [OF 7 by_sub [OF return [of _ 0]]]) simp_all
  have "?w\<lparr>bc_barrier := sb_free True\<rparr> = bst (sb_free True) {} 0 [] [] [] startListener"
    by (simp add: bst_def bc_New_def fun_eq_iff)
  with 8 show ?thesis by simp
qed

text \<open>\<open>Subscribe\<close>: listener 0.\<close>

lemma run_cache_subscribe:
  assumes "cache_reach z (c\<lparr>broadcaster := Some (pcs Client (In_Worker W_select) Unborn
      (bst (sb_free True) {} 0 [] [] [] startListener))\<rparr>)"
  shows "cache_reach z (c\<lparr>broadcaster := Some (pcs Client (In_Worker W_select) Unborn
      (bst (sb_free True) {0} 1 [] [] [] startListener))\<rparr>)"
proof -
  let ?R = "\<lambda>p r. cache_reach z (c\<lparr>broadcaster := Some (pcs p (In_Worker W_select) Unborn r)\<rparr>)"
  let ?b = "\<lambda>b ls n. bst b ls n [] [] [] startListener"
  have 1: "?R (In_Sub Sub_enter) (?b (sb_free True) {} 0)"
    by (rule cache_to [OF assms by_sub [OF sub_call [of _ 0]]]) simp_all
  have 2: "?R (In_Sub Sub_check) (?b (sb_read {0}) {} 0)"
    by (rule cache_to [OF 1 by_sub [OF sub_enter [of _ 0 "sb_read {0}"]]]) (simp_all add: Entering_def)
  have 3: "?R (In_Sub Sub_new) (?b (sb_read {0}) {} 0)"
    by (rule cache_to [OF 2 by_sub [OF sub_check [of _ 0]]]) (simp_all add: IsStopped_def)
  have 4: "?R (In_Sub (Sub_store 0)) (?b (sb_read {0}) {} 1)"
    by (rule cache_to [OF 3 by_sub [OF sub_new [of _ 0]]]) simp_all
  have 5: "?R (Leave (RetListener 0)) (?b (sb_read {0}) {0} 1)"
    by (rule cache_to [OF 4 by_sub [OF sub_store [of _ 0 0]]]) simp_all
  have 6: "?R (Returned (RetListener 0)) (?b (sb_free True) {0} 1)"
    by (rule cache_to [OF 5 by_sub [OF leave [of _ 0]]]) (simp_all add: Out_def)
  show ?thesis
    by (rule cache_to [OF 6 by_sub [OF return [of _ 0]]]) simp_all
qed

text \<open>The goroutine inside \<open>Write\<close> leaves the event to goroutine 2, which sends it.\<close>

lemma run_cache_write:
  assumes "cache_reach z (c\<lparr>broadcaster := Some (pcs (In_Write (Write_enter e)) (In_Worker W_select) Unborn
      (bst (sb_free True) {0} 1 [] [] [] startListener))\<rparr>)"
  shows "cache_reach z (c\<lparr>broadcaster := Some (pcs Client (In_Worker W_select) Exited
      (bst (sb_free True) {0} 1 [e] [e] [] startListener))\<rparr>)"
proof -
  let ?R = "\<lambda>p q r. cache_reach z (c\<lparr>broadcaster := Some (pcs p (In_Worker W_select) q r)\<rparr>)"
  let ?b = "\<lambda>b ch. bst b {0} 1 ch ch [] startListener"
  have 1: "?R (In_Write (Write_check e)) Unborn (?b (sb_read {0}) [])"
    by (rule cache_to [OF assms by_write [OF write_enter [of _ 0 _ "sb_read {0}"]]]) (simp_all add: Entering_def)
  have 2: "?R (In_Write (Write_go e)) Unborn (?b (sb_read {0}) [])"
    by (rule cache_to [OF 1 by_write [OF write_check [of _ 0]]]) (simp_all add: IsStopped_def)
  have 3: "?R (Returned (RetErr None)) (In_Write (Send_select e)) (?b (sb_read {2}) [])"
    by (rule cache_to [OF 2 by_write [OF write_go [of _ 0 _ 2 "sb_read {2}"]]])
       (simp_all add: Entering_def Out_def)
  have 4: "?R (Returned (RetErr None)) (In_Write Send_out) (?b (sb_read {2}) [e])"
    by (rule cache_to [OF 3 by_write [OF send_put [of _ 2]]]) simp_all
  have 5: "?R (Returned (RetErr None)) Exited (?b (sb_free True) [e])"
    by (rule cache_to [OF 4 by_write [OF send_out [of _ 2]]]) (simp_all add: Out_def)
  show ?thesis
    by (rule cache_to [OF 5 by_sub [OF return [of _ 0]]]) simp_all
qed

text \<open>The worker takes it out and puts it into the listener's channel.\<close>

lemma startListener_sel [simp]:
  "l_barrier startListener = sb_free True" "l_chan startListener = []" "\<not> l_closed startListener"
  "l_log startListener = []"
  by (simp_all add: startListener_def MarkStarted_def newStatusBarrier_def)

definition told_listener :: "Event \<Rightarrow> Event Listener" where
  "told_listener e = startListener\<lparr>l_barrier := sb_read {1}, l_chan := [e], l_log := [e]\<rparr>"

lemma run_cache_deliver:
  assumes "cache_reach z (c\<lparr>broadcaster := Some (pcs Client (In_Worker W_select) Exited
      (bst (sb_free True) {0} 1 [e] [e] [] startListener))\<rparr>)"
  shows "cache_reach z (c\<lparr>broadcaster := Some (pcs Client
      (In_L_write 0 (Ranging e {0} {0} {}) LW_out) Exited
      (bst (sb_free True) {0} 1 [] [e] [e] (told_listener e)))\<rparr>)"
proof -
  let ?R = "\<lambda>q l. cache_reach z (c\<lparr>broadcaster := Some (pcs Client q Exited
      (bst (sb_free True) {0} 1 [] [e] [e] l))\<rparr>)"
  let ?g = "Ranging e {0} {0} {}"
  let ?l = "startListener\<lparr>l_barrier := sb_read {1}\<rparr>"
  have 1: "?R (In_Worker (W_range ?g)) startListener"
    by (rule cache_to [OF assms by_worker [OF w_receive [of _ 1 e "[]"]]]) simp_all
  have 2: "?R (In_Worker (W_visit 0 ?g)) startListener"
    by (rule cache_to [OF 1 by_worker [OF w_visit [of _ 1 e "{0}" "{0}" "{}" 0]]]) simp_all
  have 3: "?R (In_L_write 0 ?g LW_enter) startListener"
    by (rule cache_to [OF 2 by_worker [OF w_write [of _ 1 0 e "{0}" "{0}" "{}"]]]) simp_all
  have 4: "?R (In_L_write 0 ?g LW_check) ?l"
    by (rule cache_to [OF 3 by_worker [OF w_in_write [OF lw_enter [of _ 1 0 e "{0}" "{0}" "{}" "sb_read {1}"]]]])
       (simp_all add: Entering_def)
  have 5: "?R (In_L_write 0 ?g LW_send) ?l"
    by (rule cache_to [OF 4 by_worker [OF w_in_write [OF lw_check [of _ 1 0 e "{0}" "{0}" "{}"]]]]) (simp_all add: IsStopped_def)
  show ?thesis
    by (rule cache_to [OF 5 by_worker [OF w_in_write [OF lw_put [of _ 1 0 e "{0}" "{0}" "{}"]]]])
       (simp_all add: told_listener_def)
qed

definition told_cache :: "(nat, nat) Cache" where
  "told_cache = \<lparr>name = ''c'', defs = [5 \<mapsto> 7], broadcaster = Some (pcs Client
      (In_L_write 0 (Ranging demo_event {0} {0} {}) LW_out) Exited
      (bst (sb_free True) {0} 1 [] [demo_event] [demo_event] (told_listener demo_event))),
     hist = [(KvStore 5 7, demo_event)]\<rparr>"

lemma told_cache_reach: "cache_reach z told_cache"
proof -
  let ?c = "Cache_New ''c'' True (bc_New {0}) :: (nat, nat) Cache"
  let ?d = "\<lparr>name = ''c'', defs = [5 \<mapsto> 7], broadcaster = None, hist = [(KvStore 5 7, demo_event)]\<rparr> :: (nat, nat) Cache"
  note sub = run_cache_subscribe [OF run_cache_start [of z "''c''", where 'a = nat and 'b = nat]]
  have "cache_reach z (?d\<lparr>broadcaster := Some (pcs (In_Write (Write_enter demo_event)) (In_Worker W_select) Unborn
      (bst (sb_free True) {0} 1 [] [] [] startListener))\<rparr>)"
    using cr_more [OF sub c_add [of 0 _ z 5 7]]
    by (simp add: idle_def Cache_AddOrUpdate_def announce_def Cache_New_def demo_event_def Let_def)
  from run_cache_deliver [OF run_cache_write [OF this]] show ?thesis by (simp add: told_cache_def)
qed

lemma told_cache_sel [simp]:
  "broadcaster told_cache \<noteq> None" "bc_starts (the (broadcaster told_cache)) = 1"
  "l_log (bc_ls (the (broadcaster told_cache)) 0) = [demo_event]"
  "hist told_cache = [(KvStore 5 7, demo_event)]" "name told_cache = ''c''"
  by (simp_all add: told_cache_def told_listener_def)

end
