(* ===== verification/Cache_Service.thy ===== *)
theory Cache_Service
  imports Cache Grpc_Run
begin

text \<open>
  \<^verbatim>\<open>pkg/service/grpc/cache/service.go\<close> and \<^verbatim>\<open>pkg/service/grpc/stream/recv.go\<close>: the server's loop that sends a
  cache's events over a stream, the loop that passes a stream's messages on to a broadcaster, and the
  client that uses it.  A loop is a function of the list of what happens at its \<^verbatim>\<open>select\<close>, turn by turn;
  an empty rest of the list is a loop that is still going on.
\<close>

subsection \<open>The server's \<open>Events\<close>\<close>

definition ErrChannelStopped :: go_err where
  "ErrChannelStopped = Err ''cache channel stopped''"

text \<open>
  A turn: the stream's context is done (with its error), the listener's channel gives an event (and
  \<open>SendMsg\<close> its result), or the channel is closed.
\<close>

datatype ev_turn = EvDone go_err | EvRecv Event "go_err option" | EvClosed

record ev_state =
  ev_sent :: "Event list"
  ev_unsubscribed :: bool
  ev_ret :: "go_err option"

fun Events_loop :: "ev_turn list \<Rightarrow> ev_state \<Rightarrow> ev_state" where
  "Events_loop [] s = s"
| "Events_loop (EvDone err # ts) s = s\<lparr>ev_unsubscribed := True, ev_ret := Some err\<rparr>"
| "Events_loop (EvClosed # ts) s = s\<lparr>ev_ret := Some ErrChannelStopped\<rparr>"
| "Events_loop (EvRecv d r # ts) s =
     (case r of
        Some err \<Rightarrow> s\<lparr>ev_ret := Some err\<rparr>
      | None \<Rightarrow> Events_loop ts (s\<lparr>ev_sent := ev_sent s @ [d]\<rparr>))"

text \<open>\<open>sub\<close> is what \<open>Subscribe\<close> answered.\<close>

definition Events :: "go_err + nat \<Rightarrow> ev_turn list \<Rightarrow> ev_state" where
  "Events sub ts =
     (case sub of
        Inl err \<Rightarrow> \<lparr>ev_sent = [], ev_unsubscribed = False, ev_ret = Some err\<rparr>
      | Inr l \<Rightarrow> Events_loop ts \<lparr>ev_sent = [], ev_unsubscribed = False, ev_ret = None\<rparr>)"

fun ev_goes_on :: "ev_turn \<Rightarrow> bool" where
  "ev_goes_on (EvRecv d None) = True"
| "ev_goes_on _ = False"

fun ev_event :: "ev_turn \<Rightarrow> Event" where
  "ev_event (EvRecv d r) = d"
| "ev_event _ = undefined"

fun ev_error :: "ev_turn \<Rightarrow> go_err" where
  "ev_error (EvDone err) = err"
| "ev_error (EvRecv d (Some err)) = err"
| "ev_error _ = ErrChannelStopped"

lemma Events_loop_run:
  "Events_loop ts s =
     (let s1 = s\<lparr>ev_sent := ev_sent s @ map ev_event (takeWhile ev_goes_on ts)\<rparr> in
      case dropWhile ev_goes_on ts of
        [] \<Rightarrow> s1
      | t # ts' \<Rightarrow> s1\<lparr>ev_unsubscribed := ev_unsubscribed s \<or> (\<exists>err. t = EvDone err),
                     ev_ret := Some (ev_error t)\<rparr>)"
  by (induction ts s rule: Events_loop.induct) (auto simp: Let_def simp del: dropWhile_eq_Nil_conv split: option.split list.split)

text \<open>
  The server sends a subscriber the events of its listener in order, up to the first turn that is
  not an event sent without an error; it then returns that turn's error.  It takes the listener back
  only when the stream's context was done: a failing \<open>SendMsg\<close> leaves it subscribed.
\<close>

theorem Events_result:
  assumes "sub = Inr l"
  shows "ev_sent (Events sub ts) = map ev_event (takeWhile ev_goes_on ts) \<and>
    (case dropWhile ev_goes_on ts of
       [] \<Rightarrow> ev_ret (Events sub ts) = None
     | t # ts' \<Rightarrow> ev_ret (Events sub ts) = Some (ev_error t) \<and>
                 (ev_unsubscribed (Events sub ts) \<longleftrightarrow> (\<exists>err. t = EvDone err)))"
  using assms by (auto simp: Events_def Events_loop_run Let_def simp del: dropWhile_eq_Nil_conv split: list.split)

theorem Events_result_witness:
  "ev_sent (Events (Inr 0) [EvRecv demo_event None, EvRecv demo_event (Some (Err ''EOF'')), EvDone (Err ''ctx'')]) =
     [demo_event] \<and>
   \<not> ev_unsubscribed (Events (Inr 0)
        [EvRecv demo_event None, EvRecv demo_event (Some (Err ''EOF'')), EvDone (Err ''ctx'')])"
  using Events_result [of "Inr 0" 0
      "[EvRecv demo_event None, EvRecv demo_event (Some (Err ''EOF'')), EvDone (Err ''ctx'')]"]
  by simp

subsection \<open>\<open>stream.Recv\<close>\<close>

text \<open>
  A turn: the context or the stream's is done (with its error), and \<open>CloseSend\<close> is called; otherwise
  \<open>RecvMsg\<close> fails, or gives a message, which is written to the broadcaster with a result.
\<close>

datatype 'm recv_turn =
    RvDone go_err
  | RvStreamDone go_err
  | RvRecvErr go_err
  | RvMsg 'm "go_err option"

record 'm recv_state =
  rv_written :: "'m list"
  rv_closeSend :: bool
  rv_ret :: "go_err option"

fun Recv_loop :: "'m recv_turn list \<Rightarrow> 'm recv_state \<Rightarrow> 'm recv_state" where
  "Recv_loop [] s = s"
| "Recv_loop (RvDone err # ts) s = s\<lparr>rv_closeSend := True, rv_ret := Some err\<rparr>"
| "Recv_loop (RvStreamDone err # ts) s = s\<lparr>rv_closeSend := True, rv_ret := Some err\<rparr>"
| "Recv_loop (RvRecvErr err # ts) s = Recv_loop ts s"
| "Recv_loop (RvMsg m r # ts) s =
     (case r of
        Some err \<Rightarrow> s\<lparr>rv_ret := Some err\<rparr>
      | None \<Rightarrow> Recv_loop ts (s\<lparr>rv_written := rv_written s @ [m]\<rparr>))"

definition Recv :: "'m recv_turn list \<Rightarrow> 'm recv_state" where
  "Recv ts = Recv_loop ts \<lparr>rv_written = [], rv_closeSend = False, rv_ret = None\<rparr>"

fun rv_goes_on :: "'m recv_turn \<Rightarrow> bool" where
  "rv_goes_on (RvRecvErr err) = True"
| "rv_goes_on (RvMsg m None) = True"
| "rv_goes_on _ = False"

fun rv_message :: "'m recv_turn \<Rightarrow> 'm list" where
  "rv_message (RvMsg m r) = [m]"
| "rv_message _ = []"

fun rv_error :: "'m recv_turn \<Rightarrow> go_err" where
  "rv_error (RvDone err) = err"
| "rv_error (RvStreamDone err) = err"
| "rv_error (RvRecvErr err) = err"
| "rv_error (RvMsg m r) = the r"

lemma Recv_loop_run:
  "Recv_loop ts s =
     (let s1 = s\<lparr>rv_written := rv_written s @ concat (map rv_message (takeWhile rv_goes_on ts))\<rparr> in
      case dropWhile rv_goes_on ts of
        [] \<Rightarrow> s1
      | t # ts' \<Rightarrow> s1\<lparr>rv_closeSend := rv_closeSend s \<or> (\<forall>m r. t \<noteq> RvMsg m r),
                     rv_ret := Some (rv_error t)\<rparr>)"
  by (induction ts s rule: Recv_loop.induct) (auto simp: Let_def simp del: dropWhile_eq_Nil_conv split: option.split list.split)

text \<open>
  \<open>Recv\<close> passes on every message it receives, in order, until a context is done or the broadcaster
  refuses one, and returns that error.  A receive that fails, with whatever error, ends nothing: after
  any number of them it is still going on.
\<close>

theorem Recv_result:
  "rv_written (Recv ts) = concat (map rv_message (takeWhile rv_goes_on ts)) \<and>
   rv_ret (Recv ts) = (case dropWhile rv_goes_on ts of [] \<Rightarrow> None | t # ts' \<Rightarrow> Some (rv_error t)) \<and>
   rv_ret (Recv (replicate n (RvRecvErr err))) = None"
proof -
  have "dropWhile rv_goes_on (replicate n (RvRecvErr err :: 'a recv_turn)) = []"
    by (induction n) simp_all
  then show ?thesis
    by (auto simp: Recv_def Recv_loop_run Let_def simp del: dropWhile_eq_Nil_conv split: list.split)
qed

subsection \<open>The service\<close>

text \<open>
  \<open>NewService\<close>: its container has the name "cache_listener" and the network dialer and listener unless
  an option gives others, and it panics when no address is configured for that name.
\<close>

record 'd cache_container =
  cc_Name :: string
  cc_GrpcConn :: "'d GrpcConn"

datatype 'd cache_setter = WithGrpcConn "'d GrpcConn"

fun apply_setter :: "'d cache_setter \<Rightarrow> 'd cache_container \<Rightarrow> 'd cache_container" where
  "apply_setter (WithGrpcConn g) s = s\<lparr>cc_GrpcConn := g\<rparr>"

definition cache_NewService ::
    "('o, 'l) http_env \<Rightarrow> 'l \<Rightarrow> 'd \<Rightarrow> 'h \<Rightarrow> ctx \<Rightarrow> ('k, 'v) Cache \<Rightarrow> 'l cache_setter list \<Rightarrow> 'o world \<Rightarrow>
     (go_err + ('o, 'l, 'h, 'd) grpc_service) go \<times> 'o world" where
  "cache_NewService H net desc server c cch ops w =
     (let s = fold apply_setter ops
                \<lparr>cc_Name = ''cache_listener'', cc_GrpcConn = \<lparr>Dialer = net, Listener = net\<rparr>\<rparr>
      in case grpc_AddrOrPanic (he_env H) (cc_Name s) of
           Inl p \<Rightarrow> (Inl p, w)
         | Inr a \<Rightarrow>
             grpc_New H (\<lambda>h. False)
               [GWithName (''cache_'' @ Cache_Name cch), GWithListener (Some (Listener (cc_GrpcConn s))),
                GWithAddr a, GWithContext c, GWithServiceDesc (Some desc),
                GWithNewServiceFn (Some (\<lambda>_. Inr server))] w)"

definition cache_Dispose ::
    "('h \<Rightarrow> go_err option) \<Rightarrow> ('o, 'l, 'h, 'd) grpc_service \<Rightarrow> 'h list \<times> go_err list" where
  "cache_Dispose Close g = grpc_Dispose Close g"

text \<open>
  \<open>Serve\<close> with its deferred \<open>Dispose\<close>: what the gRPC service's \<open>Serve\<close> comes to, and once that is over (a
  panic, an error of \<open>Listen\<close>, or a run that returned) the handlers that were closed.
\<close>

definition cache_Serve ::
    "('h \<Rightarrow> go_err option) \<Rightarrow> ('o, 'l, 'h, 'd) grpc_service \<Rightarrow> (go_err + 'o grpc_run) go \<Rightarrow>
     (go_err option go \<times> 'h list) option" where
  "cache_Serve Close g r =
     (let disposed = fst (grpc_Dispose Close g) in
      case r of
        Inl p \<Rightarrow> Some (Inl p, disposed)
      | Inr (Inl err) \<Rightarrow> Some (Inr (Some err), disposed)
      | Inr (Inr s) \<Rightarrow> (case gr_pc s of G_ret err \<Rightarrow> Some (Inr err, disposed) | _ \<Rightarrow> None))"

text \<open>
  A cache service never closes anything: its handler, the \<open>server\<close> struct, has no \<open>Close\<close>, so the cache stays
  subscribed to and its broadcaster running after \<open>Serve\<close> has returned.
\<close>

lemma cache_service_disposes_nothing:
  assumes "cache_NewService H net desc server c cch ops w = (Inr (Inr g), w')"
  shows "cache_Dispose Close g = ([], [])"
proof -
  have "gs_closeable g = None"
    using assms by (auto simp: cache_NewService_def grpc_New_def Let_def split: prod.splits sum.splits option.splits if_splits)
  then show ?thesis by (simp add: cache_Dispose_def grpc_Dispose_def)
qed

subsection \<open>The client\<close>

text \<open>
  The broadcasters a client has started are numbered; \<open>fed\<close> are those with a goroutine that receives
  from a stream.
\<close>

record cache_client =
  cl_serverAddr :: string
  cl_conn :: ClientConn
  cl_broadcaster :: "nat option"
  cl_started :: nat
  cl_fed :: "nat set"

definition NewClient :: "(string \<Rightarrow> go_err + ClientConn) \<Rightarrow> string \<Rightarrow> go_err + cache_client" where
  "NewClient Dial addr =
     (case Dial addr of
        Inl err \<Rightarrow> Inl err
      | Inr conn \<Rightarrow> Inr \<lparr>cl_serverAddr = addr, cl_conn = conn, cl_broadcaster = None, cl_started = 0,
                        cl_fed = {}\<rparr>)"

text \<open>\<open>stop\<close> and \<open>close\<close> are what stopping the broadcaster and closing the connection answer.\<close>

definition cache_client_Close ::
    "(nat \<Rightarrow> go_err option) \<Rightarrow> (ClientConn \<Rightarrow> go_err option) \<Rightarrow> cache_client \<Rightarrow> go_err option" where
  "cache_client_Close stop close c =
     (let err = (case cl_broadcaster c of None \<Rightarrow> None | Some b \<Rightarrow> errors_Join [stop b])
      in errors_Join [close (cl_conn c), err])"

text \<open>\<open>events\<close> is the error of opening the stream.\<close>

definition startListenerForEvents :: "go_err option \<Rightarrow> cache_client \<Rightarrow> go_err option \<times> cache_client" where
  "startListenerForEvents events c =
     (let cb = cl_started c;
          c1 = c\<lparr>cl_started := Suc cb, cl_broadcaster := Some cb\<rparr>
      in case events of
           Some err \<Rightarrow> (Some err, c1)
         | None \<Rightarrow> (None, c1\<lparr>cl_fed := insert cb (cl_fed c1)\<rparr>))"

definition ListenerForEvents ::
    "go_err option \<Rightarrow> (nat \<Rightarrow> go_err + nat) \<Rightarrow> cache_client \<Rightarrow> (go_err + nat) \<times> cache_client" where
  "ListenerForEvents events Subscribe c =
     (case (if cl_broadcaster c = None then startListenerForEvents events c else (None, c)) of
        (Some err, c1) \<Rightarrow> (Inl err, c1)
      | (None, c1) \<Rightarrow> (Subscribe (the (cl_broadcaster c1)), c1))"

text \<open>
  A client whose stream could not be opened reports that once: every later call answers a
  subscription to the broadcaster it left behind, which no stream feeds, and opens none.
\<close>

theorem ListenerForEvents_after_failure:
  assumes "cl_broadcaster c = None" and "cl_fed c \<subseteq> {..<cl_started c}"
    and "ListenerForEvents (Some err) Sub c = (r, c1)"
  shows "r = Inl err \<and>
    (case ListenerForEvents events Sub c1 of (r2, c2) \<Rightarrow>
       r2 = Sub (cl_started c) \<and> cl_started c \<notin> cl_fed c2 \<and> c2 = c1)"
  using assms by (auto simp: ListenerForEvents_def startListenerForEvents_def Let_def)

theorem ListenerForEvents_after_failure_witness:
  "fst (ListenerForEvents None (\<lambda>b. Inr b) (snd (ListenerForEvents (Some (Err ''down'')) (\<lambda>b. Inr b)
      \<lparr>cl_serverAddr = [], cl_conn = \<lparr>cc_target = [], cc_via = ViaBuf 0 0\<rparr>, cl_broadcaster = None,
       cl_started = 0, cl_fed = {}\<rparr>))) = Inr 0"
  using ListenerForEvents_after_failure [of "\<lparr>cl_serverAddr = [],
      cl_conn = \<lparr>cc_target = [], cc_via = ViaBuf 0 0\<rparr>, cl_broadcaster = None, cl_started = 0, cl_fed = {}\<rparr>"
      "Err ''down''" "\<lambda>b. Inr b" _ _ None, OF _ _ surjective_pairing]
  by (simp add: case_prod_beta)

end
