(* ===== verification/Obs.thy ===== *)
theory Obs
  imports Http_Service
begin

text \<open>
  \<^verbatim>\<open>pkg/service/obs/otel.go\<close>: the OpenTelemetry provider of a service.  What the SDK and the exporters
  answer is a parameter (\<open>None\<close>: it worked); exporters and providers are the values they were made
  from.  The process-wide effects of \<open>New\<close> are kept in order in a log, so that what it leaves behind
  when it fails can be stated.
\<close>

datatype span_exporter = StdoutTrace | OtlpTraceGrpc string | OtlpTraceHTTP string

datatype metric_exporter = StdoutMetric | OtlpMetricGrpc string | OtlpMetricHTTP string "string option"

record 'r TracerProvider =
  tp_exporters :: "span_exporter list"
  tp_resource :: 'r
  tp_interval :: int

record 'r MeterProvider =
  mp_exporters :: "metric_exporter list"
  mp_resource :: 'r
  mp_interval :: int

record 'r OtelProvider =
  enabled :: bool
  traceProvider :: "'r TracerProvider option"
  meterProvider :: "'r MeterProvider option"

datatype 'r obs_event =
    SetLogger
  | SetPropagator "string list"
  | SetTracerProvider "'r TracerProvider"
  | SetMeterProvider "'r MeterProvider"
  | Dialed string
  | Warned string
  | TraceShutdown
  | MeterShutdown
  | HostStarted
  | RuntimeStarted int
  | ShutdownFunc nat

text \<open>
  The parameters.  The exporter over gRPC is given a context that was cancelled just before
  (\<^verbatim>\<open>done()\<close> comes between \<^verbatim>\<open>DialContext\<close> and \<^verbatim>\<open>otlptracegrpc.New\<close>): its argument says so.
  \<open>oe_nil_Shutdown\<close> is what \<^verbatim>\<open>Shutdown\<close> of a nil \<^verbatim>\<open>TracerProvider\<close> does.
\<close>

record 'r obs_env =
  oe_env :: environ
  oe_ParseDuration :: "string \<Rightarrow> go_err + int"
  oe_Merge :: "(string \<times> string) list \<Rightarrow> go_err + 'r"
  oe_stdouttrace :: "go_err option"
  oe_stdoutmetric :: "go_err option"
  oe_Dial :: "string \<Rightarrow> go_err option"
  oe_tracegrpc :: "bool \<Rightarrow> go_err option"
  oe_tracehttp :: "string \<Rightarrow> go_err option"
  oe_metricgrpc :: "bool \<Rightarrow> go_err option"
  oe_metrichttp :: "string \<Rightarrow> string option \<Rightarrow> go_err option"
  oe_host_Start :: "go_err option"
  oe_runtime_Start :: "int \<Rightarrow> go_err option"
  oe_tp_Shutdown :: "'r TracerProvider \<Rightarrow> go_err option"
  oe_mp_Shutdown :: "'r MeterProvider \<Rightarrow> go_err option"
  oe_nil_Shutdown :: "go_err option go"

record 'r obs_st =
  batches :: "span_exporter list"
  exporters :: "metric_exporter list"
  st_trace :: "'r TracerProvider option"
  st_meter :: "'r MeterProvider option"
  shutdownFuncs :: "nat list"
  obs_log :: "'r obs_event list"

type_synonym 'r obs_stage = "'r obs_st \<Rightarrow> go_err option go \<times> 'r obs_st"

text \<open>One stage after another, up to the first error or panic.\<close>

definition obs_seq :: "'r obs_stage \<Rightarrow> 'r obs_stage \<Rightarrow> 'r obs_stage" where
  "obs_seq f g s = (case f s of (Inr None, s') \<Rightarrow> g s' | r \<Rightarrow> r)"

definition obs_emit :: "'r obs_event \<Rightarrow> 'r obs_st \<Rightarrow> 'r obs_st" where
  "obs_emit e s = s\<lparr>obs_log := obs_log s @ [e]\<rparr>"

text \<open>
  \<open>handleErr\<close> calls the shutdown functions; the error it joins goes to a variable that is not the one
  returned.  No code ever adds a shutdown function.
\<close>

definition handleErr :: "'r obs_st \<Rightarrow> 'r obs_st" where
  "handleErr s = s\<lparr>obs_log := obs_log s @ map ShutdownFunc (shutdownFuncs s), shutdownFuncs := []\<rparr>"

definition obs_fail :: "go_err \<Rightarrow> 'r obs_stage" where
  "obs_fail err s = (Inr (Some err), handleErr s)"

definition newResource :: "'r obs_env \<Rightarrow> string \<Rightarrow> string \<Rightarrow> go_err + 'r" where
  "newResource E serviceName serviceVersion =
     oe_Merge E ((if serviceName \<noteq> [] then [(''service.name'', serviceName)] else [])
                 @ (if serviceVersion \<noteq> [] then [(''service.version'', serviceVersion)] else []))"

definition newPropagator :: "string list" where
  "newPropagator = [''TraceContext'', ''Baggage'']"

definition newTraceProviderArr ::
    "span_exporter list \<Rightarrow> 'r \<Rightarrow> int \<Rightarrow> go_err + 'r TracerProvider" where
  "newTraceProviderArr exps res interval =
     Inr \<lparr>tp_exporters = exps, tp_resource = res, tp_interval = interval\<rparr>"

definition newMeterProviderArr ::
    "'r \<Rightarrow> metric_exporter list \<Rightarrow> int \<Rightarrow> go_err + 'r MeterProvider" where
  "newMeterProviderArr res exps interval =
     Inr \<lparr>mp_exporters = exps, mp_resource = res, mp_interval = interval\<rparr>"

subsection \<open>The stages of \<open>New\<close>\<close>

definition stdout_stage :: "'r obs_env \<Rightarrow> 'r obs_stage" where
  "stdout_stage E s =
     (if env_Bool ''obs.exporter.stdout'' [] (oe_env E) then
        (case oe_stdouttrace E of
           Some err \<Rightarrow> obs_fail err s
         | None \<Rightarrow>
             (let s1 = s\<lparr>batches := batches s @ [StdoutTrace]\<rparr> in
              case oe_stdoutmetric E of
                Some err \<Rightarrow> obs_fail err s1
              | None \<Rightarrow> (Inr None, s1\<lparr>exporters := exporters s1 @ [StdoutMetric]\<rparr>)))
      else (Inr None, s))"

definition trace_grpc :: "'r obs_env \<Rightarrow> string option \<Rightarrow> 'r obs_stage" where
  "trace_grpc E addr s =
     (case addr of
        None \<Rightarrow> (Inr None, s)
      | Some a \<Rightarrow>
          (case oe_Dial E a of
             Some err \<Rightarrow>
               obs_fail (ErrWrap ''grpc.DialContext: failed to connect to trace sever due to'' err) s
           | None \<Rightarrow>
               (let s1 = obs_emit (Dialed a) s in
                case oe_tracegrpc E True of
                  Some err \<Rightarrow> obs_fail (ErrWrap ''failed to create trace exporter'' err) s1
                | None \<Rightarrow> (Inr None, s1\<lparr>batches := batches s1 @ [OtlpTraceGrpc a]\<rparr>))))"

definition trace_http :: "'r obs_env \<Rightarrow> string option \<Rightarrow> 'r obs_stage" where
  "trace_http E addr s =
     (case addr of
        None \<Rightarrow> (Inr None, s)
      | Some a \<Rightarrow>
          (case oe_tracehttp E a of
             Some err \<Rightarrow> obs_fail err s
           | None \<Rightarrow> (Inr None, s\<lparr>batches := batches s @ [OtlpTraceHTTP a]\<rparr>)))"

definition trace_set :: "'r \<Rightarrow> int \<Rightarrow> 'r obs_stage" where
  "trace_set res interval s =
     (case newTraceProviderArr (batches s) res interval of
        Inl err \<Rightarrow> obs_fail err s
      | Inr tp \<Rightarrow> (Inr None, obs_emit (SetTracerProvider tp) (s\<lparr>st_trace := Some tp\<rparr>)))"

definition traceAddrGrpc :: "'r obs_env \<Rightarrow> string option" where
  "traceAddrGrpc E = env_StringOrNil ''obs.exporter.trace.grpc.host'' (oe_env E)"

definition traceAddrHTTP :: "'r obs_env \<Rightarrow> string option" where
  "traceAddrHTTP E = env_StringOrNil ''obs.exporter.trace.http.host'' (oe_env E)"

definition metricAddrGrpc :: "'r obs_env \<Rightarrow> string option" where
  "metricAddrGrpc E = env_StringOrNil ''obs.exporter.metrics.grpc.host'' (oe_env E)"

definition metricAddrHTTP :: "'r obs_env \<Rightarrow> string option" where
  "metricAddrHTTP E = env_StringOrNil ''obs.exporter.metrics.http.host'' (oe_env E)"

definition trace_stage :: "'r obs_env \<Rightarrow> 'r \<Rightarrow> int \<Rightarrow> 'r obs_stage" where
  "trace_stage E res interval s =
     (if env_Bool ''obs.exporter.trace'' [] (oe_env E) \<or> traceAddrGrpc E \<noteq> None \<or> traceAddrHTTP E \<noteq> None
      then (if traceAddrGrpc E = None \<and> traceAddrHTTP E = None
            then (Inr None, obs_emit (Warned ''trace exporter not enabled'') s)
            else obs_seq (trace_grpc E (traceAddrGrpc E))
                   (obs_seq (trace_http E (traceAddrHTTP E)) (trace_set res interval)) s)
      else (Inr None, s))"

definition metric_grpc :: "'r obs_env \<Rightarrow> string option \<Rightarrow> 'r obs_stage" where
  "metric_grpc E addr s =
     (case addr of
        None \<Rightarrow> (Inr None, s)
      | Some a \<Rightarrow>
          (case oe_Dial E a of
             Some err \<Rightarrow>
               obs_fail (ErrWrap ''grpc.DialContext: failed to connect to metric server due to'' err) s
           | None \<Rightarrow>
               (let s1 = obs_emit (Dialed a) s in
                case oe_metricgrpc E True of
                  Some err \<Rightarrow> obs_fail err s1
                | None \<Rightarrow> (Inr None, s1\<lparr>exporters := exporters s1 @ [OtlpMetricGrpc a]\<rparr>))))"

definition metric_http :: "'r obs_env \<Rightarrow> string option \<Rightarrow> 'r obs_stage" where
  "metric_http E addr s =
     (case addr of
        None \<Rightarrow> (Inr None, s)
      | Some a \<Rightarrow>
          (let p = env_StringOrNil ''obs.exporter.metrics.host.path'' (oe_env E) in
           case oe_metrichttp E a p of
             Some err \<Rightarrow> obs_fail err s
           | None \<Rightarrow> (Inr None, s\<lparr>exporters := exporters s @ [OtlpMetricHTTP a p]\<rparr>)))"

text \<open>The only place that shuts the trace provider down, after an error that never comes.\<close>

definition metric_set :: "'r obs_env \<Rightarrow> 'r \<Rightarrow> int \<Rightarrow> 'r obs_stage" where
  "metric_set E res interval s =
     (case newMeterProviderArr res (exporters s) interval of
        Inl err \<Rightarrow> (Inr (Some err), if st_trace s \<noteq> None then obs_emit TraceShutdown s else s)
      | Inr mp \<Rightarrow> (Inr None, obs_emit (SetMeterProvider mp) (s\<lparr>st_meter := Some mp\<rparr>)))"

definition metric_stage :: "'r obs_env \<Rightarrow> 'r \<Rightarrow> int \<Rightarrow> 'r obs_stage" where
  "metric_stage E res interval s =
     (if env_Bool ''obs.exporter.metrics'' [] (oe_env E) \<or> metricAddrGrpc E \<noteq> None \<or> metricAddrHTTP E \<noteq> None
      then (if metricAddrGrpc E = None \<and> metricAddrHTTP E = None
            then (Inr None, obs_emit (Warned ''meter exporter not enabled'') s)
            else obs_seq (metric_grpc E (metricAddrGrpc E))
                   (obs_seq (metric_http E (metricAddrHTTP E)) (metric_set E res interval)) s)
      else (Inr None, s))"

text \<open>
  The host and the runtime metrics: when they cannot be started, the trace provider is shut down
  without a look whether there is one, then the meter provider.
\<close>

definition telemetry_stage :: "'r obs_env \<Rightarrow> string \<Rightarrow> go_err option \<Rightarrow> 'r obs_event \<Rightarrow> 'r obs_stage" where
  "telemetry_stage E key start ev s =
     (if env_Bool key [] (oe_env E) then
        (case start of
           None \<Rightarrow> (Inr None, obs_emit ev s)
         | Some err \<Rightarrow>
             (case st_trace s of
                None \<Rightarrow> (case oe_nil_Shutdown E of Inl p \<Rightarrow> (Inl p, s) | Inr e \<Rightarrow>
                           (Inr (Some err), if st_meter s \<noteq> None then obs_emit MeterShutdown s else s))
              | Some tp \<Rightarrow>
                  (let s1 = obs_emit TraceShutdown s
                   in (Inr (Some err), if st_meter s1 \<noteq> None then obs_emit MeterShutdown s1 else s1))))
      else (Inr None, s))"

definition obs_interval :: "'r obs_env \<Rightarrow> int" where
  "obs_interval E = the (env_Duration (oe_ParseDuration E) ''obs.interval'' [seconds_20] (oe_env E))"

definition obs_stages :: "'r obs_env \<Rightarrow> 'r \<Rightarrow> 'r obs_stage" where
  "obs_stages E res =
     (let interval = obs_interval E in
      obs_seq (stdout_stage E)
        (obs_seq (trace_stage E res interval)
          (obs_seq (metric_stage E res interval)
            (obs_seq (telemetry_stage E ''obs.metrics.host'' (oe_host_Start E) HostStarted)
               (telemetry_stage E ''obs.metrics.runtime'' (oe_runtime_Start E interval)
                  (RuntimeStarted interval))))))"

definition obs_start :: "'r obs_st" where
  "obs_start = \<lparr>batches = [], exporters = [], st_trace = None, st_meter = None, shutdownFuncs = [],
                obs_log = [SetLogger, SetPropagator newPropagator]\<rparr>"

definition obs_New ::
    "'r obs_env \<Rightarrow> Data \<Rightarrow> (go_err + 'r OtelProvider) go \<times> 'r obs_event list" where
  "obs_New E info =
     (if \<not> env_Bool ''obs.enabled'' [] (oe_env E)
      then (Inr (Inr \<lparr>enabled = False, traceProvider = None, meterProvider = None\<rparr>), [])
      else
        (case newResource E (md_Name info) (md_Version info) of
           Inl err \<Rightarrow> (Inr (Inl err), [])
         | Inr res \<Rightarrow>
             (case obs_stages E res obs_start of
                (Inl p, s) \<Rightarrow> (Inl p, obs_log s)
              | (Inr (Some err), s) \<Rightarrow> (Inr (Inl err), obs_log s)
              | (Inr None, s) \<Rightarrow>
                  (Inr (Inr \<lparr>enabled = True, traceProvider = st_trace s, meterProvider = st_meter s\<rparr>),
                   obs_log s))))"

definition OtelProvider_Shutdown :: "'r obs_env \<Rightarrow> 'r OtelProvider \<Rightarrow> go_err option" where
  "OtelProvider_Shutdown E p =
     (let errf = (case traceProvider p of
                    None \<Rightarrow> None
                  | Some tp \<Rightarrow> (case oe_tp_Shutdown E tp of
                                 None \<Rightarrow> None | Some err \<Rightarrow> errors_Join [Some err]))
      in case meterProvider p of
           None \<Rightarrow> errf
         | Some mp \<Rightarrow> (case oe_mp_Shutdown E mp of
                         None \<Rightarrow> errf | Some err \<Rightarrow> errors_Join [Some err, errf]))"

definition InstrRouter :: "'r OtelProvider \<Rightarrow> string \<Rightarrow> router \<Rightarrow> router" where
  "InstrRouter p nm r = (if enabled p then r @ [UseOtel nm] else r)"

datatype ServerOption = EmptyServerOption | StatsHandler

definition InstrumentGrpcServer :: "'r OtelProvider \<Rightarrow> ServerOption" where
  "InstrumentGrpcServer p = (if enabled p then StatsHandler else EmptyServerOption)"

subsection \<open>What the stages leave\<close>

lemmas stage_defs = stdout_stage_def trace_grpc_def trace_http_def trace_set_def metric_grpc_def
  metric_http_def metric_set_def telemetry_stage_def newTraceProviderArr_def newMeterProviderArr_def
  obs_fail_def handleErr_def obs_emit_def

lemma obs_seq_ok:
  "obs_seq f g s = (Inr None, s') \<longleftrightarrow> (\<exists>s1. f s = (Inr None, s1) \<and> g s1 = (Inr None, s'))"
  by (auto simp: obs_seq_def split: prod.splits sum.splits option.splits)

text \<open>What each address adds to the exporters.\<close>

definition opt_list :: "('a \<Rightarrow> 'b) \<Rightarrow> 'a option \<Rightarrow> 'b list" where
  "opt_list f x = (case x of None \<Rightarrow> [] | Some a \<Rightarrow> [f a])"

definition stdout_on :: "'r obs_env \<Rightarrow> bool" where
  "stdout_on E = env_Bool ''obs.exporter.stdout'' [] (oe_env E)"

lemma stdout_stage_ok:
  assumes "stdout_stage E s = (Inr None, s')"
  shows "batches s' = batches s @ (if stdout_on E then [StdoutTrace] else [])"
    and "exporters s' = exporters s @ (if stdout_on E then [StdoutMetric] else [])"
    and "st_trace s' = st_trace s" and "st_meter s' = st_meter s"
  using assms by (auto simp: stage_defs stdout_on_def Let_def split: if_splits option.splits)

lemma trace_grpc_ok:
  "trace_grpc E a s = (Inr None, s') \<Longrightarrow>
     batches s' = batches s @ opt_list OtlpTraceGrpc a \<and> exporters s' = exporters s \<and>
     st_trace s' = st_trace s \<and> st_meter s' = st_meter s"
  by (auto simp: stage_defs opt_list_def Let_def split: option.splits)

lemma trace_http_ok:
  "trace_http E a s = (Inr None, s') \<Longrightarrow>
     batches s' = batches s @ opt_list OtlpTraceHTTP a \<and> exporters s' = exporters s \<and>
     st_trace s' = st_trace s \<and> st_meter s' = st_meter s"
  by (auto simp: stage_defs opt_list_def split: option.splits)

lemma trace_set_ok:
  "trace_set res i s = (Inr None, s') \<Longrightarrow>
     st_trace s' = Some \<lparr>tp_exporters = batches s, tp_resource = res, tp_interval = i\<rparr> \<and>
     exporters s' = exporters s \<and> st_meter s' = st_meter s"
  by (auto simp: stage_defs)

lemma trace_stage_ok:
  assumes "trace_stage E res i s = (Inr None, s')"
  shows "st_trace s' =
      (if traceAddrGrpc E = None \<and> traceAddrHTTP E = None then st_trace s
       else Some \<lparr>tp_exporters = batches s @ opt_list OtlpTraceGrpc (traceAddrGrpc E)
                                 @ opt_list OtlpTraceHTTP (traceAddrHTTP E),
                  tp_resource = res, tp_interval = i\<rparr>)"
    and "exporters s' = exporters s" and "st_meter s' = st_meter s"
  using assms
  by (auto simp: trace_stage_def obs_seq_ok obs_emit_def split: if_splits
      dest!: trace_grpc_ok trace_http_ok trace_set_ok)

lemma metric_grpc_ok:
  "metric_grpc E a s = (Inr None, s') \<Longrightarrow>
     exporters s' = exporters s @ opt_list OtlpMetricGrpc a \<and>
     st_trace s' = st_trace s \<and> st_meter s' = st_meter s"
  by (auto simp: stage_defs opt_list_def Let_def split: option.splits)

lemma metric_http_ok:
  "metric_http E a s = (Inr None, s') \<Longrightarrow>
     exporters s' = exporters s @
       opt_list (\<lambda>h. OtlpMetricHTTP h (env_StringOrNil ''obs.exporter.metrics.host.path'' (oe_env E))) a \<and>
     st_trace s' = st_trace s \<and> st_meter s' = st_meter s"
  by (auto simp: stage_defs opt_list_def Let_def split: option.splits)

lemma metric_set_ok:
  "metric_set E res i s = (Inr None, s') \<Longrightarrow>
     st_meter s' = Some \<lparr>mp_exporters = exporters s, mp_resource = res, mp_interval = i\<rparr> \<and>
     st_trace s' = st_trace s"
  by (auto simp: stage_defs)

lemma metric_stage_ok:
  assumes "metric_stage E res i s = (Inr None, s')"
  shows "st_meter s' =
      (if metricAddrGrpc E = None \<and> metricAddrHTTP E = None then st_meter s
       else Some \<lparr>mp_exporters = exporters s @ opt_list OtlpMetricGrpc (metricAddrGrpc E)
                    @ opt_list (\<lambda>h. OtlpMetricHTTP h
                        (env_StringOrNil ''obs.exporter.metrics.host.path'' (oe_env E))) (metricAddrHTTP E),
                  mp_resource = res, mp_interval = i\<rparr>)"
    and "st_trace s' = st_trace s"
  using assms
  by (auto simp: metric_stage_def obs_seq_ok obs_emit_def split: if_splits
      dest!: metric_grpc_ok metric_http_ok metric_set_ok)

lemma telemetry_stage_ok:
  "telemetry_stage E key start ev s = (Inr None, s') \<Longrightarrow> st_trace s' = st_trace s \<and> st_meter s' = st_meter s"
  by (auto simp: stage_defs Let_def split: if_splits option.splits sum.splits)

lemma obs_stages_ok:
  assumes "obs_stages E res s = (Inr None, s')"
  obtains s1 s2 s3 where "stdout_stage E s = (Inr None, s1)"
    and "trace_stage E res (obs_interval E) s1 = (Inr None, s2)"
    and "metric_stage E res (obs_interval E) s2 = (Inr None, s3)"
    and "st_trace s' = st_trace s3" and "st_meter s' = st_meter s3"
  using assms by (auto simp: obs_stages_def Let_def obs_seq_ok dest!: telemetry_stage_ok)

text \<open>
  C31. What \<open>New\<close> gives when observability is enabled: a trace provider exactly when a host for traces is
  configured, and then one that exports to the standard output (when that is on), to the gRPC host
  and to the HTTP host, in that order; the same for the metrics.  So the standard output alone exports
  nothing.
\<close>

theorem obs_New_providers:
  assumes "obs_New E info = (Inr (Inr p), l)" and "env_Bool ''obs.enabled'' [] (oe_env E)"
  shows "enabled p \<and> (\<exists>res. newResource E (md_Name info) (md_Version info) = Inr res \<and>
     traceProvider p =
       (if traceAddrGrpc E = None \<and> traceAddrHTTP E = None then None
        else Some \<lparr>tp_exporters = (if stdout_on E then [StdoutTrace] else [])
                     @ opt_list OtlpTraceGrpc (traceAddrGrpc E) @ opt_list OtlpTraceHTTP (traceAddrHTTP E),
                   tp_resource = res, tp_interval = obs_interval E\<rparr>) \<and>
     meterProvider p =
       (if metricAddrGrpc E = None \<and> metricAddrHTTP E = None then None
        else Some \<lparr>mp_exporters = (if stdout_on E then [StdoutMetric] else [])
                     @ opt_list OtlpMetricGrpc (metricAddrGrpc E)
                     @ opt_list (\<lambda>h. OtlpMetricHTTP h
                         (env_StringOrNil ''obs.exporter.metrics.host.path'' (oe_env E))) (metricAddrHTTP E),
                   mp_resource = res, mp_interval = obs_interval E\<rparr>))"
proof -
  obtain res s where res: "newResource E (md_Name info) (md_Version info) = Inr res"
    and s: "obs_stages E res obs_start = (Inr None, s)"
    and p: "p = \<lparr>enabled = True, traceProvider = st_trace s, meterProvider = st_meter s\<rparr>"
    using assms by (auto simp: obs_New_def split: sum.splits prod.splits option.splits)
  obtain s1 s2 s3 where st: "stdout_stage E obs_start = (Inr None, s1)"
      "trace_stage E res (obs_interval E) s1 = (Inr None, s2)"
      "metric_stage E res (obs_interval E) s2 = (Inr None, s3)"
      "st_trace s = st_trace s3" "st_meter s = st_meter s3"
    using obs_stages_ok [OF s] .
  note facts = stdout_stage_ok [OF st(1)] trace_stage_ok [OF st(2)] metric_stage_ok [OF st(3)] st(4,5)
  show ?thesis using res by (auto simp: p facts obs_start_def)
qed

subsection \<open>What \<open>New\<close> leaves when it fails\<close>

fun is_shutdown :: "'r obs_event \<Rightarrow> bool" where
  "is_shutdown TraceShutdown = True"
| "is_shutdown MeterShutdown = True"
| "is_shutdown (ShutdownFunc i) = True"
| "is_shutdown _ = False"

definition obs_quiet :: "'r obs_st \<Rightarrow> bool" where
  "obs_quiet s \<longleftrightarrow> shutdownFuncs s = [] \<and> {e \<in> set (obs_log s). is_shutdown e} = {}"

definition stays_quiet :: "'r obs_stage \<Rightarrow> bool" where
  "stays_quiet f \<longleftrightarrow> (\<forall>s. obs_quiet s \<longrightarrow> obs_quiet (snd (f s)))"

definition never_panics :: "'r obs_stage \<Rightarrow> bool" where
  "never_panics f \<longleftrightarrow> (\<forall>s p. fst (f s) \<noteq> Inl p)"

lemma stays_quiet_seq: "stays_quiet f \<Longrightarrow> stays_quiet g \<Longrightarrow> stays_quiet (obs_seq f g)"
  unfolding stays_quiet_def obs_seq_def
  by (fastforce split: prod.splits sum.splits option.splits dest: spec)

lemma never_panics_seq: "never_panics f \<Longrightarrow> never_panics g \<Longrightarrow> never_panics (obs_seq f g)"
  by (auto simp: never_panics_def obs_seq_def split: prod.splits sum.splits option.splits) (metis fst_conv)+

lemma stages_quiet:
  "stays_quiet (stdout_stage E)" "stays_quiet (trace_grpc E a)" "stays_quiet (trace_http E a)"
  "stays_quiet (trace_set res i)" "stays_quiet (metric_grpc E a)" "stays_quiet (metric_http E a)"
  "stays_quiet (metric_set E res i)"
  by (auto simp: stays_quiet_def obs_quiet_def stage_defs Let_def split: option.splits)

lemma stages_no_panic:
  "never_panics (stdout_stage E)" "never_panics (trace_grpc E a)" "never_panics (trace_http E a)"
  "never_panics (trace_set res i)" "never_panics (metric_grpc E a)" "never_panics (metric_http E a)"
  "never_panics (metric_set E res i)"
  by (auto simp: never_panics_def stage_defs Let_def split: option.splits)

lemma stage_guard:
  assumes "stays_quiet f" and "never_panics f"
    and "\<And>s. g s \<in> {f s, (Inr None, s), (Inr None, obs_emit (Warned m) s)}"
  shows "stays_quiet g" and "never_panics g"
proof -
  have w: "obs_quiet s \<Longrightarrow> obs_quiet (obs_emit (Warned m) s)" for m and s :: "'a obs_st"
    by (auto simp: obs_quiet_def obs_emit_def)
  show "stays_quiet g"
    unfolding stays_quiet_def
  proof (intro allI impI)
    fix s :: "'a obs_st" assume "obs_quiet s"
    then show "obs_quiet (snd (g s))" using assms(1) assms(3) [of s] w by (auto simp: stays_quiet_def)
  qed
  show "never_panics g"
    unfolding never_panics_def
  proof (intro allI)
    fix s :: "'a obs_st" and p
    show "fst (g s) \<noteq> Inl p" using assms(2) assms(3) [of s] by (auto simp: never_panics_def)
  qed
qed

lemma trace_stage_quiet: "stays_quiet (trace_stage E res i)" "never_panics (trace_stage E res i)"
proof -
  let ?f = "obs_seq (trace_grpc E (traceAddrGrpc E))
    (obs_seq (trace_http E (traceAddrHTTP E)) (trace_set res i))"
  have "stays_quiet ?f" "never_panics ?f"
    by (intro stays_quiet_seq never_panics_seq stages_quiet stages_no_panic)+
  moreover have "trace_stage E res i s \<in> {?f s, (Inr None, s),
      (Inr None, obs_emit (Warned ''trace exporter not enabled'') s)}" for s
    unfolding trace_stage_def by (simp split: if_split)
  ultimately show "stays_quiet (trace_stage E res i)" "never_panics (trace_stage E res i)"
    using stage_guard by blast+
qed

lemma metric_stage_quiet: "stays_quiet (metric_stage E res i)" "never_panics (metric_stage E res i)"
proof -
  let ?f = "obs_seq (metric_grpc E (metricAddrGrpc E))
    (obs_seq (metric_http E (metricAddrHTTP E)) (metric_set E res i))"
  have "stays_quiet ?f" "never_panics ?f"
    by (intro stays_quiet_seq never_panics_seq stages_quiet stages_no_panic)+
  moreover have "metric_stage E res i s \<in> {?f s, (Inr None, s),
      (Inr None, obs_emit (Warned ''meter exporter not enabled'') s)}" for s
    unfolding metric_stage_def by (simp split: if_split)
  ultimately show "stays_quiet (metric_stage E res i)" "never_panics (metric_stage E res i)"
    using stage_guard by blast+
qed

lemma telemetry_off_quiet: "\<not> env_Bool key [] (oe_env E) \<Longrightarrow> stays_quiet (telemetry_stage E key st ev)"
  by (simp add: stays_quiet_def telemetry_stage_def)

lemma obs_stages_quiet:
  assumes "\<not> env_Bool ''obs.metrics.host'' [] (oe_env E)" and "\<not> env_Bool ''obs.metrics.runtime'' [] (oe_env E)"
  shows "stays_quiet (obs_stages E res)"
  unfolding obs_stages_def Let_def
  by (intro stays_quiet_seq stages_quiet trace_stage_quiet metric_stage_quiet telemetry_off_quiet assms)

lemma obs_seq_Inl:
  "obs_seq f g s = (Inl p, s') \<Longrightarrow>
     f s = (Inl p, s') \<or> (\<exists>s1. f s = (Inr None, s1) \<and> g s1 = (Inl p, s'))"
  by (auto simp: obs_seq_def split: prod.splits sum.splits option.splits)

lemma obs_seq_panic:
  "never_panics f \<Longrightarrow> obs_seq f g s = (Inl p, s') \<Longrightarrow> \<exists>s1. f s = (Inr None, s1) \<and> g s1 = (Inl p, s')"
  unfolding obs_seq_def never_panics_def
  by (auto split: prod.splits sum.splits option.splits) (metis fst_conv)+

lemma telemetry_panic:
  "telemetry_stage E key start ev s = (Inl p, s') \<Longrightarrow>
     env_Bool key [] (oe_env E) \<and> start \<noteq> None \<and> st_trace s = None \<and> oe_nil_Shutdown E = Inl p"
  by (auto simp: telemetry_stage_def Let_def split: if_splits option.splits sum.splits)

lemma obs_stages_panic:
  assumes "obs_stages E res obs_start = (Inl p, s')"
  shows "oe_nil_Shutdown E = Inl p \<and> traceAddrGrpc E = None \<and> traceAddrHTTP E = None"
proof -
  let ?i = "obs_interval E"
  obtain s1 where s1: "stdout_stage E obs_start = (Inr None, s1)"
    and r1: "obs_seq (trace_stage E res ?i) (obs_seq (metric_stage E res ?i)
        (obs_seq (telemetry_stage E ''obs.metrics.host'' (oe_host_Start E) HostStarted)
          (telemetry_stage E ''obs.metrics.runtime'' (oe_runtime_Start E ?i) (RuntimeStarted ?i)))) s1 = (Inl p, s')"
    using assms obs_seq_panic [OF stages_no_panic(1)] unfolding obs_stages_def Let_def by blast
  obtain s2 where s2: "trace_stage E res ?i s1 = (Inr None, s2)"
    and r2: "obs_seq (metric_stage E res ?i)
        (obs_seq (telemetry_stage E ''obs.metrics.host'' (oe_host_Start E) HostStarted)
          (telemetry_stage E ''obs.metrics.runtime'' (oe_runtime_Start E ?i) (RuntimeStarted ?i))) s2 = (Inl p, s')"
    using obs_seq_panic [OF trace_stage_quiet(2) r1] by blast
  obtain s3 where s3: "metric_stage E res ?i s2 = (Inr None, s3)"
    and r3: "obs_seq (telemetry_stage E ''obs.metrics.host'' (oe_host_Start E) HostStarted)
          (telemetry_stage E ''obs.metrics.runtime'' (oe_runtime_Start E ?i) (RuntimeStarted ?i)) s3 = (Inl p, s')"
    using obs_seq_panic [OF metric_stage_quiet(2) r2] by blast
  have "st_trace s3 = None \<and> oe_nil_Shutdown E = Inl p"
    using obs_seq_Inl [OF r3] by (auto dest!: telemetry_panic telemetry_stage_ok)
  moreover have "st_trace s3 = st_trace s2" by (rule metric_stage_ok(2) [OF s3])
  ultimately show ?thesis using trace_stage_ok(1) [OF s2] by (auto split: if_splits)
qed


subsection \<open>Instances\<close>

text \<open>Hosts that answer, except the one for metrics over gRPC.\<close>

definition demo_obs :: "environ \<Rightarrow> (string \<times> string) list obs_env" where
  "demo_obs e = \<lparr>oe_env = e, oe_ParseDuration = (\<lambda>s. Inl (Err [])), oe_Merge = Inr,
     oe_stdouttrace = None, oe_stdoutmetric = None,
     oe_Dial = (\<lambda>a. if a = ''m:1'' then Some (Err ''deadline exceeded'') else None),
     oe_tracegrpc = (\<lambda>b. None), oe_tracehttp = (\<lambda>a. None), oe_metricgrpc = (\<lambda>b. None),
     oe_metrichttp = (\<lambda>a p. None), oe_host_Start = Some (Err ''host''), oe_runtime_Start = (\<lambda>i. None),
     oe_tp_Shutdown = (\<lambda>t. None), oe_mp_Shutdown = (\<lambda>m. None), oe_nil_Shutdown = Inl NilDereference\<rparr>"

definition demo_data :: Data where
  "demo_data = no_Data\<lparr>md_Name := ''svc''\<rparr>"

lemmas obs_eval = obs_New_def obs_stages_def obs_seq_def stage_defs trace_stage_def metric_stage_def
  traceAddrGrpc_def traceAddrHTTP_def metricAddrGrpc_def metricAddrHTTP_def newResource_def obs_start_def
  env_Bool_def env_StringOrNil_def os_LookupEnv_def strconv_ParseBool_def defaultValue_def demo_obs_def
  demo_data_def no_Data_def Let_def

definition demo_on :: environ where
  "demo_on = [''obs.enabled'' \<mapsto> ''true'', ''obs.exporter.stdout'' \<mapsto> ''true'',
              ''obs.exporter.trace.http.host'' \<mapsto> ''t:1'']"

theorem obs_New_providers_witness:
  "\<exists>p l. obs_New (demo_obs demo_on) demo_data = (Inr (Inr p), l) \<and>
     map_option tp_exporters (traceProvider p) = Some [StdoutTrace, OtlpTraceHTTP ''t:1''] \<and>
     meterProvider p = None"
proof -
  obtain p l where r: "obs_New (demo_obs demo_on) demo_data = (Inr (Inr p), l)"
    by (simp add: obs_eval demo_on_def)
  have on: "env_Bool ''obs.enabled'' [] (oe_env (demo_obs demo_on))"
    by (simp add: obs_eval demo_on_def)
  from obs_New_providers [OF r on] r show ?thesis
    by (auto simp: stdout_on_def opt_list_def obs_eval demo_on_def)
qed

definition demo_leak :: environ where
  "demo_leak = [''obs.enabled'' \<mapsto> ''true'', ''obs.exporter.trace.grpc.host'' \<mapsto> ''t:1'',
                ''obs.exporter.metrics.grpc.host'' \<mapsto> ''m:1'']"


subsection \<open>The provider at work\<close>

lemma Shutdown_None_iff:
  "OtelProvider_Shutdown E p = None \<longleftrightarrow>
     (\<forall>tp. traceProvider p = Some tp \<longrightarrow> oe_tp_Shutdown E tp = None) \<and>
     (\<forall>mp. meterProvider p = Some mp \<longrightarrow> oe_mp_Shutdown E mp = None)"
  by (auto simp: OtelProvider_Shutdown_def Let_def errors_Join_None_iff errors_Join_def
      split: option.splits)

text \<open>Both providers are shut down whatever the other answers: both errors are found in the result.\<close>

lemma Shutdown_errors:
  assumes "traceProvider p = Some tp" and "oe_tp_Shutdown E tp = Some e"
  shows "errors_Is (OtelProvider_Shutdown E p) e"
  using assms by (auto simp: OtelProvider_Shutdown_def Let_def errors_Join_def split: option.splits)

text \<open>The router of \<open>initializeRouter\<close> is instrumented as \<open>InstrRouter\<close> says.\<close>

lemma initializeRouter_InstrRouter:
  assumes "he_otel_enabled H = enabled" and "OtelProvider b = Some p"
  shows "\<exists>rest. initializeRouter H b c =
    InstrRouter p (md_Name (Meta b)) [UseRecover (stackLevelOnError c), UseLogging] @ rest"
  using assms by (simp add: initializeRouter_def InstrRouter_def)

end
