(* ===== verification/Log.thy ===== *)
theory Log
  imports Env
begin

text \<open>
  \<^verbatim>\<open>pkg/log/log.go\<close>: the logger a service is given, read from the environment.  A writer is the value it
  was made from; what zerolog and lumberjack do with a log line is outside the model.  Zerolog's levels
  are an \<^verbatim>\<open>int8\<close>, the sizes and ages a 64-bit \<^verbatim>\<open>int\<close>.
\<close>

type_synonym Level = "8 word"

definition InfoLevel :: Level where "InfoLevel = 1"

definition Disabled :: Level where "Disabled = 7"

record console =
  co_Enabled :: bool
  ExcludeTimestamp :: bool

record log_file =
  lf_Enabled :: bool
  Directory :: string
  lf_Name :: string
  MaxSize :: "64 word"
  MaxBackups :: "64 word"
  MaxAge :: "64 word"

record log_config =
  cf_console :: console
  cf_file :: log_file
  Level :: Level
  Caller :: bool

record lumberjack =
  Filename :: string
  lj_MaxBackups :: "64 word"
  lj_MaxSize :: "64 word"
  lj_MaxAge :: "64 word"

datatype log_writer = ConsoleWriter "string list" | Lumberjack lumberjack | Discard

record Logger =
  lg_writers :: "log_writer list"
  lg_level :: Level
  lg_timestamp :: bool
  lg_caller :: bool
  lg_fields :: "(string \<times> string) list"

definition configureLogToConsole :: "console \<Rightarrow> log_writer" where
  "configureLogToConsole cfg = ConsoleWriter (if ExcludeTimestamp cfg then [''time''] else [])"

definition lumberjackLogger :: "log_file \<Rightarrow> lumberjack" where
  "lumberjackLogger cfg =
     \<lparr>Filename = lf_Name cfg, lj_MaxBackups = MaxBackups cfg, lj_MaxSize = MaxSize cfg,
      lj_MaxAge = MaxAge cfg\<rparr>"

text \<open>\<open>ks\<close> is the order in which the loop visits the map of context values.\<close>

definition newLogger ::
    "string list \<Rightarrow> (string \<rightharpoonup> string) \<Rightarrow> log_config \<Rightarrow> Logger \<times> lumberjack option" where
  "newLogger ks ctxInfo cfg =
     (let writers1 = (if co_Enabled (cf_console cfg) then [configureLogToConsole (cf_console cfg)] else []);
          writerCloser = (if lf_Enabled (cf_file cfg) \<and> strings_TrimSpace (lf_Name (cf_file cfg)) \<noteq> []
                          then Some (lumberjackLogger (cf_file cfg)) else None);
          writers2 = writers1 @ (case writerCloser of None \<Rightarrow> [] | Some w \<Rightarrow> [Lumberjack w]);
          (level, writers3) = (if writers2 = [] then (Disabled, [Discard]) else (Level cfg, writers2))
      in (\<lparr>lg_writers = writers3, lg_level = level, lg_timestamp = True, lg_caller = Caller cfg,
           lg_fields = map (\<lambda>k. (k, the (ctxInfo k))) ks\<rparr>, writerCloser))"

definition getFileName :: "environ \<Rightarrow> string" where
  "getFileName e =
     strings_Replace1 (env_String ''log.file.name'' [''file.log''] e) ''${workdir}'' (Workdir e)"

text \<open>\<open>Directory\<close> is never set.\<close>

definition read_config :: "environ \<Rightarrow> log_config" where
  "read_config e =
     \<lparr>cf_console = \<lparr>co_Enabled = env_Bool ''log.console.enabled'' [True] e,
                    ExcludeTimestamp = env_Bool ''log.console.exclude.timestamp'' [False] e\<rparr>,
      cf_file = \<lparr>lf_Enabled = env_Bool ''log.file.enabled'' [False] e, Directory = [],
                 lf_Name = getFileName e, MaxSize = env_Int ''log.file.max.size'' [100] e,
                 MaxBackups = env_Int ''log.file.max.backups'' [10] e,
                 MaxAge = env_Int ''log.file.max.age'' [24] e\<rparr>,
      Level = env_Int ''log.level'' [InfoLevel] e, Caller = env_Bool ''log.caller'' [False] e\<rparr>"

definition NewWithContext ::
    "string list \<Rightarrow> (string \<rightharpoonup> string) \<Rightarrow> environ \<Rightarrow> Logger \<times> lumberjack option" where
  "NewWithContext ks ctxInfo e = newLogger ks ctxInfo (read_config e)"

definition log_New :: "environ \<Rightarrow> Logger \<times> lumberjack option" where
  "log_New e = NewWithContext [] Map.empty e"

text \<open>
  \<open>DisableLog\<close> sets zerolog's global level; a line is written when its level, read as a signed number, is
  neither below the logger's nor below the global one.
\<close>

definition DisableLog :: "Level \<Rightarrow> Level" where
  "DisableLog global = Disabled"

definition enabled :: "Level \<Rightarrow> Logger \<Rightarrow> Level \<Rightarrow> bool" where
  "enabled global l lvl \<longleftrightarrow> lg_level l <=s lvl \<and> global <=s lvl"

lemma DisableLog_silent: "lvl <s Disabled \<Longrightarrow> \<not> enabled (DisableLog global) l lvl"
  by (simp add: enabled_def DisableLog_def word_sless_alt word_sle_eq)

subsection \<open>What the logger is\<close>

text \<open>A name made of white space is no name.\<close>

definition file_on :: "environ \<Rightarrow> bool" where
  "file_on e \<longleftrightarrow> env_Bool ''log.file.enabled'' [False] e \<and> strings_TrimSpace (getFileName e) \<noteq> []"

text \<open>
  The logger of an environment writes to the console (unless that is turned off) and to the file (when
  that is turned on with a name that is not blank), in that order; the file is what the caller is given
  to close.  With nothing to write to it discards everything at level \<^verbatim>\<open>Disabled\<close>; otherwise its level is
  the number configured, modulo 256, or \<^verbatim>\<open>Info\<close>; and it carries the values of the context.
\<close>

theorem NewWithContext_logger:
  assumes "range_order ctxInfo ks" and "NewWithContext ks ctxInfo e = (l, c)"
  shows "(c \<noteq> None \<longleftrightarrow> file_on e) \<and>
    filter (\<lambda>w. w \<noteq> Discard) (lg_writers l) =
      (if env_Bool ''log.console.enabled'' [True] e
       then [ConsoleWriter (if env_Bool ''log.console.exclude.timestamp'' [False] e then [''time''] else [])]
       else []) @ (case c of None \<Rightarrow> [] | Some w \<Rightarrow> [Lumberjack w]) \<and>
    lg_writers l \<noteq> [] \<and>
    (Discard \<in> set (lg_writers l) \<longleftrightarrow> \<not> env_Bool ''log.console.enabled'' [True] e \<and> \<not> file_on e) \<and>
    lg_level l = (if Discard \<in> set (lg_writers l) then Disabled else env_Int ''log.level'' [InfoLevel] e) \<and>
    map_of (lg_fields l) = ctxInfo"
proof -
  have "map_of (lg_fields l) = ctxInfo"
  proof
    fix k
    show "map_of (lg_fields l) k = ctxInfo k"
      using assms by (auto simp: NewWithContext_def newLogger_def Let_def range_order_def map_of_map_keys
          dom_def split: if_splits)
  qed
  moreover have "l = fst (NewWithContext ks ctxInfo e)" "c = snd (NewWithContext ks ctxInfo e)"
    using assms(2) by simp_all
  ultimately show ?thesis
    by (simp add: NewWithContext_def newLogger_def Let_def read_config_def file_on_def
        configureLogToConsole_def split: if_split)
qed

text \<open>Console and file, the file named below the work directory, the level out of range.\<close>

definition log_demo :: environ where
  "log_demo = [''log.file.enabled'' \<mapsto> ''true'', ''log.file.name'' \<mapsto> ''${workdir}/a.log'',
               ''log.level'' \<mapsto> ''258'', ''workdir'' \<mapsto> ''/w'']"

theorem NewWithContext_logger_witness:
  "lg_level (fst (NewWithContext [''service''] [''service'' \<mapsto> ''s''] log_demo)) =
     env_Int ''log.level'' [InfoLevel] log_demo \<and>
   map_of (lg_fields (fst (NewWithContext [''service''] [''service'' \<mapsto> ''s''] log_demo))) = [''service'' \<mapsto> ''s'']"
proof -
  have "range_order [''service'' \<mapsto> ''s''] [''service'']" by (simp add: range_order_def)
  from NewWithContext_logger [OF this prod.collapse [symmetric], of log_demo]
  show ?thesis
    by (simp add: env_Bool_def os_LookupEnv_def log_demo_def defaultValue_def)
qed

end
