(* ===== verification/Test_Assert.thy ===== *)
theory Test_Assert
  imports Prelude
begin

text \<open>
  The assertions of \<^verbatim>\<open>pkg/test/assert.go\<close>.  An argument of type \<^verbatim>\<open>any\<close> is a \<open>go_any\<close>: nil, or a value of one
  of the kinds the assertions look at; what is in a map or a channel does not matter, only how much.  An
  assertion passes, or it reports a text (its format) and ends the test.  \<open>eq\<close> is \<^verbatim>\<open>reflect.DeepEqual\<close>.
\<close>

datatype go_any =
    AnyNil
  | AnyString string
  | AnySlice "go_any list"
  | AnyMap nat
  | AnyChan nat
  | AnyPtr "go_any option"
  | AnyOther string

datatype kind = Invalid | String | Slice | Map | Chan | Ptr | OtherKind

fun Kind_of :: "go_any \<Rightarrow> kind" where
  "Kind_of AnyNil = Invalid"
| "Kind_of (AnyString s) = String"
| "Kind_of (AnySlice xs) = Slice"
| "Kind_of (AnyMap n) = Map"
| "Kind_of (AnyChan n) = Chan"
| "Kind_of (AnyPtr p) = Ptr"
| "Kind_of (AnyOther s) = OtherKind"

text \<open>\<open>Len\<close> of a value that has one; the assertions call it for slices, maps and channels only.\<close>

fun any_Len :: "go_any \<Rightarrow> int" where
  "any_Len (AnySlice xs) = int (length xs)"
| "any_Len (AnyMap n) = int n"
| "any_Len (AnyChan n) = int n"
| "any_Len (AnyString s) = int (length s)"
| "any_Len v = 0"

datatype verdict = Pass | Fail string

definition assert_Nil :: "go_any \<Rightarrow> string list \<Rightarrow> verdict" where
  "assert_Nil v msg =
     (if v \<noteq> AnyNil then Fail (if length msg > 0 then hd msg else ''expected <nil> got %v'') else Pass)"

definition assert_NotNil :: "go_any \<Rightarrow> verdict" where
  "assert_NotNil v = (if v = AnyNil then Fail ''not expected <nil>'' else Pass)"

definition assert_ErrorIs :: "go_err option \<Rightarrow> go_err \<Rightarrow> verdict" where
  "assert_ErrorIs err target = (if \<not> errors_Is err target then Fail ''expected %v got %v'' else Pass)"

definition assert_ErrorNotIs :: "go_err option \<Rightarrow> go_err \<Rightarrow> verdict" where
  "assert_ErrorNotIs err target = (if errors_Is err target then Fail ''Expected error: %v,got %v'' else Pass)"

definition has_len :: "kind \<Rightarrow> bool" where
  "has_len k \<longleftrightarrow> k = Slice \<or> k = Map \<or> k = Chan"

definition assert_NotEmpty :: "go_any \<Rightarrow> verdict" where
  "assert_NotEmpty v =
     (if has_len (Kind_of v) then
        (if any_Len v = 0 then Fail ''expected data got empty reference'' else Pass)
      else if Kind_of v = String then
        (if any_Len v = 0 then Fail ''expected data got empty string'' else Pass)
      else Fail ''expected slice/chan/map'')"

definition assert_Len :: "go_any \<Rightarrow> int \<Rightarrow> verdict" where
  "assert_Len v len1 =
     (if has_len (Kind_of v) then
        (if any_Len v \<noteq> len1 then Fail ''expected len equal to %d got %d'' else Pass)
      else Fail ''expected slice/chan/map'')"

definition assert_Empty :: "go_any \<Rightarrow> verdict" where
  "assert_Empty v =
     (if has_len (Kind_of v) then
        (if any_Len v \<noteq> 0 then Fail ''expected an empty slice, got: %d'' else Pass)
      else Fail ''expected slice/chan/map'')"

definition assert_Equals :: "(go_any \<Rightarrow> go_any \<Rightarrow> bool) \<Rightarrow> go_any \<Rightarrow> go_any \<Rightarrow> verdict" where
  "assert_Equals eq i l = (if \<not> eq i l then Fail ''expected the same values, got %v - %v'' else Pass)"

definition assert_NotEquals :: "(go_any \<Rightarrow> go_any \<Rightarrow> bool) \<Rightarrow> go_any \<Rightarrow> go_any \<Rightarrow> verdict" where
  "assert_NotEquals eq i l = (if eq i l then Fail ''expected different values, got %v - %v'' else Pass)"

text \<open>A pointer is followed; the check for nil comes first at every level.\<close>

fun assert_NotIsLen :: "go_any \<Rightarrow> int \<Rightarrow> verdict" where
  "assert_NotIsLen AnyNil l = Fail ''not expected <nil>''"
| "assert_NotIsLen (AnyPtr None) l = Fail ''expected %d data got <nil>''"
| "assert_NotIsLen (AnyPtr (Some d)) l = assert_NotIsLen d l"
| "assert_NotIsLen v l =
     (if has_len (Kind_of v) then
        (if any_Len v \<noteq> l then Fail ''expected %d data got %d'' else Pass)
      else Fail ''expected slice/chan/map'')"

fun deref :: "go_any \<Rightarrow> go_any" where
  "deref (AnyPtr (Some d)) = deref d"
| "deref v = v"

text \<open>
  \<open>NotIsLen\<close>, despite its name, is \<open>Len\<close> behind any number of pointers: it passes exactly when the
  length is the one given, and fails when it is another one.
\<close>

theorem NotIsLen_is_Len: "assert_NotIsLen v l = Pass \<longleftrightarrow> assert_Len (deref v) l = Pass"
  by (induction v l rule: assert_NotIsLen.induct) (simp_all add: assert_Len_def has_len_def)

text \<open>\<open>Empty\<close> and \<open>NotEmpty\<close> never both pass; neither is defined for the same values: \<open>Empty\<close> refuses a text.\<close>

lemma Empty_NotEmpty:
  "assert_Empty v = Pass \<Longrightarrow> assert_NotEmpty v \<noteq> Pass"
  "assert_Empty (AnyString s) \<noteq> Pass"
  by (simp_all add: assert_Empty_def assert_NotEmpty_def has_len_def split: if_splits)

lemma Empty_is_Len: "assert_Empty v = Pass \<longleftrightarrow> assert_Len v 0 = Pass"
  by (simp add: assert_Empty_def assert_Len_def)

text \<open>\<open>Nil\<close> is about the interface value: a nil pointer in it is not nil.\<close>

lemma Nil_typed_nil: "assert_Nil (AnyPtr None) [] \<noteq> Pass \<and> assert_NotNil (AnyPtr None) = Pass"
  by (simp add: assert_Nil_def assert_NotNil_def)

end
