(* ===== verification/Test_Support.thy ===== *)
theory Test_Support
  imports Env Coll_SyncQueue
begin

text \<open>
  What \<^verbatim>\<open>pkg/test\<close> gives the tests of the services: command line arguments and the environment that is
  saved and restored (\<^verbatim>\<open>env.go\<close>), and the group of services a test starts, waits for and stops
  (\<^verbatim>\<open>servicegroup.go\<close>), over the \<open>SyncQueue\<close> of \<open>Coll_SyncQueue\<close>.
\<close>

subsection \<open>\<^verbatim>\<open>env.go\<close>\<close>

definition SetargsV :: "string \<Rightarrow> string \<Rightarrow> string list \<Rightarrow> string list" where
  "SetargsV nm value os_Args = os_Args @ [''--env:'' @ nm @ ''='' @ value]"

fun Setargs :: "string list \<Rightarrow> string list \<Rightarrow> string list" where
  "Setargs [] os_Args = os_Args"
| "Setargs (arg # args) os_Args = Setargs args (os_Args @ [''--env:'' @ arg])"

text \<open>The streams of the process, which are saved and restored as they are, are left out.\<close>

record BackupEnvData =
  be_args :: "string list"
  be_envs :: "string list"

text \<open>\<open>os.Environ\<close>: the environment as texts, in some order \<open>ks\<close> of its names.\<close>

definition os_Environ :: "string list \<Rightarrow> environ \<Rightarrow> string list" where
  "os_Environ ks e = map (\<lambda>k. k @ ''='' @ the (e k)) ks"

definition DoBackupEnv :: "string list \<Rightarrow> string list \<Rightarrow> environ \<Rightarrow> BackupEnvData" where
  "DoBackupEnv ks os_Args e = \<lparr>be_args = os_Args, be_envs = os_Environ ks e\<rparr>"

fun restore_loop :: "string list \<Rightarrow> environ \<Rightarrow> environ go" where
  "restore_loop [] e = Inr e"
| "restore_loop (ss # sss) e =
     (let p = strings_Split ss ''='' in
      go_bind (go_index p 0) (\<lambda>k. go_bind (go_index p 1) (\<lambda>v.
        restore_loop sss (snd (os_Setenv k v e)))))"

definition RestoreEnv :: "BackupEnvData \<Rightarrow> (string list \<times> environ) go" where
  "RestoreEnv b = go_bind (restore_loop (be_envs b) Map.empty) (\<lambda>e. Inr (be_args b, e))"

lemma SplitN_hd:
  "length s \<le> n \<Longrightarrow> \<exists>r. strings_SplitN s [c] (Suc n) = takeWhile (\<lambda>d. d \<noteq> c) s # r"
proof (cases "c \<in> set s")
  case True
  assume n: "length s \<le> n"
  obtain k t where s: "s = k @ c # t" and k: "c \<notin> set k" using True by (metis split_list_first)
  then obtain m where "n = Suc m" using n by (cases n) auto
  moreover have "takeWhile (\<lambda>d. d \<noteq> c) s = k" using s k by (auto simp: takeWhile_append)
  ultimately show ?thesis using s k by (simp add: Index_char_append)
next
  case False
  then have "takeWhile (\<lambda>d. d \<noteq> c) s = s" by auto
  then show ?thesis using False by (cases n) (simp_all add: Index_char_None del: takeWhile_eq_all_conv)
qed

lemma Split_binding:
  assumes "c \<notin> set k"
  shows "\<exists>r. strings_Split (k @ c # v) [c] = k # takeWhile (\<lambda>d. d \<noteq> c) v # r"
proof -
  have "\<exists>r. strings_SplitN v [c] (Suc (length k + length v)) = takeWhile (\<lambda>d. d \<noteq> c) v # r"
    by (rule SplitN_hd) simp
  then show ?thesis using assms by (simp add: strings_Split_def Index_char_append)
qed

lemma restore_loop_environ:
  assumes "\<And>k. k \<in> set ks \<Longrightarrow> k \<noteq> [] \<and> CHR ''='' \<notin> set k \<and> CHR 0x00 \<notin> set k \<and> CHR 0x00 \<notin> set (the (m k))"
    and "distinct ks"
  shows "restore_loop (os_Environ ks m) e =
    Inr (\<lambda>k. if k \<in> set ks then Some (takeWhile (\<lambda>c. c \<noteq> CHR ''='') (the (m k))) else e k)"
  using assms
proof (induction ks arbitrary: e)
  case Nil
  then show ?case by (simp add: os_Environ_def)
next
  case (Cons k ks)
  let ?v = "takeWhile (\<lambda>c. c \<noteq> CHR ''='') (the (m k))"
  obtain r where r: "strings_Split (k @ CHR ''='' # the (m k)) ''='' = k # ?v # r"
    using Split_binding [of "CHR ''=''" k "the (m k)"] Cons.prems(1) [of k] by auto
  have "CHR 0x00 \<notin> set ?v" using Cons.prems(1) [of k] by (auto dest: set_takeWhileD)
  then have set: "os_Setenv k ?v e = (None, e(k \<mapsto> ?v))"
    using Cons.prems(1) [of k] by (simp add: os_Setenv_def)
  have "restore_loop (os_Environ (k # ks) m) e = restore_loop (os_Environ ks m) (e(k \<mapsto> ?v))"
    by (simp add: os_Environ_def r go_index_def set)
  also have "\<dots> = Inr (\<lambda>j. if j \<in> set ks then Some (takeWhile (\<lambda>c. c \<noteq> CHR ''='') (the (m j)))
      else (e(k \<mapsto> ?v)) j)"
    by (rule Cons.IH) (use Cons.prems in auto)
  finally show ?case using Cons.prems(2) by (auto simp: fun_eq_iff)
qed

text \<open>
  \<open>RestoreEnv\<close> gives back the arguments and every variable up to the first \<^verbatim>\<open>=\<close> of its value, which it
  loses from there on: what is restored is what was saved exactly when no value has one.
\<close>

theorem RestoreEnv_truncates:
  assumes "range_order e ks" and "\<forall>k \<in> dom e. k \<noteq> [] \<and> CHR ''='' \<notin> set k \<and> CHR 0x00 \<notin> set k"
    and "\<forall>v \<in> ran e. CHR 0x00 \<notin> set v"
  shows "RestoreEnv (DoBackupEnv ks os_Args e) =
      Inr (os_Args, map_option (takeWhile (\<lambda>c. c \<noteq> CHR ''='')) \<circ> e)"
    and "RestoreEnv (DoBackupEnv ks os_Args e) = Inr (os_Args, e) \<longleftrightarrow> (\<forall>v \<in> ran e. CHR ''='' \<notin> set v)"
proof -
  let ?t = "takeWhile (\<lambda>c. c \<noteq> CHR ''='')"
  have dm: "set ks = dom e" "distinct ks" using assms(1) by (simp_all add: range_order_def)
  have "restore_loop (os_Environ ks e) Map.empty =
      Inr (\<lambda>k. if k \<in> set ks then Some (?t (the (e k))) else Map.empty k)"
    by (rule restore_loop_environ [OF _ dm(2)]) (use assms(2,3) dm(1) in \<open>auto simp: ran_def dom_def\<close>)
  moreover have "(\<lambda>k. if k \<in> set ks then Some (?t (the (e k))) else Map.empty k) = map_option ?t \<circ> e"
    using dm(1) by (auto simp: fun_eq_iff dom_def map_option_case split: option.split)
  ultimately show r: "RestoreEnv (DoBackupEnv ks os_Args e) = Inr (os_Args, map_option ?t \<circ> e)"
    by (simp add: RestoreEnv_def DoBackupEnv_def)
  have "map_option ?t (e k) = e k \<longleftrightarrow> (\<forall>v. e k = Some v \<longrightarrow> CHR ''='' \<notin> set v)" for k
    by (cases "e k") auto
  then show "RestoreEnv (DoBackupEnv ks os_Args e) = Inr (os_Args, e) \<longleftrightarrow> (\<forall>v \<in> ran e. CHR ''='' \<notin> set v)"
    unfolding r by (auto simp: fun_eq_iff ran_def)
qed

text \<open>What a test sets on the command line is what \<open>parse_args\<close> binds.\<close>

lemma SetargsV_parse:
  assumes "CHR ''='' \<notin> set nm"
  shows "parse_args (SetargsV nm v os_Args) = (parse_args os_Args)(nm \<mapsto> v)"
proof -
  have "arg_binding (''--env:'' @ nm @ ''='' @ v) = Some (nm, v)"
    using assms by (simp add: arg_binding_def Let_def takeWhile_append)
  then show ?thesis
    by (simp add: parse_args_def SetargsV_def parse_loop_map_of List.map_filter_def map_add_def)
qed

subsection \<open>\<^verbatim>\<open>servicegroup.go\<close>\<close>

text \<open>
  One turn of the loop of \<open>waitForHealthy\<close>: the second is over, or the service was asked.  The result is
  \<open>None\<close> while the loop goes on.
\<close>

definition ErrTimeout :: go_err where
  "ErrTimeout = Err ''timeout while waiting channel''"

text \<open>The text of an error: \<^verbatim>\<open>%w\<close> puts the wrapped one after a colon, \<^verbatim>\<open>errors.Join\<close> one per line.\<close>

fun join_lines :: "string list \<Rightarrow> string" where
  "join_lines [] = []"
| "join_lines [s] = s"
| "join_lines (s # ss) = s @ [CHR 0x0A] @ join_lines ss"

fun err_text :: "go_err \<Rightarrow> string" where
  "err_text (Err m) = m"
| "err_text (ErrWrap m e) = m @ '': '' @ err_text e"
| "err_text (ErrJoin es) = join_lines (map err_text es)"

text \<open>\<open>ErrService\<close> has no \<^verbatim>\<open>Unwrap\<close>: what it was made from is only in its text.\<close>

definition ErrService :: "string \<Rightarrow> go_err \<Rightarrow> go_err" where
  "ErrService addr e = Err (''error stopping '' @ addr @ '': '' @ err_text e)"

datatype health_turn = DeadlineExceeded go_err | Checked "go_err option"

fun healthy_loop :: "health_turn list \<Rightarrow> go_err option option" where
  "healthy_loop [] = None"
| "healthy_loop (DeadlineExceeded e # ts) = Some (Some e)"
| "healthy_loop (Checked None # ts) = Some None"
| "healthy_loop (Checked (Some e) # ts) = healthy_loop ts"

text \<open>\<open>cli\<close>: the error of making the client, or what closing it answers.\<close>

definition waitForHealthy :: "go_err + go_err option \<Rightarrow> health_turn list \<Rightarrow> go_err option option" where
  "waitForHealthy cli ts =
     (case cli of
        Inl e \<Rightarrow> Some (Some e)
      | Inr closed \<Rightarrow> map_option (\<lambda>err. errors_Join [err, closed]) (healthy_loop ts))"

text \<open>
  \<open>WaitFor\<close> on the channel of a service: the context ends first, the service sends its error, or the
  channel is closed.
\<close>

datatype wait_event = CtxEnded | SentError go_err | ChannelClosed

definition WaitFor :: "string \<Rightarrow> wait_event \<Rightarrow> go_err option \<times> go_err option" where
  "WaitFor addr ev =
     (case ev of
        CtxEnded \<Rightarrow> (None, Some ErrTimeout)
      | SentError e \<Rightarrow> (Some (ErrService addr e), None)
      | ChannelClosed \<Rightarrow> (None, None))"

definition waitUntilStopped :: "string \<Rightarrow> wait_event \<Rightarrow> go_err option" where
  "waitUntilStopped addr ev =
     (case WaitFor addr ev of
        (errStop, Some e) \<Rightarrow> Some (ErrService addr e)
      | (errStop, None) \<Rightarrow> errStop)"

lemma waitUntilStopped_None: "waitUntilStopped addr ev = None \<longleftrightarrow> ev = ChannelClosed"
  by (cases ev) (simp_all add: waitUntilStopped_def WaitFor_def)

text \<open>
  Both \<open>waitUntilHealthy\<close> and \<open>WaitUntilStopped\<close>: one goroutine per service queues its error, if it has
  one; when all are done the queue is emptied.  \<open>rs\<close> holds what the goroutines found in the order in
  which they come to the queue.
\<close>

fun gather_loop :: "go_err option list \<Rightarrow> go_err SyncQueue \<Rightarrow> go_err SyncQueue option" where
  "gather_loop [] q = Some q"
| "gather_loop (None # rs) q = gather_loop rs q"
| "gather_loop (Some e # rs) q =
     (case SyncQueue_Queue e q of None \<Rightarrow> None | Some (q', r) \<Rightarrow> gather_loop rs q')"

definition gather :: "go_err \<Rightarrow> go_err option list \<Rightarrow> go_err option go option" where
  "gather z rs =
     (case gather_loop rs NewSyncQueue of
        None \<Rightarrow> None
      | Some q \<Rightarrow>
          (case SyncQueue_DequeueAll z q of
             None \<Rightarrow> None
           | Some (q', r) \<Rightarrow> Some (go_bind r (\<lambda>es. Inr (errors_Join (map Some es))))))"

definition WaitUntilStopped :: "go_err \<Rightarrow> (string \<times> wait_event) list \<Rightarrow> go_err option go option" where
  "WaitUntilStopped z svcs = gather z (map (\<lambda>(addr, ev). waitUntilStopped addr ev) svcs)"

definition waitUntilHealthy ::
    "go_err \<Rightarrow> ((go_err + go_err option) \<times> health_turn list) list \<Rightarrow> go_err option go option option" where
  "waitUntilHealthy z svcs =
     (let rs = map (\<lambda>(cli, ts). waitForHealthy cli ts) svcs
      in if None \<in> set rs then None else Some (gather z (map the rs)))"

lemma gather_loop_data:
  "sq_idle q \<Longrightarrow> gather_loop rs q = Some (q\<lparr>sq_data := sq_data q @ non_nil rs\<rparr>)"
proof (induction rs q rule: gather_loop.induct)
  case (3 e rs q)
  then show ?case
    by (simp add: SyncQueue_Queue_def sq_section_idle Queue_body_def sq_idle_def)
qed simp_all

lemma gather_Join: "gather z rs = Some (Inr (errors_Join rs))"
proof -
  have i: "sq_idle (NewSyncQueue :: go_err SyncQueue)" by (simp add: sq_idle_def NewSyncQueue_def)
  have "sq_idle (NewSyncQueue\<lparr>sq_data := non_nil rs\<rparr>)" by (simp add: sq_idle_def NewSyncQueue_def)
  from DequeueAll_idle [OF this] show ?thesis
    using gather_loop_data [OF i, of rs] by (simp add: gather_def NewSyncQueue_def errors_Join_def)
qed

text \<open>
  Waiting for a group to stop, in whatever order its services come to an end: no waiting for the lock
  and no panic, and the answer is no error exactly when every service closed its channel in time and
  had no error; each error that a service ended with is found in the answer.
\<close>

theorem WaitUntilStopped_result:
  "\<exists>err. WaitUntilStopped z svcs = Some (Inr err) \<and>
     (err = None \<longleftrightarrow> snd ` set svcs \<subseteq> {ChannelClosed}) \<and>
     {(addr, e). (addr, SentError e) \<in> set svcs} \<subseteq> {(addr, e). errors_Is err (ErrService addr e)}"
proof (intro exI conjI)
  let ?rs = "map (\<lambda>(addr, ev). waitUntilStopped addr ev) svcs"
  show "WaitUntilStopped z svcs = Some (Inr (errors_Join ?rs))"
    by (simp add: WaitUntilStopped_def gather_Join)
  show "errors_Join ?rs = None \<longleftrightarrow> snd ` set svcs \<subseteq> {ChannelClosed}"
    by (fastforce simp: errors_Join_None_iff waitUntilStopped_None)
  show "{(addr, e). (addr, SentError e) \<in> set svcs} \<subseteq> {(addr, e). errors_Is (errors_Join ?rs) (ErrService addr e)}"
  proof (rule subsetI, clarify)
    fix addr e assume "(addr, SentError e) \<in> set svcs"
    then have "Some (ErrService addr e) \<in> set ?rs"
      by (force simp: waitUntilStopped_def WaitFor_def)
    then show "errors_Is (errors_Join ?rs) (ErrService addr e)"
      unfolding errors_Join_Is by (blast intro: err_is_refl)
  qed
qed

text \<open>The group is healthy when every service was once, before its second was over, and closed well.\<close>

lemma waitUntilHealthy_None:
  assumes "waitUntilHealthy z svcs = Some (Some (Inr err))"
  shows "err = None \<longleftrightarrow> (\<forall>(cli, ts) \<in> set svcs. cli = Inr None \<and> healthy_loop ts = Some None)"
proof -
  let ?rs = "map (\<lambda>(cli, ts). waitForHealthy cli ts) svcs"
  have nn: "None \<notin> set ?rs" and err: "err = errors_Join (map the ?rs)"
    using assms by (auto simp: waitUntilHealthy_def gather_Join Let_def split: if_splits)
  have one: "the (waitForHealthy cli ts) = None \<longleftrightarrow> cli = Inr None \<and> healthy_loop ts = Some None"
    if "waitForHealthy cli ts \<noteq> None" for cli ts
    using that by (auto simp: waitForHealthy_def errors_Join_None_iff split: sum.splits)
  have "err = None \<longleftrightarrow> (\<forall>(cli, ts) \<in> set svcs. the (waitForHealthy cli ts) = None)"
    by (auto simp: err errors_Join_None_iff)
  also have "\<dots> \<longleftrightarrow> (\<forall>(cli, ts) \<in> set svcs. cli = Inr None \<and> healthy_loop ts = Some None)"
  proof (rule ball_cong [OF refl])
    fix x assume x: "x \<in> set svcs"
    obtain cli ts where [simp]: "x = (cli, ts)" by fastforce
    have "waitForHealthy cli ts \<noteq> None" using nn x by force
    then show "(case x of (cli, ts) \<Rightarrow> the (waitForHealthy cli ts) = None) =
        (case x of (cli, ts) \<Rightarrow> cli = Inr None \<and> healthy_loop ts = Some None)"
      using one by simp
  qed
  finally show ?thesis .
qed

end
