(* ===== verification/Test_Group.thy ===== *)
theory Test_Group
  imports Test_Support Runs
begin

text \<open>
  The service group of \<^verbatim>\<open>pkg/test/servicegroup.go\<close> with its goroutines: one per service, which runs it and
  hands its error over an unbuffered channel, and one per service while the test waits for the group to
  stop.  What the group answers is shown to be what \<open>WaitUntilStopped\<close> of \<open>Test_Support\<close> computes.
\<close>

subsection \<open>Steps\<close>

text \<open>The goroutine \<open>start\<close> makes; \<open>ac_ret\<close> remembers what the service's \<open>Start\<close> returned.\<close>

datatype start_pc = Sv_serving | Sv_send go_err | Sv_mark | Sv_close | Sv_over

record active =
  ac_addr :: string
  ac_pc :: start_pc
  ac_stopped :: bool
  ac_closed :: bool
  ac_ret :: "go_err option option"

text \<open>The goroutine that waits for one service, and the test that calls the group's methods.\<close>

datatype wait_pc = W_none | W_wait | W_got wait_event | W_queued | W_done
datatype group_pc = M_free | M_wait | M_ret "go_err option go"

text \<open>
  The active services are numbered in the order in which they were made; \<open>sg_services\<close> is the map from
  starters to them.  \<open>sg_waited\<close> and \<open>sg_order\<close> are those the last \<open>WaitUntilStopped\<close> ranged over, and what
  its goroutines found in the order in which they came to the queue.
\<close>

record group =
  sg_actives :: "active list"
  sg_services :: "nat \<rightharpoonup> nat"
  sg_pc :: group_pc
  sg_waiter :: "nat \<Rightarrow> wait_pc"
  sg_wg :: nat
  sg_q :: "go_err SyncQueue"
  sg_waited :: "nat set"
  sg_order :: "(nat \<times> wait_event) list"

definition NewServiceGroup :: group where
  "NewServiceGroup =
     \<lparr>sg_actives = [], sg_services = Map.empty, sg_pc = M_free, sg_waiter = (\<lambda>i. W_none), sg_wg = 0,
      sg_q = NewSyncQueue, sg_waited = {}, sg_order = []\<rparr>"

text \<open>\<open>start\<close>: the starter \<open>st\<close> listens on \<open>addr st\<close>.\<close>

definition group_start :: "(nat \<Rightarrow> string) \<Rightarrow> nat \<Rightarrow> group \<Rightarrow> group" where
  "group_start addr st s =
     s\<lparr>sg_services := (sg_services s)(st \<mapsto> length (sg_actives s)),
       sg_actives := sg_actives s @
         [\<lparr>ac_addr = addr st, ac_pc = Sv_serving, ac_stopped = False, ac_closed = False, ac_ret = None\<rparr>]\<rparr>"

text \<open>A step of the goroutine of \<open>start\<close> that does not need another one: the function returns, or it goes on.\<close>

inductive start_go :: "active \<Rightarrow> active \<Rightarrow> bool" where
  a_nil: "ac_pc a = Sv_serving \<Longrightarrow> start_go a (a\<lparr>ac_pc := Sv_mark, ac_ret := Some None\<rparr>)"
| a_err: "ac_pc a = Sv_serving \<Longrightarrow> start_go a (a\<lparr>ac_pc := Sv_send e, ac_ret := Some (Some e)\<rparr>)"
| a_mark: "ac_pc a = Sv_mark \<Longrightarrow> start_go a (a\<lparr>ac_pc := Sv_close, ac_stopped := True\<rparr>)"
| a_close: "ac_pc a = Sv_close \<Longrightarrow> start_go a (a\<lparr>ac_pc := Sv_over, ac_closed := True\<rparr>)"

text \<open>The wait for one service is over.\<close>

inductive wait_over :: "active \<Rightarrow> wait_event \<Rightarrow> active \<Rightarrow> bool" where
  e_send: "ac_pc a = Sv_send e \<Longrightarrow> wait_over a (SentError e) (a\<lparr>ac_pc := Sv_mark\<rparr>)"
| e_closed: "ac_closed a \<Longrightarrow> wait_over a ChannelClosed a"
| e_timeout: "wait_over a CtxEnded a"

text \<open>The goroutine of the queue: nothing to add when the service ended well.\<close>

definition queue_error :: "go_err option \<Rightarrow> go_err SyncQueue \<Rightarrow> go_err SyncQueue option" where
  "queue_error r q =
     (case r of None \<Rightarrow> Some q | Some e \<Rightarrow> map_option fst (SyncQueue_Queue e q))"

text \<open>The steps of a \<open>WaitUntilStopped\<close> that was called: its goroutines and its return.\<close>

inductive wait_step :: "go_err \<Rightarrow> group \<Rightarrow> group \<Rightarrow> bool" for z where
  w_over: "sg_pc s = M_wait \<Longrightarrow> sg_waiter s i = W_wait \<Longrightarrow> wait_over (sg_actives s ! i) ev a \<Longrightarrow>
    wait_step z s (s\<lparr>sg_actives := (sg_actives s)[i := a], sg_waiter := (sg_waiter s)(i := W_got ev)\<rparr>)"
| w_queue: "sg_pc s = M_wait \<Longrightarrow> sg_waiter s i = W_got ev \<Longrightarrow>
    queue_error (waitUntilStopped (ac_addr (sg_actives s ! i)) ev) (sg_q s) = Some q' \<Longrightarrow>
    wait_step z s (s\<lparr>sg_q := q', sg_waiter := (sg_waiter s)(i := W_queued),
                     sg_order := sg_order s @ [(i, ev)]\<rparr>)"
| w_done: "sg_pc s = M_wait \<Longrightarrow> sg_waiter s i = W_queued \<Longrightarrow>
    wait_step z s (s\<lparr>sg_waiter := (sg_waiter s)(i := W_done), sg_wg := sg_wg s - 1\<rparr>)"
| w_return: "sg_pc s = M_wait \<Longrightarrow> sg_wg s = 0 \<Longrightarrow> SyncQueue_DequeueAll z (sg_q s) = Some (q', r) \<Longrightarrow>
    wait_step z s (s\<lparr>sg_q := q', sg_pc := M_ret (go_bind r (\<lambda>es. Inr (errors_Join (map Some es))))\<rparr>)"

text \<open>The other steps: calls of the group's methods, one at a time, and the services.\<close>

inductive group_call :: "(nat \<Rightarrow> string) \<Rightarrow> group \<Rightarrow> group \<Rightarrow> bool" for addr where
  g_start: "sg_pc s \<noteq> M_wait \<Longrightarrow> group_call addr s (group_start addr st s)"
| g_wait: "sg_pc s \<noteq> M_wait \<Longrightarrow>
    group_call addr s (s\<lparr>sg_pc := M_wait, sg_q := NewSyncQueue, sg_wg := card (dom (sg_services s)),
      sg_waiter := (\<lambda>i. if i \<in> ran (sg_services s) then W_wait else W_none),
      sg_waited := ran (sg_services s), sg_order := []\<rparr>)"
| g_go: "i < length (sg_actives s) \<Longrightarrow> start_go (sg_actives s ! i) a \<Longrightarrow>
    group_call addr s (s\<lparr>sg_actives := (sg_actives s)[i := a]\<rparr>)"

inductive group_reach :: "go_err \<Rightarrow> (nat \<Rightarrow> string) \<Rightarrow> group \<Rightarrow> bool" for z addr where
  gr_init: "group_reach z addr NewServiceGroup"
| gr_call: "group_reach z addr s \<Longrightarrow> group_call addr s s' \<Longrightarrow> group_reach z addr s'"
| gr_wait: "group_reach z addr s \<Longrightarrow> wait_step z s s' \<Longrightarrow> group_reach z addr s'"

inductive_simps start_go_simps: "start_go a a'"
inductive_simps wait_over_simps: "wait_over a ev a'"

subsection \<open>The services\<close>

definition active_ok :: "active \<Rightarrow> bool" where
  "active_ok a \<longleftrightarrow>
     (ac_closed a \<longleftrightarrow> ac_pc a = Sv_over) \<and> (ac_stopped a \<longleftrightarrow> ac_pc a = Sv_close \<or> ac_pc a = Sv_over) \<and>
     (ac_ret a = None \<longleftrightarrow> ac_pc a = Sv_serving) \<and> (\<forall>e. ac_pc a = Sv_send e \<longrightarrow> ac_ret a = Some (Some e))"

text \<open>What may have been found of a service.\<close>

fun outcome :: "active \<Rightarrow> wait_event \<Rightarrow> bool" where
  "outcome a CtxEnded = True"
| "outcome a (SentError e) = (ac_ret a = Some (Some e))"
| "outcome a ChannelClosed = ac_closed a"

text \<open>A service only goes forward: its address stays, and what was found of it stays true.\<close>

definition later :: "active \<Rightarrow> active \<Rightarrow> bool" where
  "later a a' \<longleftrightarrow> ac_addr a' = ac_addr a \<and> active_ok a' \<and> (\<forall>ev. outcome a ev \<longrightarrow> outcome a' ev)"

lemma start_go_later: "active_ok a \<Longrightarrow> start_go a a' \<Longrightarrow> later a a'"
  by (auto simp: start_go_simps later_def active_ok_def elim!: outcome.elims)

lemma wait_over_later: "active_ok a \<Longrightarrow> wait_over a ev a' \<Longrightarrow> later a a' \<and> outcome a' ev"
  by (auto simp: wait_over_simps later_def active_ok_def elim!: outcome.elims)

subsection \<open>What was found\<close>

text \<open>The list \<open>WaitUntilStopped\<close> is given.\<close>

definition results :: "active list \<Rightarrow> (nat \<times> wait_event) list \<Rightarrow> (string \<times> wait_event) list" where
  "results as found = map (\<lambda>(i, ev). (ac_addr (as ! i), ev)) found"

definition found_ok :: "active list \<Rightarrow> nat \<Rightarrow> wait_event \<Rightarrow> bool" where
  "found_ok as i ev \<longleftrightarrow> i < length as \<and> outcome (as ! i) ev"

text \<open>Lists of services that can follow on one another.\<close>

definition forward :: "active list \<Rightarrow> active list \<Rightarrow> bool" where
  "forward as as' \<longleftrightarrow> length as \<le> length as' \<and> (\<forall>a \<in> set as'. active_ok a) \<and>
     (\<forall>i < length as. later (as ! i) (as' ! i))"

lemma later_refl: "active_ok a \<Longrightarrow> later a a"
  by (simp add: later_def)

lemma forward_upd:
  assumes "\<forall>a \<in> set as. active_ok a" and "i < length as \<Longrightarrow> later (as ! i) a"
  shows "forward as (as[i := a])"
proof (cases "i < length as")
  case True
  have "\<forall>x \<in> set (as[i := a]). active_ok x"
    using assms True by (auto simp: later_def dest: set_update_subset_insert [THEN subsetD])
  then show ?thesis
    using assms True by (auto simp: forward_def nth_list_update later_refl)
next
  case False
  then show ?thesis using assms by (simp add: forward_def later_refl list_update_beyond)
qed

lemma forward_append: "\<forall>a \<in> set as. active_ok a \<Longrightarrow> active_ok a' \<Longrightarrow> forward as (as @ [a'])"
  by (auto simp: forward_def nth_append later_refl)

lemma forward_found: "forward as as' \<Longrightarrow> found_ok as i ev \<Longrightarrow> found_ok as' i ev"
  by (auto simp: forward_def found_ok_def later_def)

lemma forward_results:
  "forward as as' \<Longrightarrow> (\<forall>x \<in> set found. fst x < length as) \<Longrightarrow> results as' found = results as found"
  by (auto simp: forward_def results_def later_def)

subsection \<open>The invariant\<close>

text \<open>No two starters share an active service.\<close>

definition own_service :: "('k \<rightharpoonup> nat) \<Rightarrow> bool" where
  "own_service m \<longleftrightarrow> inj_on (\<lambda>k. the (m k)) (dom m)"

lemma ran_the: "ran m = (\<lambda>k. the (m k)) ` dom m"
  by (auto simp: ran_def dom_def image_iff) force+

lemma card_ran: "own_service m \<Longrightarrow> card (ran m) = card (dom m)"
  unfolding ran_the own_service_def by (rule card_image)

lemma own_service_fresh:
  assumes "own_service m" and "\<forall>i \<in> ran m. i < n"
  shows "own_service (m(x \<mapsto> n))"
proof -
  have lt: "the (m k) < n" if "k \<in> dom m" for k
    using that assms(2) by (auto simp: ran_the)
  show ?thesis
    unfolding own_service_def
  proof (rule inj_onI)
    fix a b
    assume ab: "a \<in> dom (m(x \<mapsto> n))" "b \<in> dom (m(x \<mapsto> n))" "the ((m(x \<mapsto> n)) a) = the ((m(x \<mapsto> n)) b)"
    show "a = b"
    proof (cases "a = x \<or> b = x")
      case True
      then show ?thesis using ab lt [of a] lt [of b] by (auto split: if_splits)
    next
      case False
      then show ?thesis using ab assms(1) by (auto simp: own_service_def inj_on_def)
    qed
  qed
qed

definition group_ok :: "group \<Rightarrow> bool" where
  "group_ok s \<longleftrightarrow> (\<forall>a \<in> set (sg_actives s). active_ok a) \<and>
     (\<forall>i \<in> ran (sg_services s). i < length (sg_actives s)) \<and>
     own_service (sg_services s) \<and>
     (\<forall>i \<in> sg_waited s. i < length (sg_actives s))"

definition founds :: "group \<Rightarrow> bool" where
  "founds s \<longleftrightarrow> (\<forall>x \<in> set (sg_order s). found_ok (sg_actives s) (fst x) (snd x)) \<and>
     (\<forall>i ev. sg_waiter s i = W_got ev \<longrightarrow> found_ok (sg_actives s) i ev)"

definition forked :: "group \<Rightarrow> bool" where
  "forked s \<longleftrightarrow> (\<forall>i. sg_waiter s i \<noteq> W_none \<longleftrightarrow> i \<in> sg_waited s) \<and> distinct (map fst (sg_order s)) \<and>
     (\<forall>i. i \<in> fst ` set (sg_order s) \<longleftrightarrow> sg_waiter s i = W_queued \<or> sg_waiter s i = W_done)"

definition answer :: "active list \<Rightarrow> (nat \<times> wait_event) list \<Rightarrow> go_err option list" where
  "answer as found = map (\<lambda>(addr, ev). waitUntilStopped addr ev) (results as found)"

definition main_ok :: "group \<Rightarrow> bool" where
  "main_ok s \<longleftrightarrow>
     (sg_pc s = M_wait \<longrightarrow> sg_wg s = card {i \<in> sg_waited s. sg_waiter s i \<noteq> W_done} \<and> sq_idle (sg_q s) \<and>
        sq_data (sg_q s) = non_nil (answer (sg_actives s) (sg_order s))) \<and>
     (\<forall>r. sg_pc s = M_ret r \<longrightarrow> r = Inr (errors_Join (answer (sg_actives s) (sg_order s))) \<and>
        (\<forall>i \<in> sg_waited s. sg_waiter s i = W_done))"

definition group_inv :: "group \<Rightarrow> bool" where
  "group_inv s \<longleftrightarrow> group_ok s \<and> founds s \<and> forked s \<and> main_ok s"

lemma group_init: "group_inv NewServiceGroup"
  by (simp add: own_service_def group_inv_def NewServiceGroup_def group_ok_def founds_def forked_def main_ok_def)

lemma found_lengths: "founds s \<Longrightarrow> \<forall>x \<in> set (sg_order s). fst x < length (sg_actives s)"
  by (auto simp: founds_def found_ok_def)

text \<open>The services go on while the rest of the group stays as it is.\<close>

lemma inv_forward:
  assumes "group_inv s" and "forward (sg_actives s) as"
  shows "group_inv (s\<lparr>sg_actives := as\<rparr>)"
proof -
  have "results as (sg_order s) = results (sg_actives s) (sg_order s)"
    using forward_results [OF assms(2)] found_lengths assms(1) by (simp add: group_inv_def)
  then show ?thesis
    using assms by (auto simp: group_inv_def group_ok_def founds_def forked_def main_ok_def answer_def
        forward_def intro: forward_found [OF assms(2)] order.strict_trans2)
qed

lemma inv_call:
  assumes "group_call addr s s'" and i: "group_inv s"
  shows "group_inv s'"
  using assms(1)
proof cases
  case (g_start st)
  let ?a = "\<lparr>ac_addr = addr st, ac_pc = Sv_serving, ac_stopped = False, ac_closed = False, ac_ret = None\<rparr>"
  have "forward (sg_actives s) (sg_actives s @ [?a])"
    by (rule forward_append) (use i in \<open>simp_all add: group_inv_def group_ok_def active_ok_def\<close>)
  moreover have "own_service ((sg_services s)(st \<mapsto> length (sg_actives s)))"
    by (rule own_service_fresh) (use i in \<open>simp_all add: group_inv_def group_ok_def\<close>)
  ultimately show ?thesis
    using i inv_forward [OF i] unfolding g_start(1) group_start_def
    by (auto simp: group_inv_def group_ok_def founds_def forked_def main_ok_def ran_def less_Suc_eq
        split: if_splits)
next
  case g_wait
  then show ?thesis
    using i card_ran [of "sg_services s", symmetric]
    by (auto simp: group_inv_def group_ok_def founds_def forked_def main_ok_def answer_def
        results_def NewSyncQueue_def sq_idle_def intro: arg_cong [where f = card])
next
  case (g_go i' a)
  have "forward (sg_actives s) ((sg_actives s)[i' := a])"
    by (rule forward_upd) (use i g_go(3) start_go_later in \<open>auto simp: group_inv_def group_ok_def\<close>)
  from inv_forward [OF i this] show ?thesis by (simp add: g_go(1))
qed

text \<open>A goroutine of \<open>WaitUntilStopped\<close> goes on.\<close>

lemma card_wait_upd:
  "(\<And>i. i \<in> A \<Longrightarrow> (f i \<noteq> W_done) = (g i \<noteq> W_done)) \<Longrightarrow> card {i \<in> A. f i \<noteq> W_done} = card {i \<in> A. g i \<noteq> W_done}"
  by (rule arg_cong [where f = card]) auto

lemma inv_waited: "group_inv s \<Longrightarrow> sg_waiter s i \<noteq> W_none \<Longrightarrow> i \<in> sg_waited s"
  by (auto simp: group_inv_def forked_def)

lemma inv_over:
  assumes i: "group_inv s" and pc: "sg_pc s = M_wait" "sg_waiter s i = W_wait"
    and ev: "wait_over (sg_actives s ! i) ev a"
  shows "group_inv (s\<lparr>sg_actives := (sg_actives s)[i := a], sg_waiter := (sg_waiter s)(i := W_got ev)\<rparr>)"
proof -
  have w: "i \<in> sg_waited s" using inv_waited [OF i] pc by simp
  then have l: "i < length (sg_actives s)" using i by (simp add: group_inv_def group_ok_def)
  then have "active_ok (sg_actives s ! i)" using i by (simp add: group_inv_def group_ok_def)
  note lt = wait_over_later [OF this ev]
  have "forward (sg_actives s) ((sg_actives s)[i := a])"
    by (rule forward_upd) (use i lt in \<open>auto simp: group_inv_def group_ok_def\<close>)
  from inv_forward [OF i this]
  have inv: "group_inv (s\<lparr>sg_actives := (sg_actives s)[i := a]\<rparr>)" .
  have "found_ok ((sg_actives s)[i := a]) i ev" using l lt by (simp add: found_ok_def)
  moreover have "card {j \<in> sg_waited s. ((sg_waiter s)(i := W_got ev)) j \<noteq> W_done} =
      card {j \<in> sg_waited s. sg_waiter s j \<noteq> W_done}"
    by (rule card_wait_upd) (simp add: pc)
  ultimately show ?thesis
    using inv w pc by (auto simp: group_inv_def group_ok_def founds_def forked_def main_ok_def)
qed

lemma queue_error_idle:
  "sq_idle q \<Longrightarrow> queue_error r q = Some (q\<lparr>sq_data := sq_data q @ non_nil [r]\<rparr>)"
  by (cases r) (simp_all add: queue_error_def SyncQueue_Queue_def sq_section_idle Queue_body_def)

lemma non_nil_append: "non_nil (xs @ ys) = non_nil xs @ non_nil ys"
  by (simp add: non_nil_eq)

lemma inv_queue:
  assumes i: "group_inv s" and pc: "sg_pc s = M_wait" "sg_waiter s i = W_got ev"
    and q: "queue_error (waitUntilStopped (ac_addr (sg_actives s ! i)) ev) (sg_q s) = Some q'"
  shows "group_inv (s\<lparr>sg_q := q', sg_waiter := (sg_waiter s)(i := W_queued),
    sg_order := sg_order s @ [(i, ev)]\<rparr>)"
proof -
  have idle: "sq_idle (sg_q s)" using i pc by (simp add: group_inv_def main_ok_def)
  have q': "q' = (sg_q s)\<lparr>sq_data := sq_data (sg_q s) @
      non_nil [waitUntilStopped (ac_addr (sg_actives s ! i)) ev]\<rparr>"
    using q queue_error_idle [OF idle] by simp
  have w: "i \<in> sg_waited s" and f: "found_ok (sg_actives s) i ev" and o: "i \<notin> fst ` set (sg_order s)"
    using i pc by (auto simp: group_inv_def forked_def founds_def)
  have "card {j \<in> sg_waited s. ((sg_waiter s)(i := W_queued)) j \<noteq> W_done} =
      card {j \<in> sg_waited s. sg_waiter s j \<noteq> W_done}"
    by (rule card_wait_upd) (simp add: pc)
  then have "main_ok (s\<lparr>sg_q := q', sg_waiter := (sg_waiter s)(i := W_queued),
      sg_order := sg_order s @ [(i, ev)]\<rparr>)"
    using i pc idle by (simp add: group_inv_def main_ok_def answer_def results_def q' sq_idle_def non_nil_append)
  then show ?thesis
    using i w f o pc by (auto simp: group_inv_def group_ok_def founds_def forked_def)
qed

lemma inv_done:
  assumes i: "group_inv s" and pc: "sg_pc s = M_wait" "sg_waiter s i = W_queued"
  shows "group_inv (s\<lparr>sg_waiter := (sg_waiter s)(i := W_done), sg_wg := sg_wg s - 1\<rparr>)"
proof -
  let ?A = "{j \<in> sg_waited s. sg_waiter s j \<noteq> W_done}"
  have w: "i \<in> ?A" using inv_waited [OF i] pc by simp
  have "{j \<in> sg_waited s. ((sg_waiter s)(i := W_done)) j \<noteq> W_done} = ?A - {i}" by auto
  then have "card {j \<in> sg_waited s. ((sg_waiter s)(i := W_done)) j \<noteq> W_done} = card ?A - 1"
    using w by (simp add: card_Diff_singleton)
  then show ?thesis
    using i w pc by (auto simp: group_inv_def group_ok_def founds_def forked_def main_ok_def)
qed

lemma waited_finite: "group_inv s \<Longrightarrow> finite (sg_waited s)"
  unfolding group_inv_def group_ok_def by (meson finite_nat_set_iff_bounded)

lemma inv_return:
  assumes i: "group_inv s" and pc: "sg_pc s = M_wait" "sg_wg s = 0"
    and q: "SyncQueue_DequeueAll z (sg_q s) = Some (q', r)"
  shows "group_inv (s\<lparr>sg_q := q', sg_pc := M_ret (go_bind r (\<lambda>es. Inr (errors_Join (map Some es))))\<rparr>)"
proof -
  have idle: "sq_idle (sg_q s)" using i pc by (simp add: group_inv_def main_ok_def)
  have r: "r = Inr (non_nil (answer (sg_actives s) (sg_order s)))"
    using q i pc DequeueAll_idle [OF idle] by (simp add: group_inv_def main_ok_def)
  have "\<forall>j \<in> sg_waited s. sg_waiter s j = W_done"
    using i pc waited_finite [OF i] by (auto simp: group_inv_def main_ok_def)
  then show ?thesis
    using i by (simp add: group_inv_def group_ok_def founds_def forked_def main_ok_def r errors_Join_def)
qed

lemma inv_wait: "wait_step z s s' \<Longrightarrow> group_inv s \<Longrightarrow> group_inv s'"
  by (induction rule: wait_step.induct) (auto intro: inv_over inv_queue inv_done inv_return simp del: One_nat_def)

lemma group_reach_inv: "group_reach z addr s \<Longrightarrow> group_inv s"
  by (induction rule: group_reach.induct) (auto intro: group_init inv_call inv_wait)

subsection \<open>\<open>WaitUntilStopped\<close> returns\<close>

fun wait_rank :: "wait_pc \<Rightarrow> nat" where
  "wait_rank W_none = 0" | "wait_rank W_wait = 3" | "wait_rank (W_got ev) = 2"
| "wait_rank W_queued = 1" | "wait_rank W_done = 0"

definition group_rank :: "group \<Rightarrow> nat" where
  "group_rank s = (\<Sum>i \<in> sg_waited s. wait_rank (sg_waiter s i)) + (if sg_pc s = M_wait then 1 else 0)"

lemma sum_upd_less:
  assumes "finite A" and "i \<in> A" and "wait_rank x < wait_rank (f i)"
  shows "(\<Sum>j \<in> A. wait_rank ((f(i := x)) j)) < (\<Sum>j \<in> A. wait_rank (f j))"
  by (rule sum_strict_mono_ex1) (use assms in auto)

lemma wait_step_rank: "wait_step z s s' \<Longrightarrow> group_inv s \<Longrightarrow> group_rank s' < group_rank s"
proof (induction rule: wait_step.induct)
  case (w_over s i ev a)
  then show ?case
    using sum_upd_less [OF waited_finite [OF w_over(4)] inv_waited [OF w_over(4)], of i "W_got ev" "sg_waiter s"]
    by (simp add: group_rank_def)
next
  case (w_queue s i ev q')
  then show ?case
    using sum_upd_less [OF waited_finite [OF w_queue(4)] inv_waited [OF w_queue(4)], of i W_queued "sg_waiter s"]
    by (simp add: group_rank_def)
next
  case (w_done s i)
  then show ?case
    using sum_upd_less [OF waited_finite [OF w_done(3)] inv_waited [OF w_done(3)], of i W_done "sg_waiter s"]
    by (simp add: group_rank_def)
qed (simp add: group_rank_def)

lemma group_goes_on:
  assumes i: "group_inv s" and pc: "sg_pc s = M_wait"
  shows "\<exists>s'. wait_step z s s'"
proof (cases "\<exists>i \<in> sg_waited s. sg_waiter s i \<noteq> W_done")
  case True
  then obtain i where i': "i \<in> sg_waited s" "sg_waiter s i \<noteq> W_done" by blast
  have idle: "sq_idle (sg_q s)" using i pc by (simp add: group_inv_def main_ok_def)
  have "sg_waiter s i \<noteq> W_none" using i i' by (auto simp: group_inv_def forked_def)
  then show ?thesis
    using w_over [OF pc _ e_timeout, of i] w_queue [OF pc _ queue_error_idle [OF idle], of i]
      w_done [OF pc, of i] i'(2)
    by (cases "sg_waiter s i") blast+
next
  case False
  then have "sg_wg s = 0" and "sq_idle (sg_q s)"
    using i pc by (auto simp: group_inv_def main_ok_def card_eq_0_iff)
  then show ?thesis using w_return [OF pc _ DequeueAll_idle] by blast
qed

definition waiting :: "group \<Rightarrow> bool" where
  "waiting s \<longleftrightarrow> group_inv s \<and> sg_pc s \<noteq> M_free"

definition answered :: "group \<Rightarrow> bool" where
  "answered s \<longleftrightarrow> (\<exists>err. sg_pc s = M_ret (Inr err))"

lemma wait_step_not_free: "wait_step z s s' \<Longrightarrow> sg_pc s' \<noteq> M_free"
  by (induction rule: wait_step.induct) simp_all

lemma waiting_goes_on: "waiting s \<Longrightarrow> \<not> answered s \<Longrightarrow> \<exists>s'. wait_step z s s'"
  using group_goes_on by (cases "sg_pc s") (auto simp: waiting_def answered_def group_inv_def main_ok_def)

interpretation await: bounded_run "wait_step z" waiting group_rank answered for z
  by unfold_locales (auto simp: waiting_def dest: inv_wait wait_step_not_free wait_step_rank
      intro: waiting_goes_on [unfolded waiting_def])

lemma group_rank_bound: "group_inv s \<Longrightarrow> group_rank s \<le> 3 * card (sg_waited s) + 1"
proof -
  assume "group_inv s"
  have "wait_rank p \<le> 3" for p by (cases p) simp_all
  then have "(\<Sum>i \<in> sg_waited s. wait_rank (sg_waiter s i)) \<le> (\<Sum>i \<in> sg_waited s. 3)"
    by (intro sum_mono)
  then show ?thesis by (simp add: group_rank_def mult.commute)
qed

text \<open>
  C13. \<open>WaitUntilStopped\<close> returns without a panic, whatever the services do: its goroutines take at most three
  steps for each service, and when they cannot go on the group has answered.
\<close>

theorem group_wait_ends:
  assumes "group_reach z addr s" and "sg_pc s = M_wait"
  shows "{n. \<exists>s'. (wait_step z ^^ n) s s'} \<subseteq> {..3 * card (sg_waited s) + 1} \<and>
    {s'. (wait_step z)\<^sup>*\<^sup>* s s' \<and> (\<nexists>s''. wait_step z s' s'')} \<subseteq> {s'. \<exists>err. sg_pc s' = M_ret (Inr err)}"
proof
  have i: "group_inv s" by (rule group_reach_inv [OF assms(1)])
  then have w: "waiting s" using assms(2) by (simp add: waiting_def)
  show "{n. \<exists>s'. (wait_step z ^^ n) s s'} \<subseteq> {..3 * card (sg_waited s) + 1}"
    using await.run_length [OF _ w] group_rank_bound [OF i] by fastforce
  show "{s'. (wait_step z)\<^sup>*\<^sup>* s s' \<and> (\<nexists>s''. wait_step z s' s'')} \<subseteq> {s'. \<exists>err. sg_pc s' = M_ret (Inr err)}"
    using await.ends(2) [OF w, of z] by (simp add: answered_def)
qed

subsection \<open>What it answers\<close>

text \<open>
  C12. A group that has answered was told what \<open>WaitUntilStopped\<close> computes from one outcome for every service it
  ranged over, taken in some order; every outcome is true of its service, and an answer without an error
  means that every service has returned and closed its channel.
\<close>

theorem group_wait_refines:
  assumes "group_reach z addr s" and "sg_pc s = M_ret r"
  shows "WaitUntilStopped z (results (sg_actives s) (sg_order s)) = Some r \<and>
    distinct (map fst (sg_order s)) \<and> fst ` set (sg_order s) = sg_waited s \<and>
    set (sg_order s) \<subseteq> {(i, ev). outcome (sg_actives s ! i) ev} \<and>
    (r = Inr None \<longrightarrow> sg_waited s \<subseteq> {i. ac_closed (sg_actives s ! i) \<and> ac_ret (sg_actives s ! i) \<noteq> None})"
proof (intro conjI impI)
  note inv = group_reach_inv [OF assms(1), unfolded group_inv_def]
  let ?as = "sg_actives s"
  have r: "r = Inr (errors_Join (answer ?as (sg_order s)))"
    using inv assms(2) by (simp add: main_ok_def)
  then show w: "WaitUntilStopped z (results ?as (sg_order s)) = Some r"
    by (simp add: WaitUntilStopped_def gather_Join answer_def)
  show "distinct (map fst (sg_order s))" using inv by (simp add: forked_def)
  show o: "fst ` set (sg_order s) = sg_waited s"
  proof (rule set_eqI)
    fix i
    have "i \<in> sg_waited s \<Longrightarrow> sg_waiter s i = W_done" and "sg_waiter s i \<noteq> W_none \<longleftrightarrow> i \<in> sg_waited s"
      and "i \<in> fst ` set (sg_order s) \<longleftrightarrow> sg_waiter s i = W_queued \<or> sg_waiter s i = W_done"
      using inv assms(2) by (simp_all add: forked_def main_ok_def)
    then show "i \<in> fst ` set (sg_order s) \<longleftrightarrow> i \<in> sg_waited s" by (cases "sg_waiter s i") simp_all
  qed
  show out: "set (sg_order s) \<subseteq> {(i, ev). outcome (?as ! i) ev}"
    using inv by (auto simp: founds_def found_ok_def)
  assume "r = Inr None"
  then have "\<forall>x \<in> set (sg_order s). snd x = ChannelClosed"
    by (auto simp: r errors_Join_None_iff answer_def results_def waitUntilStopped_None)
  then have "ac_closed (?as ! i) \<and> i < length ?as" if "i \<in> sg_waited s" for i
    using that out inv unfolding o [symmetric] by (fastforce simp: founds_def found_ok_def)
  moreover have "ac_ret (?as ! i) \<noteq> None" if "i < length ?as" "ac_closed (?as ! i)" for i
    using that inv by (auto simp: group_ok_def active_ok_def)
  ultimately show "sg_waited s \<subseteq> {i. ac_closed (?as ! i) \<and> ac_ret (?as ! i) \<noteq> None}" by blast
qed

subsection \<open>A service that nobody waits for\<close>

text \<open>
  \<open>Start\<close> for a starter that is in the map replaces its entry.  The goroutine of the old one is then out of
  reach of every \<open>WaitUntilStopped\<close>: once its service has failed it waits for ever for somebody to take the
  error, whatever is called afterwards.
\<close>

definition group_any :: "go_err \<Rightarrow> (nat \<Rightarrow> string) \<Rightarrow> group \<Rightarrow> group \<Rightarrow> bool" where
  "group_any z addr s s' \<longleftrightarrow> group_call addr s s' \<or> wait_step z s s'"

definition lost :: "nat \<Rightarrow> go_err \<Rightarrow> group \<Rightarrow> bool" where
  "lost i e s \<longleftrightarrow> group_inv s \<and> i < length (sg_actives s) \<and> ac_pc (sg_actives s ! i) = Sv_send e \<and>
     i \<notin> ran (sg_services s) \<and> (sg_pc s = M_wait \<longrightarrow> i \<notin> sg_waited s)"

lemma lost_call: "group_call addr s s' \<Longrightarrow> lost i e s \<Longrightarrow> lost i e s'"
proof -
  assume c: "group_call addr s s'" and l: "lost i e s"
  have "group_inv s'" using inv_call [OF c] l by (simp add: lost_def)
  with c show "lost i e s'"
  proof cases
    case (g_go j a)
    then show ?thesis using l \<open>group_inv s'\<close>
      by (cases "i = j") (auto simp: lost_def nth_list_update start_go_simps)
  qed (use l in \<open>auto simp: lost_def group_start_def nth_append ran_def split: if_splits\<close>)
qed

lemma lost_wait: "wait_step z s s' \<Longrightarrow> lost i e s \<Longrightarrow> lost i e s'"
proof -
  assume c: "wait_step z s s'" and l: "lost i e s"
  have inv: "group_inv s'" using inv_wait [OF c] l by (simp add: lost_def)
  from c show "lost i e s'"
  proof cases
    case (w_over j ev a)
    have "j \<in> sg_waited s" using inv_waited [of s j] l w_over by (simp add: lost_def)
    then have "i \<noteq> j" using l w_over by (auto simp: lost_def)
    then show ?thesis using l w_over inv by (simp add: lost_def)
  qed (use l inv in \<open>auto simp: lost_def\<close>)
qed

theorem group_replaced_stuck:
  assumes "group_reach z addr s" and "sg_pc s \<noteq> M_wait" and "i < length (sg_actives s)"
    and "i \<notin> ran (sg_services s)" and "ac_pc (sg_actives s ! i) = Sv_send e"
  shows "{s'. (group_any z addr)\<^sup>*\<^sup>* s s'} \<subseteq> {s'. ac_pc (sg_actives s' ! i) = Sv_send e \<and> \<not> ac_closed (sg_actives s' ! i)}"
proof
  fix s' assume "s' \<in> {s'. (group_any z addr)\<^sup>*\<^sup>* s s'}"
  then have "(group_any z addr)\<^sup>*\<^sup>* s s'" by simp
  moreover have "lost i e s" using assms group_reach_inv [OF assms(1)] by (simp add: lost_def)
  ultimately have "lost i e s'"
    by (induction rule: rtranclp_induct) (auto simp: group_any_def dest: lost_call lost_wait)
  then have "ac_pc (sg_actives s' ! i) = Sv_send e" and "active_ok (sg_actives s' ! i)"
    by (simp_all add: lost_def group_inv_def group_ok_def)
  then show "s' \<in> {s'. ac_pc (sg_actives s' ! i) = Sv_send e \<and> \<not> ac_closed (sg_actives s' ! i)}"
    by (simp add: active_ok_def)
qed

subsection \<open>Runs\<close>

text \<open>A starter that is started twice; the first service fails, the second is waited for and times out.\<close>

definition demo_addr :: "nat \<Rightarrow> string" where
  "demo_addr st = ''localhost:1''"

definition demo_active :: "start_pc \<Rightarrow> go_err option option \<Rightarrow> active" where
  "demo_active p r = \<lparr>ac_addr = ''localhost:1'', ac_pc = p, ac_stopped = False, ac_closed = False, ac_ret = r\<rparr>"

definition group_failed :: group where
  "group_failed = NewServiceGroup\<lparr>sg_actives :=
      [demo_active (Sv_send (Err ''down'')) (Some (Some (Err ''down''))), demo_active Sv_serving None],
     sg_services := [0 \<mapsto> 1]\<rparr>"

lemma group_failed_reach: "group_reach z demo_addr group_failed"
proof -
  have 1: "group_reach z demo_addr (group_start demo_addr 0 NewServiceGroup)"
    by (rule gr_call [OF gr_init g_start]) (simp add: NewServiceGroup_def)
  have 2: "group_reach z demo_addr (group_start demo_addr 0 (group_start demo_addr 0 NewServiceGroup))"
    by (rule gr_call [OF 1 g_start]) (simp add: NewServiceGroup_def group_start_def)
  show ?thesis
    using gr_call [OF 2 g_go [where i = 0, OF _ a_err [where e = "Err ''down''"]]]
    by (simp add: NewServiceGroup_def group_start_def group_failed_def demo_active_def demo_addr_def)
qed

theorem group_replaced_stuck_witness:
  "{s'. (group_any (Err []) demo_addr)\<^sup>*\<^sup>* group_failed s'} \<subseteq>
     {s'. ac_pc (sg_actives s' ! 0) = Sv_send (Err ''down'')}"
proof -
  have "{s'. (group_any (Err []) demo_addr)\<^sup>*\<^sup>* group_failed s'} \<subseteq>
     {s'. ac_pc (sg_actives s' ! 0) = Sv_send (Err ''down'') \<and> \<not> ac_closed (sg_actives s' ! 0)}"
    by (rule group_replaced_stuck [OF group_failed_reach])
       (simp_all add: group_failed_def NewServiceGroup_def demo_active_def)
  then show ?thesis by blast
qed

definition group_called :: group where
  "group_called = group_failed\<lparr>sg_pc := M_wait, sg_wg := 1,
     sg_waiter := (\<lambda>i. if i = 1 then W_wait else W_none), sg_waited := {1}\<rparr>"

lemma group_called_reach: "group_reach z demo_addr group_called"
  using gr_call [OF group_failed_reach g_wait]
  by (simp add: group_failed_def group_called_def NewServiceGroup_def)

theorem group_wait_ends_witness:
  "{n. \<exists>s'. (wait_step (Err []) ^^ n) group_called s'} \<subseteq> {..4}"
  using group_wait_ends [OF group_called_reach, of "Err []"] by (simp add: group_called_def)

text \<open>The wait ends with the timeout of the second service; the error of the first one is not in the answer.\<close>

definition timeout_error :: go_err where
  "timeout_error = ErrService ''localhost:1'' ErrTimeout"

definition group_timeout :: group where
  "group_timeout = group_called\<lparr>sg_pc := M_ret (Inr (Some (ErrJoin [timeout_error]))), sg_wg := 0,
     sg_waiter := (\<lambda>i. if i = 1 then W_done else W_none), sg_order := [(1, CtxEnded)]\<rparr>"

lemma group_timeout_reach: "group_reach z demo_addr group_timeout"
proof -
  note D = group_called_def group_failed_def NewServiceGroup_def demo_active_def fun_eq_iff
  let ?s = "\<lambda>p es ord. group_called\<lparr>sg_waiter := (\<lambda>i. if i = 1 then p else W_none),
      sg_q := NewSyncQueue\<lparr>sq_data := es\<rparr>, sg_order := ord\<rparr>"
  have n: "(\<lambda>i. if i = Suc 0 then p else W_none)(Suc 0 := p') = (\<lambda>i. if i = Suc 0 then p' else W_none)" for p p'
    by auto
  have 1: "group_reach z demo_addr (?s (W_got CtxEnded) [] [])"
    using gr_wait [OF group_called_reach w_over [OF _ _ e_timeout, of _ 1]] by (simp add: D n NewSyncQueue_def)
  have "queue_error (waitUntilStopped (ac_addr (sg_actives (?s (W_got CtxEnded) [] []) ! 1)) CtxEnded)
      (sg_q (?s (W_got CtxEnded) [] [])) = Some (NewSyncQueue\<lparr>sq_data := [timeout_error]\<rparr>)"
    by (subst queue_error_idle)
       (simp_all add: D sq_idle_def NewSyncQueue_def waitUntilStopped_def WaitFor_def timeout_error_def)
  from gr_wait [OF 1 w_queue [OF _ _ this]]
  have 2: "group_reach z demo_addr (?s W_queued [timeout_error] [(1, CtxEnded)])"
    by (simp add: D n)
  from gr_wait [OF 2 w_done [of _ 1]]
  have 3: "group_reach z demo_addr (?s W_done [timeout_error] [(1, CtxEnded)]\<lparr>sg_wg := 0\<rparr>)"
    by (simp add: D n)
  have "sq_idle (sg_q (?s W_done [timeout_error] [(1, CtxEnded)]\<lparr>sg_wg := 0\<rparr>))"
    by (simp add: sq_idle_def NewSyncQueue_def)
  from gr_wait [OF 3 w_return [OF _ _ DequeueAll_idle [OF this]]]
  show ?thesis by (simp add: group_timeout_def D NewSyncQueue_def errors_Join_def)
qed

theorem group_wait_refines_witness:
  "WaitUntilStopped (Err []) [(''localhost:1'', CtxEnded)] = Some (Inr (Some (ErrJoin [timeout_error])))"
proof -
  have "sg_pc group_timeout = M_ret (Inr (Some (ErrJoin [timeout_error])))" by (simp add: group_timeout_def)
  from group_wait_refines [OF group_timeout_reach this, of "Err []"]
  show ?thesis
    by (simp add: group_timeout_def group_called_def group_failed_def results_def demo_active_def)
qed

end
