(* ===== verification/Test_Http.thy ===== *)
theory Test_Http
  imports Http_Service Test_Support
begin

text \<open>
  \<^verbatim>\<open>pkg/service/http/httptest/service.go\<close>: the HTTP service and the sidecar the tests of a handler run
  against.  \<open>listen\<close> is what \<^verbatim>\<open>net.Listen\<close> on the local host answers: the address it got.
\<close>

record PathHandler =
  Scheme :: string
  Path :: string

record 's test_service =
  URL :: string
  ts_Service :: 's

definition localhost :: string where "localhost = ''127.0.0.1:0''"

definition ht_start :: "(string \<Rightarrow> go_err + string) \<Rightarrow> string \<Rightarrow> 's \<Rightarrow> go_err + string \<times> 's" where
  "ht_start listen addr svc =
     (case listen addr of Inl err \<Rightarrow> Inl err | Inr a \<Rightarrow> Inr (a, svc))"

text \<open>Every handler is a route of its own.\<close>

definition test_routes :: "PathHandler list \<Rightarrow> initRoutesFn" where
  "test_routes handlers c r = (None, fold (\<lambda>h r. r @ [HandleOther (Path h)]) handlers r)"

definition ht_NewService ::
    "('o, 'l) http_env \<Rightarrow> (string \<Rightarrow> go_err + string) \<Rightarrow> ctx \<Rightarrow> PathHandler list \<Rightarrow> HealthCheckFn option \<Rightarrow>
     StackLevel \<Rightarrow> 'o world \<Rightarrow> (go_err + ('o, 'l) http_service test_service) go \<times> 'o world" where
  "ht_NewService H listen c handlers hfn stackLevel w =
     (case http_New H
             [HWithContext c, HWithAddr localhost, HWithName ''listener-test'',
              ServiceCommon (WithStackLevelOnError stackLevel), ServiceCommon (WithHealthCheckFn hfn),
              ServiceCommon (WithInitRoutesFn (test_routes handlers))] w of
        (Inl p, w1) \<Rightarrow> (Inl p, w1)
      | (Inr (Inl err), w1) \<Rightarrow> (Inr (Inl err), w1)
      | (Inr (Inr svc), w1) \<Rightarrow>
          (case ht_start listen localhost svc of
             Inl err \<Rightarrow> (Inr (Inl err), w1)
           | Inr (addr, s) \<Rightarrow> (Inr (Inr \<lparr>URL = ''http://'' @ addr, ts_Service = s\<rparr>), w1)))"

definition ht_NewSidecar ::
    "('o, 'l) http_env \<Rightarrow> (string \<Rightarrow> go_err + string) \<Rightarrow> ctx \<Rightarrow> HealthCheckFn option \<Rightarrow>
     'o world \<Rightarrow> (go_err + ('o, 'l) http_core test_service) go \<times> 'o world" where
  "ht_NewSidecar H listen c hfn w =
     (case Base_New (he_base H)
             [WithName ''sidecar-test'', WithContext c, WithKind ''headless'', WithAddr localhost] w of
        (Inl err, w1) \<Rightarrow> (Inr (Inl err), w1)
      | (Inr b, w1) \<Rightarrow>
          (case NewSidecar H
                  [SidecarCommon (WithHealthCheckFn hfn), WithPrimaryService b,
                   WithServiceStatusFn (Base_Status b)] w1 of
             Inl p \<Rightarrow> (Inl p, w1)
           | Inr (Inl err) \<Rightarrow> (Inr (Inl err), w1)
           | Inr (Inr svc) \<Rightarrow>
               (case ht_start listen localhost svc of
                  Inl err \<Rightarrow> (Inr (Inl err), w1)
                | Inr (addr, s) \<Rightarrow> (Inr (Inr \<lparr>URL = ''http://'' @ addr, ts_Service = s\<rparr>), w1))))"

text \<open>
  The client methods.  \<open>NewRequest\<close> and \<open>Do\<close> are \<^verbatim>\<open>net/http\<close>'s: a request is made from the method, the address
  and the body, or refused; the default client sends it.
\<close>

definition ht_Verb ::
    "(string \<Rightarrow> string \<Rightarrow> 'b option \<Rightarrow> go_err + 'req) \<Rightarrow> ('req \<Rightarrow> go_err + 'resp) \<Rightarrow>
     string \<Rightarrow> string \<Rightarrow> 'b option \<Rightarrow> go_err + 'resp" where
  "ht_Verb NewRequest Do url verb body =
     (case NewRequest verb url body of Inl err \<Rightarrow> Inl err | Inr req \<Rightarrow> Do req)"

definition ht_Get ::
    "(string \<Rightarrow> string \<Rightarrow> 'b option \<Rightarrow> go_err + 'req) \<Rightarrow> ('req \<Rightarrow> go_err + 'resp) \<Rightarrow> string \<Rightarrow> go_err + 'resp" where
  "ht_Get NewRequest Do url = ht_Verb NewRequest Do url ''GET'' None"

definition ht_Post ::
    "(string \<Rightarrow> string \<Rightarrow> 'b option \<Rightarrow> go_err + 'req) \<Rightarrow> ('req \<Rightarrow> go_err + 'resp) \<Rightarrow> string \<Rightarrow> go_err + 'resp" where
  "ht_Post NewRequest Do url = ht_Verb NewRequest Do url ''POST'' None"

text \<open>The timeouts become arguments of the process, which only a later \<^verbatim>\<open>env.Load\<close> reads.\<close>

definition SetHTTPServerTimeouts :: "string \<Rightarrow> string list \<Rightarrow> string list" where
  "SetHTTPServerTimeouts t =
     SetargsV ''http.timeout.handler'' t \<circ> SetargsV ''http.timeout.idle'' t \<circ>
     SetargsV ''http.timeout.read'' t \<circ> SetargsV ''http.timeout.write'' t"

lemma test_routes_eq: "test_routes hs c r = (None, r @ map (HandleOther \<circ> Path) hs)"
proof -
  have "fold (\<lambda>h r. r @ [HandleOther (Path h)]) hs r = r @ map (HandleOther \<circ> Path) hs" for r
    by (induction hs arbitrary: r) simp_all
  then show ?thesis by (simp add: test_routes_def)
qed

text \<open>
  What a test talks to: behind the recovery middleware it asked for, the health route when it gave a
  check, and its own routes last; the service reports its status from the base it was made with.
\<close>

lemma ht_NewService_routes:
  assumes "ht_NewService H listen c handlers hfn lvl w = (Inr (Inr t), w')"
  shows "take 2 (hs_router (hc_server (ts_Service t))) = [UseRecover lvl, UseLogging]"
    and "HandleHealth \<in> set (hs_router (hc_server (ts_Service t))) \<longleftrightarrow> hfn \<noteq> None"
    and "hc_serviceStatusFn (ts_Service t) = Some (Base_Status (hc_base (ts_Service t)))"
    and "\<exists>r. hs_router (hc_server (ts_Service t)) = r @ map (HandleOther \<circ> Path) handlers"
  using assms
  by (auto simp: ht_NewService_def ht_start_def http_New_def default_common_def test_routes_eq Let_def
      initializeRouter_def newHTTPServer_def split: prod.splits sum.splits if_splits)

lemma SetHTTPServerTimeouts_parse:
  assumes "k \<in> {''http.timeout.write'', ''http.timeout.read'', ''http.timeout.idle'', ''http.timeout.handler''}"
  shows "parse_args (SetHTTPServerTimeouts t os_Args) k = Some t"
  using assms by (auto simp: SetHTTPServerTimeouts_def SetargsV_parse)

end
