(* ===== verification/Echo.thy ===== *)
theory Echo
  imports Grpc_Run Test_Support
begin

text \<open>
  \<^verbatim>\<open>pkg/service/grpc/testing/echo/echo.go\<close>: the gRPC service the tests run, over an in-memory listener (a
  number of the heap of \<open>Conn\<close>), and the clients that dial it.  \<open>desc\<close> is the generated description of the
  service; \<open>DialContext\<close> answers an error or not for the way to reach the server.
\<close>

subsection \<open>The handlers\<close>

record EchoMessage =
  em_Code :: int
  em_Message :: string

definition Server_Echo :: "EchoMessage \<Rightarrow> EchoMessage" where
  "Server_Echo req = \<lparr>em_Code = em_Code req, em_Message = em_Message req\<rparr>"

definition Server_NoEcho :: "EchoMessage \<Rightarrow> unit" where
  "Server_NoEcho req = ()"

subsection \<open>The service\<close>

record ('o, 'l, 'h, 'd) echo_service =
  es_listener :: nat
  es_service :: "('o, 'l, 'h, 'd) grpc_service"

definition echo_options ::
    "'d \<Rightarrow> ctx \<Rightarrow> 'h \<Rightarrow> CheckFn option \<Rightarrow> ('l, 'h, 'd) grpc_option list" where
  "echo_options desc c server h =
     [GWithName ''echo'', GWithAddr ''0.0.0.0'', GWithHealthCheckFn h, GWithContext c,
      GWithServiceDesc (Some desc), GWithNewServiceFn (Some (\<lambda>_. Inr server))]"

text \<open>The listener is made first; an error of \<open>New\<close> is a panic.\<close>

definition NewWithServer ::
    "('o, 'l) http_env \<Rightarrow> ('h \<Rightarrow> bool) \<Rightarrow> 'd \<Rightarrow> ctx \<Rightarrow> 'h \<Rightarrow> CheckFn option \<Rightarrow> bufs \<Rightarrow> 'o world \<Rightarrow>
     (go_err + ('o, 'l, 'h, 'd) echo_service) go \<times> bufs \<times> 'o world" where
  "NewWithServer H is_closeable desc c server h hp w =
     (let l = b_next hp; hp1 = hp\<lparr>b_next := Suc l\<rparr> in
      case grpc_New H is_closeable (echo_options desc c server h) w of
        (Inl p, w1) \<Rightarrow> (Inl p, hp1, w1)
      | (Inr (Inl err), w1) \<Rightarrow> (Inl (PanicMsg (''error starting ctl service: '' @ err_text err)), hp1, w1)
      | (Inr (Inr svc), w1) \<Rightarrow> (Inr (Inr \<lparr>es_listener = l, es_service = svc\<rparr>), hp1, w1))"

definition echo_New ::
    "('o, 'l) http_env \<Rightarrow> ('h \<Rightarrow> bool) \<Rightarrow> 'd \<Rightarrow> 'h \<Rightarrow> ctx \<Rightarrow> bufs \<Rightarrow> 'o world \<Rightarrow>
     (go_err + ('o, 'l, 'h, 'd) echo_service) go \<times> bufs \<times> 'o world" where
  "echo_New H is_closeable desc newServer c hp w = NewWithServer H is_closeable desc c newServer None hp w"

definition echo_Name :: "('o, 'l, 'h, 'd) echo_service \<Rightarrow> 'o world \<Rightarrow> string" where
  "echo_Name s = grpc_Name (es_service s)"

definition echo_Addr :: "('o, 'l, 'h, 'd) echo_service \<Rightarrow> 'o world \<Rightarrow> string" where
  "echo_Addr s = grpc_Addr (es_service s)"

text \<open>\<open>Serve\<close> goes straight to \<open>DoServe\<close>, on the listener of the service.\<close>

definition echo_Serve :: "('o, 'l, 'h, 'd) echo_service \<Rightarrow> 'o world \<Rightarrow> nat \<times> 'o grpc_run" where
  "echo_Serve s w = (es_listener s, grpc_init w (gs_sidecar (es_service s) \<noteq> None))"

definition echo_Dispose ::
    "('h \<Rightarrow> go_err option) \<Rightarrow> ('o, 'l, 'h, 'd) echo_service \<Rightarrow> 'h list \<times> go_err list" where
  "echo_Dispose Close s = grpc_Dispose Close (es_service s)"

subsection \<open>The clients\<close>

text \<open>The target is empty; the dialer given with the call uses the listener, whatever the address.\<close>

definition echo_conn :: "(via \<Rightarrow> go_err option) \<Rightarrow> ('o, 'l, 'h, 'd) echo_service \<Rightarrow> go_err + ClientConn" where
  "echo_conn DialContext s =
     (let v = ViaBuf (es_listener s) 0 in
      case DialContext v of Some err \<Rightarrow> Inl err | None \<Rightarrow> Inr \<lparr>cc_target = [], cc_via = v\<rparr>)"

record EchoClient =
  ecl_conn :: ClientConn
  ecl_timeout :: "int option"

definition ClientWithTimeout ::
    "(via \<Rightarrow> go_err option) \<Rightarrow> ('o, 'l, 'h, 'd) echo_service \<Rightarrow> int option \<Rightarrow> go_err + EchoClient" where
  "ClientWithTimeout DialContext s timeoutd =
     (case echo_conn DialContext s of
        Inl err \<Rightarrow> Inl err
      | Inr conn \<Rightarrow> Inr \<lparr>ecl_conn = conn, ecl_timeout = timeoutd\<rparr>)"

definition echo_Client :: "(via \<Rightarrow> go_err option) \<Rightarrow> ('o, 'l, 'h, 'd) echo_service \<Rightarrow> go_err + EchoClient" where
  "echo_Client DialContext s = ClientWithTimeout DialContext s None"

definition echo_NewHealthCheckClient ::
    "(via \<Rightarrow> go_err option) \<Rightarrow> string \<Rightarrow> ('o, 'l, 'h, 'd) echo_service \<Rightarrow> go_err + grpc_health_client" where
  "echo_NewHealthCheckClient DialContext nm s =
     (case echo_conn DialContext s of
        Inl err \<Rightarrow> Inl err
      | Inr conn \<Rightarrow> Inr (NewHelthCheckClientWithConn conn nm))"

definition echo_InfoClient ::
    "(via \<Rightarrow> go_err option) \<Rightarrow> ('o, 'l, 'h, 'd) echo_service \<Rightarrow> go_err + InfoClient" where
  "echo_InfoClient DialContext s =
     (case echo_conn DialContext s of
        Inl err \<Rightarrow> Inl err
      | Inr conn \<Rightarrow> Inr (NewInfoClientWithConn conn))"

subsection \<open>What they are\<close>

text \<open>
  Making the service never answers an error: it works or panics.  The one it makes is called "echo",
  serves its handler, the reflection service and (when the environment asks for it) its metadata, and the
  health service under its name exactly when a check was given.
\<close>

lemma Base_New_name_addr:
  assumes "Base_New E [WithName n, WithAddr a, WithContext c, WithKind k] w = (Inr b, w')"
  shows "Base_Name b w' = n \<and> Addr (w_bases w' b) = a \<and> status (w_bases w' b) = StatusStarting"
  using assms
  by (auto simp: Base_New_def WithCancel_def Let_def upd_base_def Base_Name_def split: sum.splits)

lemma echo_grpc:
  assumes "grpc_New H is_closeable (echo_options desc c server h) w = (Inr (Inr g), w')"
  shows "grpc_Name g w' = ''echo'' \<and> grpc_Addr g w' = ''0.0.0.0'' \<and> gs_sidecar g = None \<and>
    RegisterService desc server \<in> set (gs_server g) \<and>
    (\<forall>n st. RegisterHealth n st \<in> set (gs_server g) \<longleftrightarrow> h \<noteq> None \<and> n = ''echo'' \<and> st = NOT_SERVING)"
proof -
  obtain b where b: "Base_New (he_base H) [WithName ''echo'', WithAddr ''0.0.0.0'', WithContext c,
      WithKind ''grpc''] w = (Inr b, w')" and gb: "gs_base g = b" and sc: "gs_sidecar g = None"
    and sv: "gs_server g = [RegisterService desc server, RegisterReflection] @
      (if env_Bool ''metadata.enabled'' [False] (he_env H) then [RegisterMetadata (Metadata b w')] else []) @
      (if h \<noteq> None then [RegisterHealth (Base_Name b w') NOT_SERVING] else [])"
    using assms by (auto simp: grpc_New_def echo_options_def Let_def split: prod.splits sum.splits)
  show ?thesis using Base_New_name_addr [OF b] gb sc sv by (auto simp: grpc_Name_def grpc_Addr_def)
qed

theorem NewWithServer_service:
  assumes "NewWithServer H is_closeable desc c server h hp w = (r, hp', w')"
  shows "(\<nexists>err. r = Inr (Inl err)) \<and> b_next hp' = Suc (b_next hp) \<and>
    (\<forall>s. r = Inr (Inr s) \<longrightarrow>
       es_listener s = b_next hp \<and> echo_Name s w' = ''echo'' \<and> echo_Addr s w' = ''0.0.0.0'' \<and>
       gs_sidecar (es_service s) = None \<and>
       RegisterService desc server \<in> set (gs_server (es_service s)) \<and>
       (\<forall>n st. RegisterHealth n st \<in> set (gs_server (es_service s)) \<longleftrightarrow>
          h \<noteq> None \<and> n = ''echo'' \<and> st = NOT_SERVING))"
proof -
  let ?g = "grpc_New H is_closeable (echo_options desc c server h) w"
  obtain rg w1 where g: "?g = (rg, w1)" by fastforce
  consider p where "rg = Inl p" | err where "rg = Inr (Inl err)" | svc where "rg = Inr (Inr svc)"
    by (metis sum.exhaust)
  then show ?thesis
  proof cases
    case (3 svc)
    have e: "r = Inr (Inr \<lparr>es_listener = b_next hp, es_service = svc\<rparr>)" "w' = w1" "b_next hp' = Suc (b_next hp)"
      using assms by (auto simp: NewWithServer_def Let_def g 3)
    show ?thesis using echo_grpc [OF g [unfolded 3]] by (simp add: e echo_Name_def echo_Addr_def)
  qed (use assms in \<open>auto simp: NewWithServer_def Let_def g\<close>)
qed

text \<open>
  Every client of the service is connected to its own listener, the one \<open>Serve\<close> serves on, and what a
  client sends to \<open>Echo\<close> comes back.
\<close>

lemma echo_clients:
  assumes "DialContext (ViaBuf (es_listener s) 0) = None"
  shows "\<exists>cl. ClientWithTimeout DialContext s t = Inr cl \<and> ecl_timeout cl = t \<and>
      cc_via (ecl_conn cl) = ViaBuf (fst (echo_Serve s w)) 0"
    and "\<exists>cl. echo_NewHealthCheckClient DialContext nm s = Inr cl \<and> ghc_name cl = nm \<and>
      cc_via (ghc_conn cl) = ViaBuf (fst (echo_Serve s w)) 0"
    and "\<exists>cl. echo_InfoClient DialContext s = Inr cl \<and> cc_via (ic_conn cl) = ViaBuf (fst (echo_Serve s w)) 0"
    and "Server_Echo m = m"
  using assms
  by (simp_all add: ClientWithTimeout_def echo_conn_def echo_Serve_def Server_Echo_def
      echo_NewHealthCheckClient_def NewHelthCheckClientWithConn_def echo_InfoClient_def NewInfoClientWithConn_def)

definition echo_demo :: "(go_err + (nat, nat, nat, nat) echo_service) go \<times> bufs \<times> nat world" where
  "echo_demo = NewWithServer grpc_demo_env (\<lambda>h. False) 0 [0] 7 None \<lparr>b_next = 3, b_closed = []\<rparr> grpc_world"

theorem NewWithServer_service_witness:
  "case fst echo_demo of Inr (Inr s) \<Rightarrow> es_listener s = 3 \<and> echo_Name s (snd (snd echo_demo)) = ''echo'' | _ \<Rightarrow> False"
proof -
  obtain s where s: "fst echo_demo = Inr (Inr s)"
    by (simp add: echo_demo_def NewWithServer_def echo_options_def grpc_New_def grpc_demo_env_def Base_New_def
        WithCancel_def grpc_world_def Let_def)
  have "NewWithServer grpc_demo_env (\<lambda>h. False) 0 [0] 7 None \<lparr>b_next = 3, b_closed = []\<rparr> grpc_world =
      (Inr (Inr s), fst (snd echo_demo), snd (snd echo_demo))"
    unfolding echo_demo_def [symmetric] s [symmetric] by simp
  from NewWithServer_service [OF this] show ?thesis by (simp add: s)
qed

end
