(* ===== verification/Utils.thy ===== *)
theory Utils
  imports Bytes Go_Strings
begin

text \<open>
  The small packages: \<^verbatim>\<open>ref\<close>, \<^verbatim>\<open>option\<close>, \<^verbatim>\<open>syncutil/ticker.go\<close>, \<^verbatim>\<open>yamlutil\<close> and \<^verbatim>\<open>templatehelper\<close>.
\<close>

subsection \<open>\<^verbatim>\<open>ref.go\<close>\<close>

text \<open>
  A store of cells; a pointer is a cell's number, a slice the list of its elements' cells.  \<open>Of\<close> moves a
  copy to a new cell; \<open>Ofs\<close> gives pointers to the elements themselves.
\<close>

record 'a cells =
  ce_val :: "nat \<Rightarrow> 'a"
  ce_next :: nat

definition ref_Of :: "'a \<Rightarrow> 'a cells \<Rightarrow> nat \<times> 'a cells" where
  "ref_Of a h = (ce_next h, h\<lparr>ce_val := (ce_val h)(ce_next h := a), ce_next := Suc (ce_next h)\<rparr>)"

fun Ofs_loop :: "nat \<Rightarrow> nat list \<Rightarrow> nat option list \<Rightarrow> nat option list" where
  "Ofs_loop i [] r = r"
| "Ofs_loop i (a # ss) r = Ofs_loop (Suc i) ss (r[i := Some a])"

definition ref_Ofs :: "nat list \<Rightarrow> nat option list" where
  "ref_Ofs ss = Ofs_loop 0 ss (replicate (length ss) None)"

lemma Ofs_loop_eq:
  "length r = i + length ss \<Longrightarrow> Ofs_loop i ss r = take i r @ map Some ss"
proof (induction ss arbitrary: i r)
  case (Cons a ss)
  then show ?case by (simp add: take_Suc_conv_app_nth)
qed simp

text \<open>The pointers alias the slice: what is stored through them is what the slice has.\<close>

lemma ref_Ofs_aliases: "ref_Ofs ss = map Some ss"
  by (simp add: ref_Ofs_def Ofs_loop_eq)

lemma ref_Of_fresh:
  assumes "ref_Of a h = (p, h')"
  shows "ce_val h' p = a" and "q < ce_next h \<Longrightarrow> ce_val h' q = ce_val h q"
  using assms by (auto simp: ref_Of_def)

subsection \<open>\<^verbatim>\<open>funcoption.go\<close>\<close>

record 's FuncOption =
  fo_f :: "'s \<Rightarrow> 's"

definition NewFuncOption :: "('s \<Rightarrow> 's) \<Rightarrow> 's FuncOption" where
  "NewFuncOption f = \<lparr>fo_f = f\<rparr>"

definition FuncOption_Apply :: "'s FuncOption \<Rightarrow> 's \<Rightarrow> 's" where
  "FuncOption_Apply o' s = fo_f o' s"

subsection \<open>\<^verbatim>\<open>ticker.go\<close>\<close>

text \<open>A channel: its capacity, what is in it, whether it is closed.  A send that has to wait is \<open>None\<close>.\<close>

record 't chan =
  ch_cap :: nat
  ch_buf :: "'t list"
  ch_closed :: bool

definition chan_send :: "'t \<Rightarrow> 't chan \<Rightarrow> 't chan go option" where
  "chan_send t c =
     (if ch_closed c then Some (Inl SendOnClosed)
      else if length (ch_buf c) < ch_cap c then Some (Inr (c\<lparr>ch_buf := ch_buf c @ [t]\<rparr>))
      else None)"

definition chan_close :: "'t chan \<Rightarrow> 't chan go" where
  "chan_close c = (if ch_closed c then Inl CloseOfClosed else Inr (c\<lparr>ch_closed := True\<rparr>))"

definition ChannelTicker_Chan :: "'t chan \<Rightarrow> 't chan" where
  "ChannelTicker_Chan c = c"

definition ChannelTicker_Stop :: "'t chan \<Rightarrow> 't chan go" where
  "ChannelTicker_Stop c = chan_close c"

definition ChannelTicker_Tick :: "'t \<Rightarrow> 't chan \<Rightarrow> 't chan go option" where
  "ChannelTicker_Tick now c = chan_send now c"

text \<open>The ticker of the runtime: its channel, and whether it was stopped (which does not close the channel).\<close>

record 't TimeTicker =
  tt_C :: "'t chan"
  tt_stopped :: bool

definition TimeTicker_Chan :: "'t TimeTicker \<Rightarrow> 't chan" where
  "TimeTicker_Chan t = tt_C t"

definition TimeTicker_Stop :: "'t TimeTicker \<Rightarrow> 't TimeTicker" where
  "TimeTicker_Stop t = t\<lparr>tt_stopped := True\<rparr>"

definition TimeTicker_Tick :: "'t TimeTicker \<Rightarrow> 't TimeTicker" where
  "TimeTicker_Tick t = t"

text \<open>A stopped ticker cannot be stopped or ticked again.\<close>

lemma ChannelTicker_stopped:
  assumes "ChannelTicker_Stop c = Inr c'"
  shows "ChannelTicker_Stop c' = Inl CloseOfClosed" and "ChannelTicker_Tick now c' = Some (Inl SendOnClosed)"
  using assms by (auto simp: ChannelTicker_Stop_def ChannelTicker_Tick_def chan_close_def chan_send_def split: if_splits)

subsection \<open>\<^verbatim>\<open>yamlutil.go\<close>\<close>

text \<open>\<open>open_file\<close> and the decoder of the YAML package are parameters; the decoder also gives what it left in \<open>t\<close>.\<close>

definition DecodeFile ::
    "(string \<Rightarrow> go_err + 'f) \<Rightarrow> ('f \<Rightarrow> 't \<Rightarrow> go_err option \<times> 't) \<Rightarrow> string \<Rightarrow> 't \<Rightarrow> go_err option \<times> 't" where
  "DecodeFile open_file decode nm t =
     (case open_file (filepath_Clean nm) of
        Inl err \<Rightarrow> (Some err, t)
      | Inr f \<Rightarrow> (case decode f t of (Some err, t') \<Rightarrow> (Some err, t') | (None, t') \<Rightarrow> (None, t')))"

definition yaml_Marshal :: "('t \<Rightarrow> go_err + string) \<Rightarrow> 't \<Rightarrow> go_err + string" where
  "yaml_Marshal marshal t = (case marshal t of Inl err \<Rightarrow> Inl err | Inr s \<Rightarrow> Inr s)"

subsection \<open>\<^verbatim>\<open>templatehelper.go\<close>\<close>

text \<open>\<open>Render\<close>: a template that cannot be parsed is a panic, one that cannot be executed an error.\<close>

definition Render ::
    "(string \<Rightarrow> go_err + 'p) \<Rightarrow> ('p \<Rightarrow> 'd \<Rightarrow> go_err option \<times> string) \<Rightarrow> string \<Rightarrow> 'd \<Rightarrow>
     (go_err option \<times> string) go" where
  "Render parse execute templ data =
     (case parse templ of
        Inl err \<Rightarrow> Inl (PanicMsg ''template: Must'')
      | Inr t \<Rightarrow> (case execute t data of (Some err, w) \<Rightarrow> Inr (Some err, w) | (None, w) \<Rightarrow> Inr (None, w)))"

text \<open>
  \<^verbatim>\<open>utf8.DecodeRuneInString\<close> on a text that is not empty: the code point and its width; an encoding that is not
  valid (cut short, too long, a surrogate, out of range) is \<^verbatim>\<open>RuneError\<close> of width one.
\<close>

definition RuneError :: nat where "RuneError = 0xFFFD"

definition is_cont :: "nat \<Rightarrow> bool" where "is_cont b \<longleftrightarrow> 0x80 \<le> b \<and> b \<le> 0xBF"

fun decode_rune :: "nat list \<Rightarrow> nat \<times> nat" where
  "decode_rune [] = (RuneError, 0)"
| "decode_rune (a # bs) =
     (if a < 0x80 then (a, 1)
      else if 0xC2 \<le> a \<and> a \<le> 0xDF then
        (case bs of
           b # _ \<Rightarrow> if is_cont b then ((a - 0xC0) * 64 + (b - 0x80), 2) else (RuneError, 1)
         | _ \<Rightarrow> (RuneError, 1))
      else if 0xE0 \<le> a \<and> a \<le> 0xEF then
        (case bs of
           b # c # _ \<Rightarrow>
             (let r = (a - 0xE0) * 4096 + (b - 0x80) * 64 + (c - 0x80) in
              if is_cont b \<and> is_cont c \<and> 0x800 \<le> r \<and> \<not> (0xD800 \<le> r \<and> r \<le> 0xDFFF)
              then (r, 3) else (RuneError, 1))
         | _ \<Rightarrow> (RuneError, 1))
      else if 0xF0 \<le> a \<and> a \<le> 0xF4 then
        (case bs of
           b # c # d # _ \<Rightarrow>
             (let r = (a - 0xF0) * 262144 + (b - 0x80) * 4096 + (c - 0x80) * 64 + (d - 0x80) in
              if is_cont b \<and> is_cont c \<and> is_cont d \<and> 0x10000 \<le> r \<and> r \<le> 0x10FFFF
              then (r, 4) else (RuneError, 1))
         | _ \<Rightarrow> (RuneError, 1))
      else (RuneError, 1))"

text \<open>\<^verbatim>\<open>string(r)\<close>: the encoding of the code point, of \<^verbatim>\<open>RuneError\<close> when it has none.\<close>

definition encode_rune :: "nat \<Rightarrow> nat list" where
  "encode_rune r0 =
     (let r = (if r0 > 0x10FFFF \<or> 0xD800 \<le> r0 \<and> r0 \<le> 0xDFFF then RuneError else r0) in
      if r < 0x80 then [r]
      else if r < 0x800 then [0xC0 + r div 64, 0x80 + r mod 64]
      else if r < 0x10000 then [0xE0 + r div 4096, 0x80 + r div 64 mod 64, 0x80 + r mod 64]
      else [0xF0 + r div 262144, 0x80 + r div 4096 mod 64, 0x80 + r div 64 mod 64, 0x80 + r mod 64])"

text \<open>\<open>ToTitle\<close> of the unicode package is a parameter.\<close>

definition capitalize :: "(nat \<Rightarrow> nat) \<Rightarrow> nat list \<Rightarrow> nat list" where
  "capitalize ToTitle s =
     (if s = [] then s
      else (case decode_rune s of (r, n) \<Rightarrow> encode_rune (ToTitle r) @ drop n s))"

definition is_rune :: "nat \<Rightarrow> bool" where
  "is_rune r \<longleftrightarrow> r \<le> 0x10FFFF \<and> \<not> (0xD800 \<le> r \<and> r \<le> 0xDFFF)"

lemma base64_2: "(r :: nat) div 64 * 64 + r mod 64 = r"
  by simp

lemma base64_3: "(r :: nat) div 4096 * 4096 + r div 64 mod 64 * 64 + r mod 64 = r"
proof -
  have "r div 64 div 64 = r div 4096" by (simp add: div_mult2_eq [symmetric])
  then have "r div 64 = r div 4096 * 64 + r div 64 mod 64" by (metis div_mult_mod_eq)
  then show ?thesis using base64_2 [of r] by linarith
qed

lemma base64_4: "(r :: nat) div 262144 * 262144 + r div 4096 mod 64 * 4096 + r div 64 mod 64 * 64 + r mod 64 = r"
proof -
  have "r div 4096 div 64 = r div 262144" by (simp add: div_mult2_eq [symmetric])
  then have "r div 4096 = r div 262144 * 64 + r div 4096 mod 64" by (metis div_mult_mod_eq)
  then show ?thesis using base64_3 [of r] by linarith
qed

lemma decode_encode:
  assumes "is_rune r"
  shows "decode_rune (encode_rune r @ s) = (r, length (encode_rune r))"
proof -
  consider "r < 0x80" | "0x80 \<le> r" "r < 0x800" | "0x800 \<le> r" "r < 0x10000" | "0x10000 \<le> r" "r \<le> 0x10FFFF"
    using assms by (force simp: is_rune_def not_less)
  then show ?thesis
  proof cases
    case 1
    then show ?thesis by (simp add: encode_rune_def)
  next
    case 2
    obtain a b where ab: "a = r div 64" "b = r mod 64" by simp
    have e: "encode_rune r = [0xC0 + a, 0x80 + b]" using 2 by (simp add: encode_rune_def ab)
    have r: "r = a * 64 + b" using base64_2 [of r] by (simp only: ab)
    have "b < 64" by (simp add: ab)
    moreover from this have "2 \<le> a" "a \<le> 31" using 2 r by linarith+
    ultimately show ?thesis unfolding e by (simp add: r is_cont_def)
  next
    case 3
    obtain a b c where abc: "a = r div 4096" "b = r div 64 mod 64" "c = r mod 64" by simp
    have e: "encode_rune r = [0xE0 + a, 0x80 + b, 0x80 + c]"
      using 3 assms by (auto simp: encode_rune_def abc is_rune_def)
    have r: "a * 4096 + b * 64 + c = r" using base64_3 [of r] by (simp only: abc)
    have "b < 64" "c < 64" by (simp_all add: abc)
    moreover from this have "a \<le> 15" using 3 r by linarith
    ultimately show ?thesis using 3(1) assms unfolding e by (simp add: r is_cont_def is_rune_def)
  next
    case 4
    obtain a b c d where abcd: "a = r div 262144" "b = r div 4096 mod 64" "c = r div 64 mod 64" "d = r mod 64"
      by simp
    have e: "encode_rune r = [0xF0 + a, 0x80 + b, 0x80 + c, 0x80 + d]"
      using 4 by (simp add: encode_rune_def abcd)
    have r: "a * 262144 + b * 4096 + c * 64 + d = r" using base64_4 [of r] by (simp only: abcd)
    have "b < 64" "c < 64" "d < 64" by (simp_all add: abcd)
    moreover from this have "a \<le> 4" using 4 r by linarith
    ultimately show ?thesis using 4 unfolding e by (simp add: r is_cont_def)
  qed
qed

lemma encode_rune_not_Nil [simp]: "encode_rune r \<noteq> []"
  by (simp add: encode_rune_def Let_def)

text \<open>
  Capitalising twice is capitalising once, for every text, also one whose first bytes are no valid
  encoding, if \<open>ToTitle\<close> answers code points and gives a title case letter itself.
\<close>

theorem capitalize_idempotent:
  assumes "\<And>r. is_rune (T r)" and "\<And>r. T (T r) = T r"
  shows "capitalize T (capitalize T s) = capitalize T s"
proof (cases "s = []")
  case False
  obtain r n where "decode_rune s = (r, n)" by fastforce
  then have c: "capitalize T s = encode_rune (T r) @ drop n s" using False by (simp add: capitalize_def)
  have "capitalize T (encode_rune (T r) @ drop n s) = encode_rune (T r) @ drop n s"
    using decode_encode [OF assms(1), of r "drop n s"] by (simp add: capitalize_def assms(2))
  then show ?thesis using c by simp
qed (simp add: capitalize_def)

definition ascii_title :: "nat \<Rightarrow> nat" where
  "ascii_title r = (if 97 \<le> r \<and> r \<le> 122 then r - 32 else if is_rune r then r else RuneError)"

theorem capitalize_idempotent_witness:
  "capitalize ascii_title (capitalize ascii_title [0xC3, 0x28]) = [0xEF, 0xBF, 0xBD, 0x28]"
proof -
  have "capitalize ascii_title (capitalize ascii_title [0xC3, 0x28]) = capitalize ascii_title [0xC3, 0x28]"
    by (rule capitalize_idempotent) (auto simp: ascii_title_def is_rune_def RuneError_def)
  then show ?thesis
    by (simp add: capitalize_def is_cont_def encode_rune_def ascii_title_def is_rune_def RuneError_def)
qed

end
