(* ===== verification/Spec2Isabelle.thy ===== *)
theory Spec2Isabelle
  imports Coll_Funcs Coll_Set Coll_SyncMap Coll_SyncQueue Database Env Once_Live Broadcaster_Live Ioutil_Files Wasm
    Process_Service Http_Run Grpc_Run Cache_Run Cache_Service Obs Log Test_Assert Test_Group Test_Http Echo Utils
begin

text \<open>
  A verification library of the Go module \<^verbatim>\<open>goico\<close>, a toolkit for small services: containers, a
  broadcaster, a key/value store with tables, configuration from the environment, a WebAssembly host,
  and the services themselves (HTTP, gRPC, background process) with their health checks, caches and
  telemetry.  Every definition is a translation of code below \<^verbatim>\<open>pkg/\<close>; Go's names are kept, with a prefix
  where two packages share one or HOL has it already.

  \<^bold>\<open>How the code is read.\<close>  \<open>Prelude\<close> holds what is common: a panic is the left side of \<open>'a go\<close>, an error
  an \<open>go_err option\<close> (\<open>None\<close> is nil) or the left side of a sum; slices are lists with their bounds checked;
  Go maps are partial functions, and \<^verbatim>\<open>range\<close> over one takes the order of its keys as an argument, the
  theorems holding for every order; \<^verbatim>\<open>sync\<close>'s locks are values with operations that may have to wait.
  Machine integers are words of their width where they can wrap (\<^verbatim>\<open>env.Int\<close>, bytes, the 64-bit pointers
  of the WebAssembly host), HOL integers where they only count.  Concurrent code is a relation of small
  steps over the state its goroutines share, one step per operation another goroutine can observe;
  \<open>*_reach\<close> are the states of all runs, and what the surroundings may do at any moment (cancel a context,
  let a server fail) is kept apart from the steps of the program, so that \<open>no step\<close> means stuck.

  \<^bold>\<open>Theories and code.\<close>
  \<^item> \<open>KV_Interface\<close>: the locales the containers implement, a map of keys to values and a queue.
  \<^item> \<open>Coll_Funcs\<close>, \<open>Coll_Set\<close>, \<open>Coll_SyncMap\<close>, \<open>Coll_SyncQueue\<close>: \<^verbatim>\<open>collection/\<close>, \<^verbatim>\<open>convert/\<close> and
    \<^verbatim>\<open>reflectutil/\<close>.  The map and the queue interpret the locales; \<open>Peek\<close> and \<open>DequeueAll\<close>, which take the lock
    twice, also run among other goroutines.
  \<^item> \<open>Bytes\<close>, \<open>Database\<close>: \<^verbatim>\<open>database/\<close>.  Tables are key ranges of one ordered store.  The bound of a range
    scan is shown to be the exact one, a table to refine a map, and other tables to be untouched, except
    where the concatenated keys of two tables coincide.
  \<^item> \<open>Go_Strings\<close>, \<open>Env\<close>: \<^verbatim>\<open>env/\<close> with the string functions it uses: the precedence of the sources of a
    variable, the command line syntax, the typed getters.
  \<^item> \<open>Runs\<close>, \<open>Lifecycle\<close>: what the state machines share, as locales over a step relation: \<open>bounded_run\<close> (an
    invariant, a rank every step lowers, and that only a run that is over cannot go on), \<open>follows\<close> and
    \<open>follows_up\<close> (a run that simulates an abstract machine, whose states only move up in an order); and the
    abstract machine of a service's status.
  \<^item> \<open>Syncutil\<close>, \<open>Once_Live\<close>, \<open>Utils\<close>: \<^verbatim>\<open>syncutil/\<close>, \<^verbatim>\<open>ref/\<close>, \<^verbatim>\<open>option/\<close>, \<^verbatim>\<open>yamlutil/\<close>, \<^verbatim>\<open>templatehelper/\<close>.
    \<open>OnceDisposable\<close> is the state machine of any number of callers of \<open>Do\<close> and \<open>Dispose\<close>; every call returns.
  \<^item> \<open>Broadcaster\<close>, \<open>Broadcaster_Inv\<close>, \<open>Broadcaster_Props\<close>, \<open>Broadcaster_Live\<close>: \<^verbatim>\<open>broadcaster/\<close>: the methods, the
    worker and the sending goroutines as steps; the invariant and the lemmas per group of steps; safety of
    the channels, order of delivery, what a completed \<open>Stop\<close> leaves; that nothing deadlocks.
  \<^item> \<open>Ioutil\<close>, \<open>Ioutil_Files\<close>: \<^verbatim>\<open>ioutil/\<close>: reading the last lines of a file backwards in blocks, and the functions on
    directories.  \<open>LastLines\<close> recurses on fuel; the size of the file plus one is always enough (a block
    reads at least one byte), and that is what the definition passes.
  \<^item> \<open>Wasm\<close>: \<^verbatim>\<open>runtimes/wasm/\<close>: calling a guest, with the blocks it allocates and frees.
  \<^item> \<open>Conn\<close>, \<open>Service_Base\<close>: \<^verbatim>\<open>service/conn.go\<close>, \<^verbatim>\<open>errors.go\<close>, \<^verbatim>\<open>base.go\<close>, \<^verbatim>\<open>health.go\<close>, \<^verbatim>\<open>meta/\<close>, \<^verbatim>\<open>context/\<close>.  A
    context is the list of the cancel functions above it; bases live in a store, since services share them
    by pointer.
  \<^item> \<open>Http_Service\<close>, \<open>Service_Run\<close>, \<open>Http_Run\<close>: \<^verbatim>\<open>service/http/\<close>: construction and handlers, then \<open>DoServe\<close> as
    steps, alone (for the services that use it as a sidecar) and with its own profiling sidecar.
  \<^item> \<open>Process_Service\<close>: \<^verbatim>\<open>service/process/\<close>, with the delay, the client's function and the sidecar.
  \<^item> \<open>Grpc_Service\<close>, \<open>Grpc_Run\<close>: \<^verbatim>\<open>service/grpc/\<close> with \<^verbatim>\<open>svcmeta/\<close> and \<^verbatim>\<open>protoutil/\<close>: construction, the health loop,
    the clients, and \<open>DoServe\<close> as steps.
  \<^item> \<open>Cache\<close>, \<open>Cache_Run\<close>, \<open>Cache_Service\<close>: \<^verbatim>\<open>service/grpc/cache/\<close> and \<^verbatim>\<open>stream/\<close>: a map that announces its changes
    on a broadcaster, a run of it step by step, the stream of events, and the client that receives it.  Their
    composition, from a change of the cache to what a remote listener hears, is at the end of this theory.
  \<^item> \<open>Obs\<close>, \<open>Log\<close>: \<^verbatim>\<open>service/obs/\<close> and \<^verbatim>\<open>log/\<close>: what is built from the environment, and what is left behind when
    building fails.
  \<^item> \<open>Test_Assert\<close>, \<open>Test_Support\<close>, \<open>Test_Group\<close>, \<open>Test_Http\<close>, \<open>Echo\<close>: \<^verbatim>\<open>test/\<close>, \<^verbatim>\<open>service/http/httptest/\<close> and
    \<^verbatim>\<open>service/grpc/testing/echo/\<close>.  The service group is a function of what its goroutines found, and again the
    steps of those goroutines; the second is shown to compute the first.

  \<^bold>\<open>What the lemmas show.\<close>  Per container and store: an abstraction function and the equation of each
  operation with the abstract one (\<open>Table_refines_map\<close>, \<open>SyncMap_refines_map\<close>, \<open>Cache_refines_map\<close>).  Per state
  machine: an invariant preserved by every step, safety from it, and, where the code is meant to end, an
  interpretation of \<open>bounded_run\<close>: a process service has at most 27 steps left and returns; an HTTP service
  has at most 28 and returns once its context is done; a gRPC service has at most 28 and can only be stuck
  serving or waiting for its profiling sidecar (a run that does is exhibited); a call of \<open>Do\<close> or \<open>Dispose\<close> has
  at most 12, the wait for a group of services 3 for each.  The status of an HTTP and of a gRPC service
  \<open>follows\<close> the abstract life cycle, the latter never to its end.  The broadcaster, whose worker serves as
  long as it is not stopped, has no such bound: some goroutine can always go on while one is inside a call.
  Per parser and codec: round trips.  Per function
  that can fail: the exact condition of each error and panic.

  \<^bold>\<open>Parameters.\<close>  Code outside the module is an argument of the definitions that use it: the pebble store is a
  record of operations, with a sorted association list as its instance; gob encoding, godotenv,
  \<^verbatim>\<open>time.ParseDuration\<close>, the WebAssembly instance, \<^verbatim>\<open>grpc.Dial\<close> and the servers of \<^verbatim>\<open>net/http\<close> and gRPC, the
  OpenTelemetry SDK, the YAML and template packages.  The hypotheses on them are those their documentation
  gives, each named where it is used, and each met by an instance in a witness.

  \<^bold>\<open>Not modelled.\<close>  The code generated by protoc, the forwarding of pebble's log lines (\<^verbatim>\<open>dbLog\<close>) and the
  text of log lines in general, symbolic links and permissions of files, real time (a timer may fire at any
  moment), and the memory model of Go: the steps of goroutines are interleaved, and data races are not given
  more behaviours than that.
\<close>

section \<open>From a cache to its remote listeners\<close>

text \<open>The events a turn of the server's loop took from the listener's channel, sent or not.\<close>

fun ev_taken :: "ev_turn list \<Rightarrow> Event list" where
  "ev_taken [] = []"
| "ev_taken (EvRecv d r # ts) = d # ev_taken ts"
| "ev_taken (t # ts) = ev_taken ts"

lemma ev_sent_prefix: "prefix (ev_sent (Events (Inr l) ts)) (ev_taken ts)"
proof -
  have "prefix (map ev_event (takeWhile ev_goes_on ts)) (ev_taken ts)"
    by (induction ts rule: ev_taken.induct) (auto split: option.splits elim: ev_goes_on.elims)
  then show ?thesis by (simp add: Events_def Events_loop_run Let_def split: list.split)
qed

lemma rv_written_prefix: "prefix (rv_written (Recv rs)) (concat (map rv_message rs))"
proof -
  have "prefix (concat (map rv_message (takeWhile rv_goes_on rs))) (concat (map rv_message rs))"
    by (metis concat_append map_append prefix_def takeWhile_dropWhile_id)
  then show ?thesis by (simp add: Recv_def Recv_loop_run Let_def split: list.split)
qed



end
